(* ===== verification/Prelude.thy ===== *)
theory Prelude
  imports Main "HOL-Library.Monad_Syntax"
begin

text \<open>
  Shared vocabulary of the development.

  Unsigned Rust integers are natural numbers and signed ones are integers; the width is written
  out in every operation that can leave it.  \<open>checked_add w\<close> and its relatives are the
  \<open>checked_*\<close> methods of the standard library (\<open>None\<close> on overflow), \<open>wrapping_add w\<close> is the
  plain \<open>+\<close> of a release build.

  A computation that may panic (\<open>expect\<close>, indexing, a vacant slab key, division by zero) has
  type \<open>'a option\<close> with \<open>None\<close> for the panic, and is composed with the monad syntax of option.
  A \<open>Result\<close> is a sum with \<open>Inl\<close> for the error; \<open>try_else\<close> is the \<open>?\<close> operator for a
  computation that may both panic and fail.
\<close>

named_theorems arith_defs \<open>definitions of the machine arithmetic\<close>

section \<open>Machine arithmetic\<close>

definition checked_add :: "nat \<Rightarrow> nat \<Rightarrow> nat \<Rightarrow> nat option" where [arith_defs]:
  "checked_add w a b = (if a + b < 2 ^ w then Some (a + b) else None)"

definition checked_sub :: "nat \<Rightarrow> nat \<Rightarrow> nat option" where [arith_defs]:
  "checked_sub a b = (if b \<le> a then Some (a - b) else None)"

definition checked_mul :: "nat \<Rightarrow> nat \<Rightarrow> nat \<Rightarrow> nat option" where [arith_defs]:
  "checked_mul w a b = (if a * b < 2 ^ w then Some (a * b) else None)"

definition wrapping_add :: "nat \<Rightarrow> nat \<Rightarrow> nat \<Rightarrow> nat" where [arith_defs]:
  "wrapping_add w a b = (a + b) mod 2 ^ w"

definition saturating_add :: "nat \<Rightarrow> nat \<Rightarrow> nat \<Rightarrow> nat" where [arith_defs]:
  "saturating_add w a b = min (a + b) (2 ^ w - 1)"

definition in_signed :: "nat \<Rightarrow> int \<Rightarrow> bool" where [arith_defs]:
  "in_signed w x \<longleftrightarrow> - (2 ^ (w - 1)) \<le> x \<and> x < 2 ^ (w - 1)"

definition checked_iadd :: "nat \<Rightarrow> int \<Rightarrow> int \<Rightarrow> int option" where [arith_defs]:
  "checked_iadd w a b = (if in_signed w (a + b) then Some (a + b) else None)"

definition checked_isub :: "nat \<Rightarrow> int \<Rightarrow> int \<Rightarrow> int option" where [arith_defs]:
  "checked_isub w a b = (if in_signed w (a - b) then Some (a - b) else None)"

text \<open>\<open>i64::try_from\<close> on an unsigned value and \<open>u64::try_from\<close> on a signed one.\<close>

definition try_signed :: "nat \<Rightarrow> nat \<Rightarrow> int option" where [arith_defs]:
  "try_signed w n = (if int n < 2 ^ (w - 1) then Some (int n) else None)"

definition try_unsigned :: "nat \<Rightarrow> int \<Rightarrow> nat option" where [arith_defs]:
  "try_unsigned w x = (if 0 \<le> x \<and> x < 2 ^ w then Some (nat x) else None)"

definition unsigned_abs :: "int \<Rightarrow> nat" where
  "unsigned_abs x = nat \<bar>x\<bar>"

text \<open>Rust's \<open>%\<close> on \<open>i64\<close> truncates towards zero, and panics on a zero divisor and on
  \<open>i64::MIN % -1\<close>.\<close>

definition rem_signed :: "int \<Rightarrow> int \<Rightarrow> int option" where
  "rem_signed a b =
     (if b = 0 \<or> a = - (2 ^ 63) \<and> b = - 1 then None else Some (sgn a * (\<bar>a\<bar> mod \<bar>b\<bar>)))"

definition rem_unsigned :: "nat \<Rightarrow> nat \<Rightarrow> nat option" where
  "rem_unsigned a b = (if b = 0 then None else Some (a mod b))"

section \<open>Panics and the question mark operator\<close>

text \<open>Slice indexing: out of range is a panic.\<close>

definition idx :: "'a list \<Rightarrow> nat \<Rightarrow> 'a option" where
  "idx xs i = (if i < length xs then Some (xs ! i) else None)"

definition modify_at :: "'a list \<Rightarrow> nat \<Rightarrow> ('a \<Rightarrow> 'a) \<Rightarrow> 'a list option" where
  "modify_at xs i f = (if i < length xs then Some (xs[i := f (xs ! i)]) else None)"

fun try_else :: "('e + 'a) option \<Rightarrow> ('a \<Rightarrow> ('e + 'b) option) \<Rightarrow> ('e + 'b) option" where
  "try_else None f = None"
| "try_else (Some (Inl e)) f = Some (Inl e)"
| "try_else (Some (Inr x)) f = f x"

definition ok_or :: "'a option \<Rightarrow> 'e \<Rightarrow> 'e + 'a" where
  "ok_or x e = (case x of None \<Rightarrow> Inl e | Some v \<Rightarrow> Inr v)"

definition guard_err :: "bool \<Rightarrow> 'e \<Rightarrow> 'e + unit" where
  "guard_err bad e = (if bad then Inl e else Inr ())"

section \<open>Lemmas on the arithmetic\<close>

lemma checked_add_Some [simp]:
  "checked_add w a b = Some c \<longleftrightarrow> a + b < 2 ^ w \<and> c = a + b"
  by (auto simp: checked_add_def)

lemma checked_add_None [simp]: "checked_add w a b = None \<longleftrightarrow> 2 ^ w \<le> a + b"
  by (auto simp: checked_add_def)

lemma checked_sub_Some [simp]: "checked_sub a b = Some c \<longleftrightarrow> b \<le> a \<and> c = a - b"
  by (auto simp: checked_sub_def)

lemma checked_sub_None [simp]: "checked_sub a b = None \<longleftrightarrow> a < b"
  by (auto simp: checked_sub_def)

lemma checked_mul_Some [simp]:
  "checked_mul w a b = Some c \<longleftrightarrow> a * b < 2 ^ w \<and> c = a * b"
  by (auto simp: checked_mul_def)

lemma checked_mul_None [simp]: "checked_mul w a b = None \<longleftrightarrow> 2 ^ w \<le> a * b"
  by (auto simp: checked_mul_def)

lemma checked_iadd_Some [simp]:
  "checked_iadd w a b = Some c \<longleftrightarrow> in_signed w (a + b) \<and> c = a + b"
  by (auto simp: checked_iadd_def)

lemma checked_iadd_None [simp]: "checked_iadd w a b = None \<longleftrightarrow> \<not> in_signed w (a + b)"
  by (auto simp: checked_iadd_def)

lemma checked_isub_Some [simp]:
  "checked_isub w a b = Some c \<longleftrightarrow> in_signed w (a - b) \<and> c = a - b"
  by (auto simp: checked_isub_def)

lemma checked_isub_None [simp]: "checked_isub w a b = None \<longleftrightarrow> \<not> in_signed w (a - b)"
  by (auto simp: checked_isub_def)

lemma try_signed_Some [simp]:
  "try_signed w n = Some x \<longleftrightarrow> int n < 2 ^ (w - 1) \<and> x = int n"
  by (auto simp: try_signed_def)

lemma wrapping_add_small: "a + b < 2 ^ w \<Longrightarrow> wrapping_add w a b = a + b"
  by (simp add: wrapping_add_def)

lemma wrapping_add_bound: "wrapping_add w a b < 2 ^ w"
  by (simp add: wrapping_add_def)

section \<open>Lemmas on indexing and results\<close>

lemma idx_Some [simp]: "idx xs i = Some x \<longleftrightarrow> i < length xs \<and> x = xs ! i"
  by (auto simp: idx_def)

lemma idx_None [simp]: "idx xs i = None \<longleftrightarrow> length xs \<le> i"
  by (auto simp: idx_def)

lemmas bind_convs = Option.bind_eq_Some_conv Option.bind_eq_None_conv

lemma idx_less: "i < length xs \<Longrightarrow> idx xs i = Some (xs ! i)"
  by simp

lemma try_else_Inr_iff:
  "try_else m f = Some (Inr y) \<longleftrightarrow> (\<exists>x. m = Some (Inr x) \<and> f x = Some (Inr y))"
  by (cases "(m, f)" rule: try_else.cases) auto

lemma try_else_None_iff:
  "try_else m f = None \<longleftrightarrow> m = None \<or> (\<exists>x. m = Some (Inr x) \<and> f x = None)"
  by (cases "(m, f)" rule: try_else.cases) auto

lemma ok_or_Inr [simp]: "ok_or x e = Inr v \<longleftrightarrow> x = Some v"
  by (cases x) (auto simp: ok_or_def)

lemma ok_or_Inl [simp]: "ok_or x e = Inl e' \<longleftrightarrow> x = None \<and> e' = e"
  by (cases x) (auto simp: ok_or_def)

lemma guard_err_Inr [simp]: "guard_err bad e = Inr u \<longleftrightarrow> \<not> bad"
  by (simp add: guard_err_def)

lemma guard_err_Inl [simp]: "guard_err bad e = Inl e' \<longleftrightarrow> bad \<and> e' = e"
  by (auto simp: guard_err_def)

section \<open>Lemmas on lists\<close>

lemma sum_list_update_split:
  "sum_list (map f (xs @ x # ys)) = sum_list (map f (xs @ ys)) + (f x :: nat)"
  by simp

lemma map_cong_outside:
  "k \<notin> set ks \<Longrightarrow> map (the \<circ> (h(k := v))) ks = map (the \<circ> h) ks"
  by (auto intro!: map_cong)

lemma distinct_split_notin: "distinct (xs @ k # ys) \<Longrightarrow> k \<notin> set xs \<and> k \<notin> set ys"
  by auto

section \<open>Sums over a map\<close>

definition msum :: "('a \<Rightarrow> nat) \<Rightarrow> ('k \<rightharpoonup> 'a) \<Rightarrow> nat" where
  "msum F L = (\<Sum>k \<in> dom L. F (the (L k)))"

definition at_key :: "('a \<Rightarrow> nat) \<Rightarrow> 'a option \<Rightarrow> nat" where
  "at_key F v = (case v of None \<Rightarrow> 0 | Some d \<Rightarrow> F d)"

lemma at_key_simps [simp]: "at_key F None = 0" "at_key F (Some d) = F d"
  by (simp_all add: at_key_def)

lemma msum_empty [simp]: "msum F Map.empty = 0"
  by (simp add: msum_def)

lemma msum_delete:
  assumes "finite (dom L)"
  shows "msum F L = msum F (L(k := None)) + at_key F (L k)"
proof (cases "L k")
  case (Some d)
  then have "msum F L = F d + (\<Sum>j \<in> dom L - {k}. F (the (L j)))"
    using sum.remove [OF assms, of k "\<lambda>j. F (the (L j))"] by (auto simp: msum_def)
  moreover have "(\<Sum>j \<in> dom L - {k}. F (the (L j))) = msum F (L(k := None))"
    by (auto simp: msum_def intro!: sum.cong)
  ultimately show ?thesis using Some by simp
qed (simp add: fun_upd_idem)

lemma msum_upd:
  assumes "finite (dom L)"
  shows "msum F (L(k := v)) + at_key F (L k) = msum F L + at_key F v"
  using msum_delete [OF assms, of F k] msum_delete [of "L(k := v)" F k] assms by simp

lemma msum_ge: "finite (dom L) \<Longrightarrow> L k = Some d \<Longrightarrow> F d \<le> msum F L"
  using msum_delete [of L F k] by simp

end
