(* ===== verification/Types.thy ===== *)
theory Types
  imports Prelude
begin

text \<open>
  The domain types of the \<open>protocol\<close> crate: the integer newtypes of \<open>ids.rs\<close>, the closed
  enums of \<open>enums.rs\<close> with their stable wire values, and the normalized events of
  \<open>events.rs\<close>.  Newtypes are synonyms of the number they wrap, so \<open>PriceTicks\<close> is \<open>int\<close> and
  every other identifier, sequence, quantity and notional is \<open>nat\<close>; \<open>u64_ok\<close> and its
  relatives state the range the Rust type enforces.
\<close>

section \<open>Identifiers, prices and quantities (ids.rs)\<close>

type_synonym instrument_id = nat
type_synonym account_id = nat
type_synonym client_order_id = nat
type_synonym request_id = nat
type_synonym order_id = nat
type_synonym trade_id = nat
type_synonym price_ticks = int
type_synonym quantity_lots = nat
type_synonym notional = nat

abbreviation u8_ok :: "nat \<Rightarrow> bool" where "u8_ok n \<equiv> n < 2 ^ 8"
abbreviation u16_ok :: "nat \<Rightarrow> bool" where "u16_ok n \<equiv> n < 2 ^ 16"
abbreviation u32_ok :: "nat \<Rightarrow> bool" where "u32_ok n \<equiv> n < 2 ^ 32"
abbreviation u64_ok :: "nat \<Rightarrow> bool" where "u64_ok n \<equiv> n < 2 ^ 64"
abbreviation u128_ok :: "nat \<Rightarrow> bool" where "u128_ok n \<equiv> n < 2 ^ 128"
abbreviation i64_ok :: "int \<Rightarrow> bool" where "i64_ok x \<equiv> in_signed 64 x"

text \<open>\<open>counter_type!\<close>: the successor of a sequence counter, \<open>None\<close> when it is exhausted.\<close>

definition counter_next :: "nat \<Rightarrow> nat option" where
  "counter_next n = checked_add 64 n 1"

definition checked_add_ticks :: "price_ticks \<Rightarrow> int \<Rightarrow> price_ticks option" where
  "checked_add_ticks p ticks = checked_iadd 64 p ticks"

definition checked_sub_ticks :: "price_ticks \<Rightarrow> int \<Rightarrow> price_ticks option" where
  "checked_sub_ticks p ticks = checked_isub 64 p ticks"

text \<open>\<open>div_euclid(2)\<close> rounds towards minus infinity, as \<open>div\<close> does for a positive divisor.\<close>

definition midpoint :: "price_ticks \<Rightarrow> price_ticks \<Rightarrow> price_ticks option" where
  "midpoint bid ask = do { total \<leftarrow> checked_iadd 64 bid ask; Some (total div 2) }"

definition checked_notional :: "quantity_lots \<Rightarrow> price_ticks \<Rightarrow> notional option" where
  "checked_notional q p = checked_mul 128 q (unsigned_abs p)"

section \<open>Closed enums (enums.rs)\<close>

datatype side = Buy | Sell

fun opposite :: "side \<Rightarrow> side" where
  "opposite Buy = Sell"
| "opposite Sell = Buy"

fun side_wire :: "side \<Rightarrow> nat" where
  "side_wire Buy = 1"
| "side_wire Sell = 2"

definition side_from_wire :: "nat \<Rightarrow> side option" where
  "side_from_wire v = (if v = 1 then Some Buy else if v = 2 then Some Sell else None)"

datatype order_type = Limit | Market

fun order_type_wire :: "order_type \<Rightarrow> nat" where
  "order_type_wire Limit = 1"
| "order_type_wire Market = 2"

definition order_type_from_wire :: "nat \<Rightarrow> order_type option" where
  "order_type_from_wire v =
     (if v = 1 then Some Limit else if v = 2 then Some Market else None)"

datatype order_state = StWorking | StPartiallyFilled | StFilled | StCancelled

fun is_terminal :: "order_state \<Rightarrow> bool" where
  "is_terminal StFilled = True"
| "is_terminal StCancelled = True"
| "is_terminal _ = False"

fun order_state_wire :: "order_state \<Rightarrow> nat" where
  "order_state_wire StWorking = 1"
| "order_state_wire StPartiallyFilled = 2"
| "order_state_wire StFilled = 3"
| "order_state_wire StCancelled = 4"

datatype request_kind = New | Cancel | Replace

fun request_kind_wire :: "request_kind \<Rightarrow> nat" where
  "request_kind_wire New = 1"
| "request_kind_wire Cancel = 2"
| "request_kind_wire Replace = 3"

definition request_kind_from_wire :: "nat \<Rightarrow> request_kind option" where
  "request_kind_from_wire v =
     (if v = 1 then Some New else if v = 2 then Some Cancel
      else if v = 3 then Some Replace else None)"

datatype report_kind = RepAccepted | RepRejected | RepPartiallyFilled | RepFilled
  | RepCancelled | RepReplaced

fun report_kind_wire :: "report_kind \<Rightarrow> nat" where
  "report_kind_wire RepAccepted = 1"
| "report_kind_wire RepRejected = 2"
| "report_kind_wire RepPartiallyFilled = 3"
| "report_kind_wire RepFilled = 4"
| "report_kind_wire RepCancelled = 5"
| "report_kind_wire RepReplaced = 6"

datatype reject_reason =
    MalformedRequest | UnknownInstrument | UnknownAccount | UnknownOrder
  | InvalidSide | InvalidOrderType | InvalidPrice | InvalidQuantity
  | PriceNotAligned | QuantityNotAligned | DuplicateRequestConflict | SequenceTooOld
  | SequenceOutOfOrder | DuplicateClientOrderId | AccountDisabled | GlobalKillActive
  | MarketDataUnsynchronized | MarketDataStale | MaxOrderQuantity | MaxOrderNotional
  | PriceCollar | MaxPosition | MaxGrossExposure | CapacityExhausted
  | ArithmeticOverflow | OrderAlreadyTerminal | InvalidReplaceQuantity | NoReferencePrice

fun reject_wire :: "reject_reason \<Rightarrow> nat" where
  "reject_wire MalformedRequest = 1"
| "reject_wire UnknownInstrument = 2"
| "reject_wire UnknownAccount = 3"
| "reject_wire UnknownOrder = 4"
| "reject_wire InvalidSide = 5"
| "reject_wire InvalidOrderType = 6"
| "reject_wire InvalidPrice = 7"
| "reject_wire InvalidQuantity = 8"
| "reject_wire PriceNotAligned = 9"
| "reject_wire QuantityNotAligned = 10"
| "reject_wire DuplicateRequestConflict = 11"
| "reject_wire SequenceTooOld = 12"
| "reject_wire SequenceOutOfOrder = 13"
| "reject_wire DuplicateClientOrderId = 14"
| "reject_wire AccountDisabled = 15"
| "reject_wire GlobalKillActive = 16"
| "reject_wire MarketDataUnsynchronized = 17"
| "reject_wire MarketDataStale = 18"
| "reject_wire MaxOrderQuantity = 19"
| "reject_wire MaxOrderNotional = 20"
| "reject_wire PriceCollar = 21"
| "reject_wire MaxPosition = 22"
| "reject_wire MaxGrossExposure = 23"
| "reject_wire CapacityExhausted = 24"
| "reject_wire ArithmeticOverflow = 25"
| "reject_wire OrderAlreadyTerminal = 26"
| "reject_wire InvalidReplaceQuantity = 27"
| "reject_wire NoReferencePrice = 28"

fun reject_label :: "reject_reason \<Rightarrow> string" where
  "reject_label MalformedRequest = ''malformed_request''"
| "reject_label UnknownInstrument = ''unknown_instrument''"
| "reject_label UnknownAccount = ''unknown_account''"
| "reject_label UnknownOrder = ''unknown_order''"
| "reject_label InvalidSide = ''invalid_side''"
| "reject_label InvalidOrderType = ''invalid_order_type''"
| "reject_label InvalidPrice = ''invalid_price''"
| "reject_label InvalidQuantity = ''invalid_quantity''"
| "reject_label PriceNotAligned = ''price_not_aligned''"
| "reject_label QuantityNotAligned = ''quantity_not_aligned''"
| "reject_label DuplicateRequestConflict = ''duplicate_request_conflict''"
| "reject_label SequenceTooOld = ''sequence_too_old''"
| "reject_label SequenceOutOfOrder = ''sequence_out_of_order''"
| "reject_label DuplicateClientOrderId = ''duplicate_client_order_id''"
| "reject_label AccountDisabled = ''account_disabled''"
| "reject_label GlobalKillActive = ''global_kill_active''"
| "reject_label MarketDataUnsynchronized = ''market_data_unsynchronized''"
| "reject_label MarketDataStale = ''market_data_stale''"
| "reject_label MaxOrderQuantity = ''max_order_quantity''"
| "reject_label MaxOrderNotional = ''max_order_notional''"
| "reject_label PriceCollar = ''price_collar''"
| "reject_label MaxPosition = ''max_position''"
| "reject_label MaxGrossExposure = ''max_gross_exposure''"
| "reject_label CapacityExhausted = ''capacity_exhausted''"
| "reject_label ArithmeticOverflow = ''arithmetic_overflow''"
| "reject_label OrderAlreadyTerminal = ''order_already_terminal''"
| "reject_label InvalidReplaceQuantity = ''invalid_replace_quantity''"
| "reject_label NoReferencePrice = ''no_reference_price''"

definition all_reject_reasons :: "reject_reason list" where
  "all_reject_reasons =
    [MalformedRequest, UnknownInstrument, UnknownAccount, UnknownOrder,
     InvalidSide, InvalidOrderType, InvalidPrice, InvalidQuantity,
     PriceNotAligned, QuantityNotAligned, DuplicateRequestConflict, SequenceTooOld,
     SequenceOutOfOrder, DuplicateClientOrderId, AccountDisabled, GlobalKillActive,
     MarketDataUnsynchronized, MarketDataStale, MaxOrderQuantity, MaxOrderNotional,
     PriceCollar, MaxPosition, MaxGrossExposure, CapacityExhausted,
     ArithmeticOverflow, OrderAlreadyTerminal, InvalidReplaceQuantity, NoReferencePrice]"

datatype feed_state = Unsynchronized | ApplyingSnapshot | Live | Gap

fun feed_state_wire :: "feed_state \<Rightarrow> nat" where
  "feed_state_wire Unsynchronized = 1"
| "feed_state_wire ApplyingSnapshot = 2"
| "feed_state_wire Live = 3"
| "feed_state_wire Gap = 4"

fun feed_state_label :: "feed_state \<Rightarrow> string" where
  "feed_state_label Unsynchronized = ''unsynchronized''"
| "feed_state_label ApplyingSnapshot = ''applying_snapshot''"
| "feed_state_label Live = ''live''"
| "feed_state_label Gap = ''gap''"

section \<open>Normalized events (events.rs)\<close>

datatype market_event_kind =
    SnapshotBegin nat                                  \<comment> \<open>snapshot sequence\<close>
  | SnapshotLevel side price_ticks quantity_lots
  | SnapshotEnd nat nat                                \<comment> \<open>snapshot sequence, level count\<close>
  | LevelSet side price_ticks quantity_lots
  | Trade side price_ticks quantity_lots
  | Heartbeat
  | FeedReset nat                                      \<comment> \<open>new epoch\<close>

record market_event =
  me_instrument :: instrument_id
  me_source_seq :: nat
  me_source_time_ns :: nat
  me_kind :: market_event_kind

record order_request =
  rq_kind :: request_kind
  rq_account :: account_id
  rq_instrument :: instrument_id
  rq_request_id :: request_id
  rq_client_seq :: nat
  rq_client_order_id :: client_order_id
  rq_target_client_order_id :: client_order_id
  rq_side :: side
  rq_order_type :: order_type
  rq_price :: price_ticks
  rq_quantity :: quantity_lots

record account_limits =
  lim_max_order_quantity :: quantity_lots
  lim_max_order_notional :: notional
  lim_max_position_lots :: nat
  lim_max_gross_exposure :: notional
  lim_price_collar_ticks :: int

datatype control_command =
    SetGlobalKill bool
  | SetAccountEnabled account_id bool
  | SetAccountLimits account_id account_limits

datatype input_event =
    MarketInput market_event
  | OrderInput order_request
  | ControlInput control_command

record engine_input =
  in_ingress_seq :: nat
  in_recv_time_ns :: nat
  in_event :: input_event

record execution_report =
  er_output_seq :: nat
  er_engine_seq :: nat
  er_engine_time_ns :: nat
  er_account :: account_id
  er_instrument :: instrument_id
  er_request_id :: request_id
  er_client_order_id :: client_order_id
  er_order_id :: order_id
  er_kind :: report_kind
  er_state :: order_state
  er_side :: side
  er_order_type :: order_type
  er_price :: price_ticks
  er_total_quantity :: quantity_lots
  er_cumulative_filled :: quantity_lots
  er_remaining :: quantity_lots
  er_last_fill_quantity :: quantity_lots
  er_last_fill_price :: price_ticks
  er_reject_reason :: "reject_reason option"

record trade_event =
  te_output_seq :: nat
  te_engine_seq :: nat
  te_engine_time_ns :: nat
  te_trade_id :: trade_id
  te_instrument :: instrument_id
  te_maker_order_id :: order_id
  te_taker_order_id :: order_id
  te_maker_account :: account_id
  te_taker_account :: account_id
  te_aggressor :: side
  te_price :: price_ticks
  te_quantity :: quantity_lots

datatype engine_state_event =
    KillSwitchEngaged
  | KillSwitchReleased
  | AccountEnabledChanged account_id bool
  | AccountLimitsChanged account_id
  | FeedStateChanged instrument_id feed_state

record state_event =
  se_output_seq :: nat
  se_engine_seq :: nat
  se_engine_time_ns :: nat
  se_event :: engine_state_event

datatype output_event =
    OutTrade trade_event
  | OutReport execution_report
  | OutState state_event

fun output_seq_of :: "output_event \<Rightarrow> nat" where
  "output_seq_of (OutTrade t) = te_output_seq t"
| "output_seq_of (OutReport r) = er_output_seq r"
| "output_seq_of (OutState s) = se_output_seq s"

fun engine_seq_of :: "output_event \<Rightarrow> nat" where
  "engine_seq_of (OutTrade t) = te_engine_seq t"
| "engine_seq_of (OutReport r) = er_engine_seq r"
| "engine_seq_of (OutState s) = se_engine_seq s"

section \<open>The order on sides\<close>

text \<open>\<open>Side\<close> derives \<open>Ord\<close>: \<open>Buy\<close> comes first.\<close>

instantiation side :: linorder
begin

definition less_eq_side :: "side \<Rightarrow> side \<Rightarrow> bool" where
  "less_eq_side a b \<longleftrightarrow> side_wire a \<le> side_wire b"

definition less_side :: "side \<Rightarrow> side \<Rightarrow> bool" where
  "less_side a b \<longleftrightarrow> side_wire a < side_wire b"

instance
  by standard (auto simp: less_eq_side_def less_side_def elim!: side_wire.elims)

end

section \<open>Lemmas\<close>

lemma opposite_opposite [simp]: "opposite (opposite sd) = sd"
  by (cases sd) simp_all

lemma opposite_neq [simp]: "opposite sd \<noteq> sd" "sd \<noteq> opposite sd"
  by (cases sd; simp)+

lemma opposite_eq_iff [simp]: "opposite a = opposite b \<longleftrightarrow> a = b"
  by (cases a; cases b) simp_all

lemma side_neq_opposite: "a \<noteq> b \<longleftrightarrow> a = opposite b"
  by (cases a; cases b) simp_all

lemma counter_next_Some [simp]: "counter_next n = Some m \<longleftrightarrow> n + 1 < 2 ^ 64 \<and> m = n + 1"
  by (simp add: counter_next_def)

lemma counter_next_None [simp]: "counter_next n = None \<longleftrightarrow> 2 ^ 64 \<le> n + 1"
  by (simp add: counter_next_def)

text \<open>The widened product of a quantity and a price always fits, so no request is rejected or
  faulted for its notional alone.\<close>

lemma unsigned_abs_bound: "i64_ok p \<Longrightarrow> unsigned_abs p \<le> 2 ^ 63"
  by (auto simp: in_signed_def unsigned_abs_def nat_le_iff)

lemma checked_notional_fits:
  assumes "u64_ok q" and "i64_ok p"
  shows "checked_notional q p = Some (q * unsigned_abs p)"
proof -
  have "q * unsigned_abs p \<le> (2 ^ 64 - 1) * 2 ^ 63"
    using assms unsigned_abs_bound [of p] by (intro mult_le_mono) simp_all
  also have "\<dots> < 2 ^ 128" by simp
  finally show ?thesis by (simp add: checked_notional_def)
qed

lemma midpoint_between:
  "midpoint bid ask = Some m \<Longrightarrow> bid \<le> ask \<Longrightarrow> bid \<le> m \<and> m \<le> ask"
  by (auto simp: midpoint_def bind_convs)

lemma midpoint_fits: "0 \<le> bid \<Longrightarrow> bid < 2 ^ 62 \<Longrightarrow> 0 \<le> ask \<Longrightarrow> ask < 2 ^ 62 \<Longrightarrow>
    midpoint bid ask = Some ((bid + ask) div 2)"
  by (auto simp: midpoint_def checked_iadd_def in_signed_def)

lemma side_from_wire_wire [simp]: "side_from_wire (side_wire s) = Some s"
  by (cases s) (simp_all add: side_from_wire_def)

lemma order_type_from_wire_wire [simp]: "order_type_from_wire (order_type_wire t) = Some t"
  by (cases t) (simp_all add: order_type_from_wire_def)

lemma request_kind_from_wire_wire [simp]: "request_kind_from_wire (request_kind_wire k) = Some k"
  by (cases k) (simp_all add: request_kind_from_wire_def)

lemma set_all_reject_reasons: "set all_reject_reasons = UNIV"
proof -
  have "r \<in> set all_reject_reasons" for r
    by (cases r) (simp_all add: all_reject_reasons_def)
  then show ?thesis by blast
qed

lemma reject_wire_pos: "0 < reject_wire r \<and> reject_wire r \<le> 28"
  by (cases r) simp_all

end
