(* ===== verification/Ordered_Map.thy ===== *)
theory Ordered_Map
  imports Prelude
begin

text \<open>
  The part of \<open>std::collections::BTreeMap\<close> the books and the market view use: a map kept in
  ascending key order.  The model is the ascending association list of its entries, so that
  \<open>iter\<close>, \<open>keys().next()\<close>, \<open>next_back()\<close>, \<open>pop_first\<close>, \<open>pop_last\<close> and \<open>len\<close> read off the list and
  two maps are equal when they hold the same entries.  The locale \<open>ordered_map\<close> states what the
  clients rely on; it is interpreted on these definitions at the end.
\<close>

type_synonym ('k, 'v) btm = "('k \<times> 'v) list"

section \<open>Operations\<close>

definition btm_ok :: "('k::linorder, 'v) btm \<Rightarrow> bool" where
  "btm_ok m \<longleftrightarrow> sorted_wrt (<) (map fst m)"

definition btm_get :: "('k, 'v) btm \<Rightarrow> 'k \<Rightarrow> 'v option" where
  "btm_get m k = map_of m k"

definition btm_insert :: "'k::linorder \<Rightarrow> 'v \<Rightarrow> ('k, 'v) btm \<Rightarrow> ('k, 'v) btm" where
  "btm_insert k v m = filter (\<lambda>e. fst e < k) m @ (k, v) # filter (\<lambda>e. k < fst e) m"

definition btm_remove :: "'k \<Rightarrow> ('k, 'v) btm \<Rightarrow> ('k, 'v) btm" where
  "btm_remove k m = filter (\<lambda>e. fst e \<noteq> k) m"

definition btm_first :: "('k, 'v) btm \<Rightarrow> ('k \<times> 'v) option" where
  "btm_first m = (case m of [] \<Rightarrow> None | e # _ \<Rightarrow> Some e)"

definition btm_last :: "('k, 'v) btm \<Rightarrow> ('k \<times> 'v) option" where
  "btm_last m = (if m = [] then None else Some (last m))"

definition btm_keys :: "('k, 'v) btm \<Rightarrow> 'k set" where
  "btm_keys m = dom (btm_get m)"

section \<open>The interface\<close>

locale ordered_map =
  fixes inv :: "'m \<Rightarrow> bool"
    and get :: "'m \<Rightarrow> 'k::linorder \<Rightarrow> 'v option"
    and put :: "'k \<Rightarrow> 'v \<Rightarrow> 'm \<Rightarrow> 'm"
    and del :: "'k \<Rightarrow> 'm \<Rightarrow> 'm"
    and fst_entry :: "'m \<Rightarrow> ('k \<times> 'v) option"
    and lst_entry :: "'m \<Rightarrow> ('k \<times> 'v) option"
  assumes inv_put: "inv m \<Longrightarrow> inv (put k v m)"
    and inv_del: "inv m \<Longrightarrow> inv (del k m)"
    and get_put: "inv m \<Longrightarrow> get (put k v m) = (get m)(k \<mapsto> v)"
    and get_del: "inv m \<Longrightarrow> get (del k m) = (get m)(k := None)"
    and fst_Some: "inv m \<Longrightarrow> fst_entry m = Some (k, v) \<longleftrightarrow>
          get m k = Some v \<and> (\<forall>j \<in> dom (get m). k \<le> j)"
    and lst_Some: "inv m \<Longrightarrow> lst_entry m = Some (k, v) \<longleftrightarrow>
          get m k = Some v \<and> (\<forall>j \<in> dom (get m). j \<le> k)"
    and fst_None: "inv m \<Longrightarrow> fst_entry m = None \<longleftrightarrow> dom (get m) = {}"
    and lst_None: "inv m \<Longrightarrow> lst_entry m = None \<longleftrightarrow> dom (get m) = {}"
begin

lemma fst_entry_get: "inv m \<Longrightarrow> fst_entry m = Some e \<Longrightarrow> get m (fst e) = Some (snd e)"
  using fst_Some [of m "fst e" "snd e"] by simp

lemma lst_entry_get: "inv m \<Longrightarrow> lst_entry m = Some e \<Longrightarrow> get m (fst e) = Some (snd e)"
  using lst_Some [of m "fst e" "snd e"] by simp

lemma fst_entry_least:
  "inv m \<Longrightarrow> fst_entry m = Some e \<Longrightarrow> get m k = Some v \<Longrightarrow> fst e \<le> k"
  using fst_Some [of m "fst e" "snd e"] by auto

lemma lst_entry_greatest:
  "inv m \<Longrightarrow> lst_entry m = Some e \<Longrightarrow> get m k = Some v \<Longrightarrow> k \<le> fst e"
  using lst_Some [of m "fst e" "snd e"] by auto

lemma get_put_same: "inv m \<Longrightarrow> get (put k v m) k = Some v"
  by (simp add: get_put)

lemma get_put_other: "inv m \<Longrightarrow> j \<noteq> k \<Longrightarrow> get (put k v m) j = get m j"
  by (simp add: get_put)

end

section \<open>Lemmas\<close>

lemma btm_ok_Nil [simp]: "btm_ok []"
  by (simp add: btm_ok_def)

lemma btm_get_Nil [simp]: "btm_get [] k = None"
  by (simp add: btm_get_def)

lemma btm_get_Cons: "btm_get ((k, v) # m) = (btm_get m)(k \<mapsto> v)"
  by (auto simp: btm_get_def fun_eq_iff)

lemma btm_ok_distinct: "btm_ok m \<Longrightarrow> distinct (map fst m)"
  by (simp add: btm_ok_def strict_sorted_iff)

lemma btm_ok_filter: "btm_ok m \<Longrightarrow> btm_ok (filter P m)"
  unfolding btm_ok_def
  by (induction m) (auto)

lemma btm_ok_Cons: "btm_ok ((k, v) # m) \<longleftrightarrow> (\<forall>e \<in> set m. k < fst e) \<and> btm_ok m"
  by (auto simp: btm_ok_def)

lemma btm_ok_append:
  "btm_ok (xs @ ys) \<longleftrightarrow> btm_ok xs \<and> btm_ok ys \<and> (\<forall>a \<in> set xs. \<forall>b \<in> set ys. fst a < fst b)"
  by (auto simp: btm_ok_def sorted_wrt_append)

lemma btm_ok_insert [simp]: "btm_ok m \<Longrightarrow> btm_ok (btm_insert k v m)"
  unfolding btm_insert_def by (force simp: btm_ok_append btm_ok_Cons btm_ok_filter)

lemma btm_ok_remove [simp]: "btm_ok m \<Longrightarrow> btm_ok (btm_remove k m)"
  by (simp add: btm_remove_def btm_ok_filter)

lemma map_of_filter_key: "map_of (filter (\<lambda>e. P (fst e)) m) j = (if P j then map_of m j else None)"
  by (induction m) auto

lemma btm_get_insert: "btm_get (btm_insert k v m) = (btm_get m)(k \<mapsto> v)"
  using map_of_filter_key [of "\<lambda>j. j < k" m] map_of_filter_key [of "\<lambda>j. k < j" m]
  by (auto simp: btm_get_def btm_insert_def map_add_def fun_eq_iff not_less
      split: option.splits)

lemma btm_get_remove: "btm_get (btm_remove k m) = (btm_get m)(k := None)"
  using map_of_filter_key [of "\<lambda>j. j \<noteq> k" m]
  by (auto simp: btm_get_def btm_remove_def fun_eq_iff)

lemma btm_get_in_set: "btm_ok m \<Longrightarrow> btm_get m k = Some v \<longleftrightarrow> (k, v) \<in> set m"
  by (simp add: btm_get_def btm_ok_distinct)

lemma btm_get_dom: "btm_get m k \<noteq> None \<longleftrightarrow> k \<in> fst ` set m"
  by (simp add: btm_get_def map_of_eq_None_iff)

lemma btm_first_Some:
  assumes "btm_ok m"
  shows "btm_first m = Some (k, v) \<longleftrightarrow>
    btm_get m k = Some v \<and> (\<forall>j \<in> dom (btm_get m). k \<le> j)"
proof (cases m)
  case (Cons e m')
  obtain a b where e: "e = (a, b)" by (cases e)
  have small: "j \<in> fst ` set m' \<Longrightarrow> a < j" for j
    using assms by (auto simp: Cons e btm_ok_Cons)
  show ?thesis
    using small map_of_eq_None_iff [of m']
    by (fastforce simp: Cons e btm_first_def btm_get_def dom_def split: if_splits
        dest: map_of_SomeD)
qed (simp add: btm_first_def)

lemma btm_last_Some:
  assumes "btm_ok m"
  shows "btm_last m = Some (k, v) \<longleftrightarrow>
    btm_get m k = Some v \<and> (\<forall>j \<in> dom (btm_get m). j \<le> k)"
proof (cases m rule: rev_cases)
  case (snoc m' e)
  obtain a b where e: "e = (a, b)" by (cases e)
  have small: "(j, u) \<in> set m' \<Longrightarrow> j < a" for j u
    using assms by (auto simp: snoc e btm_ok_append)
  have mem: "btm_get m j = Some u \<longleftrightarrow> (j, u) \<in> set m" for j u
    by (rule btm_get_in_set [OF assms])
  have all: "(\<forall>j \<in> dom (btm_get m). j \<le> k) \<longleftrightarrow> (\<forall>(j, u) \<in> set m. j \<le> k)"
    using mem by (auto simp: dom_def)
  show ?thesis
    unfolding mem all using small by (force simp: snoc e btm_last_def)
qed (simp add: btm_last_def)

lemma btm_get_empty: "dom (btm_get m) = {} \<longleftrightarrow> m = []"
  unfolding btm_get_def by (simp add: dom_map_of_conv_image_fst del: dom_eq_empty_conv)

lemma btm_first_None: "btm_first m = None \<longleftrightarrow> dom (btm_get m) = {}"
  unfolding btm_get_empty by (simp add: btm_first_def split: list.splits)

lemma btm_last_None: "btm_last m = None \<longleftrightarrow> dom (btm_get m) = {}"
  unfolding btm_get_empty by (simp add: btm_last_def)

interpretation btm: ordered_map btm_ok btm_get btm_insert btm_remove btm_first btm_last
  by unfold_locales
    (simp_all add: btm_get_insert btm_get_remove btm_first_Some btm_last_Some btm_first_None
      btm_last_None)

end
