(* ===== verification/Book.thy ===== *)
theory Book
  imports Types Ordered_Map
begin

text \<open>
  The matching book (\<open>trading-core/src/book.rs\<close>): price levels in a \<open>BTreeMap\<close>, the orders of a
  level as a doubly linked FIFO threaded through a slab, and an index from order id to slab key.

  The slab is the third-party crate \<open>slab\<close>.  It is a parameter of the model: the record \<open>slab_ops\<close>
  holds the operations the book calls, and the locale \<open>slab_store\<close> states their documented
  behaviour (a store of values under keys it chooses, \<open>len\<close> the number of values).  Indexing or
  removing a vacant key panics, which is \<open>None\<close> here.
\<close>

section \<open>The slab\<close>

record new_order =
  o_id :: order_id
  o_account :: account_id
  o_client :: client_order_id
  o_side :: side
  o_price :: price_ticks
  o_total :: quantity_lots
  o_filled :: quantity_lots
  o_priority :: nat

text \<open>\<open>OrderNode\<close> has the fields of \<open>NewOrder\<close> and the two links.\<close>

record order_node = new_order +
  n_prev :: "nat option"
  n_next :: "nat option"

record 's slab_ops =
  slab_new :: "nat \<Rightarrow> 's"
  slab_insert :: "'s \<Rightarrow> order_node \<Rightarrow> nat \<times> 's"
  slab_get :: "'s \<Rightarrow> nat \<Rightarrow> order_node option"
  slab_set :: "'s \<Rightarrow> nat \<Rightarrow> order_node \<Rightarrow> 's"
  slab_remove :: "'s \<Rightarrow> nat \<Rightarrow> (order_node \<times> 's) option"
  slab_len :: "'s \<Rightarrow> nat"

section \<open>Data\<close>

text \<open>\<open>OrderNode::remaining\<close> panics when more was filled than ordered.\<close>

definition remaining :: "'z new_order_scheme \<Rightarrow> quantity_lots option" where
  "remaining n = checked_sub (o_total n) (o_filled n)"

record price_level =
  pl_head :: "nat option"
  pl_tail :: "nat option"
  pl_count :: nat
  pl_total :: nat

definition empty_level :: price_level where
  "empty_level = \<lparr>pl_head = None, pl_tail = None, pl_count = 0, pl_total = 0\<rparr>"

datatype capacity_exhausted = CapacityExhausted

record 's order_book =
  bk_bids :: "(price_ticks, price_level) btm"
  bk_asks :: "(price_ticks, price_level) btm"
  bk_orders :: 's
  bk_index :: "order_id \<rightharpoonup> nat"
  bk_capacity :: nat

fun bk_levels :: "'s order_book \<Rightarrow> side \<Rightarrow> (price_ticks, price_level) btm" where
  "bk_levels b Buy = bk_bids b"
| "bk_levels b Sell = bk_asks b"

fun set_levels :: "side \<Rightarrow> (price_ticks, price_level) btm \<Rightarrow> 's order_book \<Rightarrow> 's order_book" where
  "set_levels Buy m b = b\<lparr>bk_bids := m\<rparr>"
| "set_levels Sell m b = b\<lparr>bk_asks := m\<rparr>"

text \<open>\<open>self.orders[k].field = v\<close>: a panic when the key is vacant.\<close>

definition slab_modify ::
  "'s slab_ops \<Rightarrow> 's \<Rightarrow> nat \<Rightarrow> (order_node \<Rightarrow> order_node) \<Rightarrow> 's option" where
  "slab_modify S s k f = do { n \<leftarrow> slab_get S s k; Some (slab_set S s k (f n)) }"

section \<open>Operations\<close>

definition book_with_capacity :: "'s slab_ops \<Rightarrow> nat \<Rightarrow> 's order_book" where
  "book_with_capacity S capacity =
     \<lparr>bk_bids = [], bk_asks = [], bk_orders = slab_new S capacity, bk_index = Map.empty,
      bk_capacity = capacity\<rparr>"

definition live_order_count :: "'s slab_ops \<Rightarrow> 's order_book \<Rightarrow> nat" where
  "live_order_count S b = slab_len S (bk_orders b)"

definition is_full :: "'s slab_ops \<Rightarrow> 's order_book \<Rightarrow> bool" where
  "is_full S b \<longleftrightarrow> bk_capacity b \<le> slab_len S (bk_orders b)"

definition book_get :: "'s slab_ops \<Rightarrow> 's order_book \<Rightarrow> order_id \<Rightarrow> order_node option option" where
  "book_get S b oid =
     (case bk_index b oid of
        None \<Rightarrow> Some None
      | Some slot \<Rightarrow> do { n \<leftarrow> slab_get S (bk_orders b) slot; Some (Some n) })"

definition best_bid :: "'s order_book \<Rightarrow> (price_ticks \<times> price_level) option" where
  "best_bid b = btm_last (bk_bids b)"

definition best_ask :: "'s order_book \<Rightarrow> (price_ticks \<times> price_level) option" where
  "best_ask b = btm_first (bk_asks b)"

definition level_count :: "'s order_book \<Rightarrow> nat" where
  "level_count b = length (bk_bids b) + length (bk_asks b)"

definition node_of :: "new_order \<Rightarrow> order_node" where
  "node_of d =
     \<lparr>o_id = o_id d, o_account = o_account d, o_client = o_client d, o_side = o_side d,
      o_price = o_price d, o_total = o_total d, o_filled = o_filled d, o_priority = o_priority d,
      n_prev = None, n_next = None\<rparr>"

text \<open>The overflow test \<open>insert\<close> makes on an existing level before it changes anything.\<close>

definition level_overflows :: "price_level option \<Rightarrow> nat \<Rightarrow> bool" where
  "level_overflows lvl rest =
     (case lvl of
        None \<Rightarrow> False
      | Some l \<Rightarrow> checked_add 64 (pl_total l) rest = None \<or> checked_add 32 (pl_count l) 1 = None)"

text \<open>Threading a freshly inserted slot behind the tail of its level.\<close>

definition link_tail ::
  "'s slab_ops \<Rightarrow> 's \<Rightarrow> nat \<Rightarrow> price_level \<Rightarrow> ('s \<times> price_level) option" where
  "link_tail S s slot level =
     (case pl_tail level of
        Some tail_slot \<Rightarrow> do {
          s1 \<leftarrow> slab_modify S s tail_slot (\<lambda>n. n\<lparr>n_next := Some slot\<rparr>);
          s2 \<leftarrow> slab_modify S s1 slot (\<lambda>n. n\<lparr>n_prev := Some tail_slot\<rparr>);
          Some (s2, level)
        }
      | None \<Rightarrow> Some (s, level\<lparr>pl_head := Some slot\<rparr>))"

definition book_insert ::
  "'s slab_ops \<Rightarrow> 's order_book \<Rightarrow> new_order \<Rightarrow> (capacity_exhausted + 's order_book) option" where
  "book_insert S b d =
     (if is_full S b then Some (Inl CapacityExhausted)
      else case checked_sub (o_total d) (o_filled d) of
        None \<Rightarrow> Some (Inl CapacityExhausted)
      | Some rest \<Rightarrow>
        (let levels = bk_levels b (o_side d); found = btm_get levels (o_price d) in
         if level_overflows found rest then Some (Inl CapacityExhausted)
         else
           (let (slot, s) = slab_insert S (bk_orders b) (node_of d);
                index = (bk_index b)(o_id d \<mapsto> slot);
                level = (case found of None \<Rightarrow> empty_level | Some l \<Rightarrow> l)
            in do {
              (s', level') \<leftarrow> link_tail S s slot level;
              Some (Inr (set_levels (o_side d)
                (btm_insert (o_price d)
                  (level'\<lparr>pl_tail := Some slot,
                          pl_count := wrapping_add 32 (pl_count level') 1,
                          pl_total := wrapping_add 64 (pl_total level') rest\<rparr>) levels)
                (b\<lparr>bk_orders := s', bk_index := index\<rparr>)))
            })))"

text \<open>The two link updates of \<open>unlink\<close>: the predecessor (or the head of the level) takes the node's
  successor, then the successor (or the tail) takes its predecessor.\<close>

definition unlink_prev ::
  "'s slab_ops \<Rightarrow> 's \<Rightarrow> price_level \<Rightarrow> nat option \<Rightarrow> nat option \<Rightarrow> ('s \<times> price_level) option" where
  "unlink_prev S s level prev next =
     (case prev of
        Some p \<Rightarrow> do { s' \<leftarrow> slab_modify S s p (\<lambda>n. n\<lparr>n_next := next\<rparr>); Some (s', level) }
      | None \<Rightarrow> Some (s, level\<lparr>pl_head := next\<rparr>))"

definition unlink_next ::
  "'s slab_ops \<Rightarrow> 's \<Rightarrow> price_level \<Rightarrow> nat option \<Rightarrow> nat option \<Rightarrow> ('s \<times> price_level) option" where
  "unlink_next S s level prev next =
     (case next of
        Some x \<Rightarrow> do { s' \<leftarrow> slab_modify S s x (\<lambda>n. n\<lparr>n_prev := prev\<rparr>); Some (s', level) }
      | None \<Rightarrow> Some (s, level\<lparr>pl_tail := prev\<rparr>))"

definition unlink ::
  "'s slab_ops \<Rightarrow> 's order_book \<Rightarrow> order_node \<Rightarrow> 's order_book option" where
  "unlink S b node =
     (let levels = bk_levels b (o_side node) in
      case btm_get levels (o_price node) of
        None \<Rightarrow> Some b
      | Some level \<Rightarrow> do {
          (s1, level1) \<leftarrow> unlink_prev S (bk_orders b) level (n_prev node) (n_next node);
          (s2, level2) \<leftarrow> unlink_next S s1 level1 (n_prev node) (n_next node);
          rest \<leftarrow> remaining node;
          total \<leftarrow> checked_sub (pl_total level2) rest;
          (let level3 = level2\<lparr>pl_count := pl_count level2 - 1, pl_total := total\<rparr> in
           Some (set_levels (o_side node)
             (if pl_count level3 = 0 then btm_remove (o_price node) levels
              else btm_insert (o_price node) level3 levels)
             (b\<lparr>bk_orders := s2\<rparr>)))
        })"

definition book_remove ::
  "'s slab_ops \<Rightarrow> 's order_book \<Rightarrow> order_id \<Rightarrow> (order_node option \<times> 's order_book) option" where
  "book_remove S b oid =
     (case bk_index b oid of
        None \<Rightarrow> Some (None, b)
      | Some slot \<Rightarrow> do {
          (node, s) \<leftarrow> slab_remove S (bk_orders b) slot;
          b' \<leftarrow> unlink S (b\<lparr>bk_index := (bk_index b)(oid := None), bk_orders := s\<rparr>) node;
          Some (Some node, b')
        })"

definition reduce_total ::
  "'s slab_ops \<Rightarrow> 's order_book \<Rightarrow> order_id \<Rightarrow> quantity_lots \<Rightarrow> 's order_book option" where
  "reduce_total S b oid new_total =
     (case bk_index b oid of
        None \<Rightarrow> Some b
      | Some slot \<Rightarrow> do {
          node \<leftarrow> slab_get S (bk_orders b) slot;
          old_rest \<leftarrow> remaining node;
          let node' = node\<lparr>o_total := new_total\<rparr>;
          new_rest \<leftarrow> remaining node';
          let b' = b\<lparr>bk_orders := slab_set S (bk_orders b) slot node'\<rparr>;
          let levels = bk_levels b' (o_side node);
          (case btm_get levels (o_price node) of
             None \<Rightarrow> Some b'
           | Some level \<Rightarrow> do {
               total \<leftarrow> checked_sub (pl_total level) old_rest;
               total' \<leftarrow> checked_add 64 total new_rest;
               Some (set_levels (o_side node)
                 (btm_insert (o_price node) (level\<lparr>pl_total := total'\<rparr>) levels) b')
             })
        })"

definition fill_maker ::
  "'s slab_ops \<Rightarrow> 's order_book \<Rightarrow> nat \<Rightarrow> quantity_lots \<Rightarrow> (order_node \<times> 's order_book) option" where
  "fill_maker S b slot quantity = do {
     node \<leftarrow> slab_get S (bk_orders b) slot;
     filled \<leftarrow> checked_add 64 (o_filled node) quantity;
     let node_copy = node\<lparr>o_filled := filled\<rparr>;
     rest \<leftarrow> remaining node_copy;
     let s = slab_set S (bk_orders b) slot node_copy;
     let levels = bk_levels b (o_side node_copy);
     levels' \<leftarrow>
       (case btm_get levels (o_price node_copy) of
          None \<Rightarrow> Some levels
        | Some level \<Rightarrow> do {
            total \<leftarrow> checked_sub (pl_total level) quantity;
            Some (btm_insert (o_price node_copy) (level\<lparr>pl_total := total\<rparr>) levels)
          });
     let b' = set_levels (o_side node_copy) levels' (b\<lparr>bk_orders := s\<rparr>);
     if rest = 0 then do {
       (removed, s') \<leftarrow> slab_remove S (bk_orders b') slot;
       b'' \<leftarrow> unlink S (b'\<lparr>bk_index := (bk_index b')(o_id node_copy := None),
                        bk_orders := s'\<rparr>) removed;
       Some (node_copy, b'')
     }
     else Some (node_copy, b')
   }"

definition head_slot :: "'s order_book \<Rightarrow> side \<Rightarrow> price_ticks \<Rightarrow> nat option" where
  "head_slot b sd p = do { level \<leftarrow> btm_get (bk_levels b sd) p; pl_head level }"

definition next_eligible_price ::
  "'s order_book \<Rightarrow> side \<Rightarrow> price_ticks option \<Rightarrow> price_ticks option" where
  "next_eligible_price b sd limit =
     (case sd of
        Buy \<Rightarrow> do {
          (p, _) \<leftarrow> btm_last (bk_bids b);
          (case limit of Some l \<Rightarrow> if p < l then None else Some p | None \<Rightarrow> Some p)
        }
      | Sell \<Rightarrow> do {
          (p, _) \<leftarrow> btm_first (bk_asks b);
          (case limit of Some l \<Rightarrow> if l < p then None else Some p | None \<Rightarrow> Some p)
        })"

section \<open>Views\<close>

fun levels_view :: "'s order_book \<Rightarrow> side \<Rightarrow> (price_ticks \<times> price_level) list" where
  "levels_view b Buy = rev (bk_bids b)"
| "levels_view b Sell = bk_asks b"

definition top_levels :: "'s order_book \<Rightarrow> side \<Rightarrow> nat \<Rightarrow> (price_ticks \<times> price_level) list" where
  "top_levels b sd limit = take limit (levels_view b sd)"

text \<open>The cursor loops.  \<open>None\<close> is a vacant key or a chain that never ends.\<close>

partial_function (option) collect_from ::
  "'s slab_ops \<Rightarrow> 's \<Rightarrow> nat option \<Rightarrow> order_node list \<Rightarrow> order_node list option" where
  "collect_from S s cursor out =
     (case cursor of
        None \<Rightarrow> Some out
      | Some slot \<Rightarrow> do {
          node \<leftarrow> slab_get S s slot;
          collect_from S s (n_next node) (out @ [node])
        })"

fun collect_upto ::
  "'s slab_ops \<Rightarrow> 's \<Rightarrow> nat \<Rightarrow> nat option \<Rightarrow> order_node list \<Rightarrow> order_node list option" where
  "collect_upto S s limit None out = Some out"
| "collect_upto S s 0 (Some slot) out = Some out"
| "collect_upto S s (Suc limit) (Some slot) out = do {
     node \<leftarrow> slab_get S s slot;
     collect_upto S s limit (n_next node) (out @ [node])
   }"

definition level_orders ::
  "'s slab_ops \<Rightarrow> 's order_book \<Rightarrow> side \<Rightarrow> price_ticks \<Rightarrow> order_node list option" where
  "level_orders S b sd p = collect_from S (bk_orders b) (head_slot b sd p) []"

definition level_orders_upto ::
  "'s slab_ops \<Rightarrow> 's order_book \<Rightarrow> side \<Rightarrow> price_ticks \<Rightarrow> nat \<Rightarrow> order_node list option" where
  "level_orders_upto S b sd p limit = collect_upto S (bk_orders b) limit (head_slot b sd p) []"

fun level_rows ::
  "'s slab_ops \<Rightarrow> 's order_book \<Rightarrow> side \<Rightarrow> (price_ticks \<times> price_level) list \<Rightarrow>
   (side \<times> price_ticks \<times> order_node list) list option" where
  "level_rows S b sd [] = Some []"
| "level_rows S b sd ((p, _) # rest) = do {
     orders \<leftarrow> level_orders S b sd p;
     rows \<leftarrow> level_rows S b sd rest;
     Some ((sd, p, orders) # rows)
   }"

definition book_snapshot ::
  "'s slab_ops \<Rightarrow> 's order_book \<Rightarrow> (side \<times> price_ticks \<times> order_node list) list option" where
  "book_snapshot S b = do {
     bids \<leftarrow> level_rows S b Buy (levels_view b Buy);
     asks \<leftarrow> level_rows S b Sell (levels_view b Sell);
     Some (bids @ asks)
   }"

section \<open>The structural self check\<close>

datatype book_violation =
    EmptyLevel price_ticks | CountMismatch price_ticks | AggregateMismatch price_ticks
  | WrongLevel order_id | NoQuantity order_id | PriorityNotIncreasing price_ticks
  | MissingFromIndex order_id | LiveCountMismatch | CrossedBook price_ticks price_ticks

fun sum_remaining :: "order_node list \<Rightarrow> nat option" where
  "sum_remaining [] = Some 0"
| "sum_remaining (n # ns) = do {
     rest \<leftarrow> remaining n; total \<leftarrow> sum_remaining ns; Some (wrapping_add 64 rest total)
   }"

fun check_orders ::
  "'s slab_ops \<Rightarrow> 's order_book \<Rightarrow> side \<Rightarrow> price_ticks \<Rightarrow> nat option \<Rightarrow> order_node list \<Rightarrow>
   (book_violation + unit) option" where
  "check_orders S b sd p prio [] = Some (Inr ())"
| "check_orders S b sd p prio (n # ns) =
     (if o_side n \<noteq> sd \<or> o_price n \<noteq> p then Some (Inl (WrongLevel (o_id n)))
      else do {
        rest \<leftarrow> remaining n;
        if rest = 0 then Some (Inl (NoQuantity (o_id n)))
        else if (case prio of None \<Rightarrow> False | Some q \<Rightarrow> o_priority n \<le> q)
        then Some (Inl (PriorityNotIncreasing p))
        else
          (case bk_index b (o_id n) of
             None \<Rightarrow> Some (Inl (MissingFromIndex (o_id n)))
           | Some slot \<Rightarrow> do {
               m \<leftarrow> slab_get S (bk_orders b) slot;
               if o_id m = o_id n then check_orders S b sd p (Some (o_priority n)) ns
               else Some (Inl (MissingFromIndex (o_id n)))
             })
      })"

fun check_levels ::
  "'s slab_ops \<Rightarrow> 's order_book \<Rightarrow> side \<Rightarrow> (price_ticks \<times> price_level) list \<Rightarrow> nat \<Rightarrow>
   (book_violation + nat) option" where
  "check_levels S b sd [] seen = Some (Inr seen)"
| "check_levels S b sd ((p, level) # rest) seen =
     (if pl_count level = 0 then Some (Inl (EmptyLevel p))
      else do {
        orders \<leftarrow> level_orders S b sd p;
        if length orders \<noteq> pl_count level then Some (Inl (CountMismatch p))
        else do {
          total \<leftarrow> sum_remaining orders;
          if total \<noteq> pl_total level then Some (Inl (AggregateMismatch p))
          else try_else (check_orders S b sd p None orders)
            (\<lambda>_. check_levels S b sd rest (seen + length orders))
        }
      })"

definition check_invariants ::
  "'s slab_ops \<Rightarrow> 's order_book \<Rightarrow> (book_violation + unit) option" where
  "check_invariants S b =
     try_else (check_levels S b Buy (levels_view b Buy) 0) (\<lambda>seen.
     try_else (check_levels S b Sell (levels_view b Sell) seen) (\<lambda>seen'.
       if seen' \<noteq> slab_len S (bk_orders b) \<or> seen' \<noteq> card (dom (bk_index b))
       then Some (Inl LiveCountMismatch)
       else
         (case (best_bid b, best_ask b) of
            (Some (bid, _), Some (ask, _)) \<Rightarrow>
              if ask \<le> bid then Some (Inl (CrossedBook bid ask)) else Some (Inr ())
          | _ \<Rightarrow> Some (Inr ()))))"

end
