(* ===== verification/Book_Refine.thy ===== *)
theory Book_Refine
  imports Book
begin

text \<open>
  The indexed book implements a map from side and price to a FIFO queue of orders.

  \<open>book_rep S b Q\<close> relates a book to the slab keys \<open>Q sd p\<close> of each level in queue order: the keys
  are doubly linked in the slab (\<open>links\<close>), every occupied slab key is in the queue of its side and
  price (\<open>placed\<close>), the index finds exactly the stored orders (\<open>indexed\<close>), and the \<open>BTreeMap\<close> of each
  side holds a level for each non-empty queue with its head, tail, count and aggregate
  (\<open>levels_rep\<close>).  \<open>book_queue S b sd p\<close> is the queue itself, read with the code's own cursor loop.
  The lemmas of the locale say of every operation that it does not panic on a well-formed book,
  keeps it well-formed, and acts on the queues as the abstract operation does.
\<close>

section \<open>The contract of the slab crate\<close>

locale slab_store =
  fixes S :: "'s slab_ops"
  assumes get_new: "slab_get S (slab_new S n) = Map.empty"
    and get_insert: "slab_insert S s x = (k, s') \<Longrightarrow>
          slab_get S s k = None \<and> slab_get S s' = (slab_get S s)(k \<mapsto> x)"
    and get_set: "slab_get S s k = Some y \<Longrightarrow>
          slab_get S (slab_set S s k x) = (slab_get S s)(k \<mapsto> x)"
    and remove_occupied: "slab_get S s k = Some x \<Longrightarrow>
          \<exists>s'. slab_remove S s k = Some (x, s') \<and> slab_get S s' = (slab_get S s)(k := None)"
    and remove_vacant: "slab_get S s k = None \<Longrightarrow> slab_remove S s k = None"
    and finite_keys: "finite (dom (slab_get S s))"
    and len_card: "slab_len S s = card (dom (slab_get S s))"

section \<open>Queues in the slab\<close>

definition first_or :: "'a list \<Rightarrow> 'a option \<Rightarrow> 'a option" where
  "first_or xs d = (case xs of [] \<Rightarrow> d | x # _ \<Rightarrow> Some x)"

definition last_or :: "'a option \<Rightarrow> 'a list \<Rightarrow> 'a option" where
  "last_or d xs = (if xs = [] then d else Some (last xs))"

text \<open>\<open>dlseg h p ks n\<close>: the keys \<open>ks\<close> are linked in this order, with \<open>p\<close> before and \<open>n\<close> after.\<close>

fun dlseg :: "(nat \<rightharpoonup> order_node) \<Rightarrow> nat option \<Rightarrow> nat list \<Rightarrow> nat option \<Rightarrow> bool" where
  "dlseg h p [] n = True"
| "dlseg h p (k # ks) n =
     (\<exists>nd. h k = Some nd \<and> n_prev nd = p \<and> n_next nd = first_or ks n \<and> dlseg h (Some k) ks n)"

definition order_of :: "order_node \<Rightarrow> new_order" where
  "order_of n =
     \<lparr>o_id = o_id n, o_account = o_account n, o_client = o_client n, o_side = o_side n,
      o_price = o_price n, o_total = o_total n, o_filled = o_filled n, o_priority = o_priority n\<rparr>"

definition orders_of :: "(nat \<rightharpoonup> order_node) \<Rightarrow> nat \<rightharpoonup> new_order" where
  "orders_of h k = map_option order_of (h k)"

definition open_lots :: "'z new_order_scheme \<Rightarrow> nat" where
  "open_lots d = o_total d - o_filled d"

definition lots_of :: "new_order list \<Rightarrow> nat" where
  "lots_of os = (\<Sum>d\<leftarrow>os. open_lots d)"

type_synonym queues = "side \<Rightarrow> price_ticks \<Rightarrow> nat list"
type_synonym abook = "side \<Rightarrow> price_ticks \<Rightarrow> new_order list"

definition links :: "(nat \<rightharpoonup> order_node) \<Rightarrow> queues \<Rightarrow> bool" where
  "links h Q \<longleftrightarrow> (\<forall>sd p. distinct (Q sd p) \<and> dlseg h None (Q sd p) None)"

definition placed :: "(nat \<rightharpoonup> new_order) \<Rightarrow> queues \<Rightarrow> bool" where
  "placed g Q \<longleftrightarrow>
     (\<forall>sd p k. k \<in> set (Q sd p) \<longleftrightarrow> (\<exists>d. g k = Some d \<and> o_side d = sd \<and> o_price d = p))"

definition sound_orders :: "(nat \<rightharpoonup> new_order) \<Rightarrow> bool" where
  "sound_orders g \<longleftrightarrow> (\<forall>k d. g k = Some d \<longrightarrow> o_filled d \<le> o_total d \<and> o_total d < 2 ^ 64)"

definition indexed :: "(nat \<rightharpoonup> new_order) \<Rightarrow> (order_id \<rightharpoonup> nat) \<Rightarrow> bool" where
  "indexed g ix \<longleftrightarrow> (\<forall>oid k. ix oid = Some k \<longleftrightarrow> (\<exists>d. g k = Some d \<and> o_id d = oid))"

definition queue_lots :: "(nat \<rightharpoonup> new_order) \<Rightarrow> nat list \<Rightarrow> nat" where
  "queue_lots g ks = (\<Sum>k\<leftarrow>ks. open_lots (the (g k)))"

definition level_of :: "(nat \<rightharpoonup> new_order) \<Rightarrow> nat list \<Rightarrow> price_level option" where
  "level_of g ks =
     (if ks = [] then None
      else Some \<lparr>pl_head = Some (hd ks), pl_tail = Some (last ks), pl_count = length ks,
                 pl_total = queue_lots g ks\<rparr>)"

definition levels_rep ::
  "(nat \<rightharpoonup> new_order) \<Rightarrow> (price_ticks \<Rightarrow> nat list) \<Rightarrow> (price_ticks, price_level) btm \<Rightarrow> bool" where
  "levels_rep g q m \<longleftrightarrow>
     btm_ok m \<and>
     (\<forall>p. btm_get m p = level_of g (q p) \<and> length (q p) < 2 ^ 32 \<and> queue_lots g (q p) < 2 ^ 64)"

definition book_rep :: "'s slab_ops \<Rightarrow> 's order_book \<Rightarrow> queues \<Rightarrow> bool" where
  "book_rep S b Q \<longleftrightarrow>
     (let h = slab_get S (bk_orders b); g = orders_of h in
      links h Q \<and> placed g Q \<and> sound_orders g \<and> indexed g (bk_index b) \<and>
      (\<forall>sd. levels_rep g (Q sd) (bk_levels b sd)))"

definition book_ok :: "'s slab_ops \<Rightarrow> 's order_book \<Rightarrow> bool" where
  "book_ok S b \<longleftrightarrow> (\<exists>Q. book_rep S b Q)"

text \<open>The abstract view of a book: its queues, and the order resting under an id.\<close>

definition book_lookup :: "'s slab_ops \<Rightarrow> 's order_book \<Rightarrow> order_id \<Rightarrow> new_order option" where
  "book_lookup S b oid = do { slot \<leftarrow> bk_index b oid; orders_of (slab_get S (bk_orders b)) slot }"

definition book_queue :: "'s slab_ops \<Rightarrow> 's order_book \<Rightarrow> abook" where
  "book_queue S b sd p = map order_of (the (level_orders S b sd p))"

section \<open>Abstract operations\<close>

definition upd_queue :: "side \<Rightarrow> price_ticks \<Rightarrow> ('a list \<Rightarrow> 'a list) \<Rightarrow>
    (side \<Rightarrow> price_ticks \<Rightarrow> 'a list) \<Rightarrow> side \<Rightarrow> price_ticks \<Rightarrow> 'a list" where
  "upd_queue sd p f A = A(sd := (A sd)(p := f (A sd p)))"

definition upd_order :: "order_id \<Rightarrow> (new_order \<Rightarrow> new_order) \<Rightarrow> new_order list \<Rightarrow> new_order list" where
  "upd_order oid f os = map (\<lambda>d. if o_id d = oid then f d else d) os"

definition drop_order :: "order_id \<Rightarrow> new_order list \<Rightarrow> new_order list" where
  "drop_order oid os = filter (\<lambda>d. o_id d \<noteq> oid) os"

text \<open>The level \<open>unlink\<close> writes back is the level of the queue without the node.\<close>

definition unlinked_level :: "nat list \<Rightarrow> nat list \<Rightarrow> price_level \<Rightarrow> nat \<Rightarrow> price_level" where
  "unlinked_level xs ys level t =
     (let l1 = (if xs = [] then level\<lparr>pl_head := first_or ys None\<rparr> else level);
          l2 = (if ys = [] then l1\<lparr>pl_tail := last_or None xs\<rparr> else l1)
      in l2\<lparr>pl_count := pl_count l2 - 1, pl_total := t\<rparr>)"

section \<open>Segments\<close>

lemma first_or_simps [simp]:
  "first_or [] d = d" "first_or (x # xs) d = Some x"
  "xs \<noteq> [] \<Longrightarrow> first_or (xs @ ys) d = first_or xs d"
  by (auto simp: first_or_def split: list.splits)

lemma first_or_append: "first_or (xs @ ys) d = first_or xs (first_or ys d)"
  by (cases xs) simp_all

lemma last_or_simps [simp]:
  "last_or d [] = d" "last_or d (xs @ [x]) = Some x"
  by (auto simp: last_or_def)

lemma last_or_Cons [simp]: "last_or d (x # xs) = last_or (Some x) xs"
  by (simp add: last_or_def)

lemma last_or_append: "last_or d (xs @ ys) = last_or (last_or d xs) ys"
  by (simp add: last_or_def)

lemma first_or_ne: "xs \<noteq> [] \<Longrightarrow> first_or xs d = Some (hd xs)"
  by (cases xs) simp_all

lemma last_or_ne: "xs \<noteq> [] \<Longrightarrow> last_or d xs = Some (last xs)"
  by (simp add: last_or_def)

lemma dlseg_append:
  "dlseg h p (xs @ ys) n \<longleftrightarrow> dlseg h p xs (first_or ys n) \<and> dlseg h (last_or p xs) ys n"
proof (induction xs arbitrary: p)
  case (Cons x xs)
  then show ?case
    by (auto simp: first_or_append)
qed simp

lemma dlseg_outside: "k \<notin> set ks \<Longrightarrow> dlseg (h(k := v)) p ks n = dlseg h p ks n"
  by (induction ks arbitrary: p) auto

lemma dlseg_same_links:
  assumes "h k = Some nd" "n_prev nd' = n_prev nd" "n_next nd' = n_next nd"
  shows "dlseg (h(k \<mapsto> nd')) p ks n = dlseg h p ks n"
  using assms by (induction ks arbitrary: p) auto

lemma dlseg_set_next:
  assumes "dlseg h p (xs @ [k]) n" "h k = Some nd" "k \<notin> set xs"
  shows "dlseg (h(k \<mapsto> nd\<lparr>n_next := n'\<rparr>)) p (xs @ [k]) n'"
  using assms by (simp add: dlseg_append dlseg_outside)

lemma dlseg_set_prev:
  assumes "dlseg h p (k # ks) n" "h k = Some nd" "k \<notin> set ks"
  shows "dlseg (h(k \<mapsto> nd\<lparr>n_prev := p'\<rparr>)) p' (k # ks) n"
  using assms by (simp add: dlseg_outside)

lemma dlseg_mem: "dlseg h p ks n \<Longrightarrow> k \<in> set ks \<Longrightarrow> \<exists>nd. h k = Some nd"
  by (induction ks arbitrary: p) auto

lemma dlseg_cong: "(\<And>j. j \<in> set ks \<Longrightarrow> h j = h' j) \<Longrightarrow> dlseg h p ks n = dlseg h' p ks n"
  by (induction ks arbitrary: p) auto

section \<open>Payloads\<close>

lemma order_of_simps [simp]:
  "o_id (order_of n) = o_id n" "o_account (order_of n) = o_account n"
  "o_client (order_of n) = o_client n" "o_side (order_of n) = o_side n"
  "o_price (order_of n) = o_price n" "o_total (order_of n) = o_total n"
  "o_filled (order_of n) = o_filled n" "o_priority (order_of n) = o_priority n"
  by (simp_all add: order_of_def)

lemma order_of_links [simp]:
  "order_of (n\<lparr>n_next := x\<rparr>) = order_of n" "order_of (n\<lparr>n_prev := x\<rparr>) = order_of n"
  by (simp_all add: order_of_def)

lemma order_of_updates [simp]:
  "order_of (n\<lparr>o_total := t\<rparr>) = (order_of n)\<lparr>o_total := t\<rparr>"
  "order_of (n\<lparr>o_filled := t\<rparr>) = (order_of n)\<lparr>o_filled := t\<rparr>"
  by (simp_all add: order_of_def)

lemma order_of_node_of [simp]: "order_of (node_of d) = d"
  by (simp add: order_of_def node_of_def)

lemma node_of_links [simp]: "n_prev (node_of d) = None" "n_next (node_of d) = None"
  by (simp_all add: node_of_def)

lemma open_lots_order_of [simp]: "open_lots (order_of n) = open_lots n"
  by (simp add: open_lots_def)

lemma remaining_order_of: "remaining (order_of n) = remaining n"
  by (simp add: remaining_def)

lemma remaining_Some [simp]:
  "remaining d = Some r \<longleftrightarrow> o_filled d \<le> o_total d \<and> r = open_lots d"
  by (auto simp: remaining_def open_lots_def)

lemma orders_of_upd [simp]: "orders_of (h(k \<mapsto> n)) = (orders_of h)(k \<mapsto> order_of n)"
  by (auto simp: orders_of_def)

lemma orders_of_del [simp]: "orders_of (h(k := None)) = (orders_of h)(k := None)"
  by (auto simp: orders_of_def)

lemma orders_of_empty [simp]: "orders_of Map.empty = Map.empty"
  by (auto simp: orders_of_def)

lemma orders_of_Some: "orders_of h k = Some d \<longleftrightarrow> (\<exists>n. h k = Some n \<and> d = order_of n)"
  by (auto simp: orders_of_def)

lemma dom_orders_of [simp]: "dom (orders_of h) = dom h"
  by (auto simp: orders_of_def dom_def)

lemma queue_lots_simps [simp]:
  "queue_lots g [] = 0"
  "queue_lots g (k # ks) = open_lots (the (g k)) + queue_lots g ks"
  "queue_lots g (xs @ ys) = queue_lots g xs + queue_lots g ys"
  by (simp_all add: queue_lots_def)

lemma queue_lots_outside [simp]: "k \<notin> set ks \<Longrightarrow> queue_lots (g(k := v)) ks = queue_lots g ks"
  by (induction ks) auto

lemma level_of_outside [simp]: "k \<notin> set ks \<Longrightarrow> level_of (g(k := v)) ks = level_of g ks"
  by (simp add: level_of_def)

lemma level_of_None [simp]: "level_of g ks = None \<longleftrightarrow> ks = []"
  by (simp add: level_of_def)

lemma level_of_Nil [simp]: "level_of g [] = None"
  by (simp add: level_of_def)

lemma placed_unique:
  "placed g Q \<Longrightarrow> k \<in> set (Q sd p) \<Longrightarrow> k \<in> set (Q sd' p') \<Longrightarrow> sd = sd' \<and> p = p'"
  by (auto simp: placed_def)

lemma upd_queue_same [simp]: "upd_queue sd p f A sd p = f (A sd p)"
  by (simp add: upd_queue_def)

lemma upd_queue_apply:
  "upd_queue sd p f A sd' p' = (if sd' = sd \<and> p' = p then f (A sd p) else A sd' p')"
  by (simp add: upd_queue_def)

lemma bk_levels_simps [simp]:
  "bk_levels (set_levels sd m b) sd' = (if sd' = sd then m else bk_levels b sd')"
  "bk_levels (b\<lparr>bk_orders := s\<rparr>) sd' = bk_levels b sd'"
  "bk_levels (b\<lparr>bk_index := ix\<rparr>) sd' = bk_levels b sd'"
  by (cases sd; cases sd'; simp)+

lemma set_levels_simps [simp]:
  "bk_orders (set_levels sd m b) = bk_orders b"
  "bk_index (set_levels sd m b) = bk_index b"
  "bk_capacity (set_levels sd m b) = bk_capacity b"
  by (cases sd; simp)+

section \<open>Removing one order from the payload\<close>

lemma placed_remove:
  assumes "placed g Q" "g k = Some d" "distinct (Q (o_side d) (o_price d))"
  shows "placed (g(k := None)) (upd_queue (o_side d) (o_price d) (remove1 k) Q)"
  using assms unfolding placed_def by (auto simp: upd_queue_apply)

lemma indexed_remove:
  "indexed g ix \<Longrightarrow> g k = Some d \<Longrightarrow> indexed (g(k := None)) (ix(o_id d := None))"
  unfolding indexed_def by (auto split: if_splits) (metis option.inject)+

lemma sound_remove: "sound_orders g \<Longrightarrow> sound_orders (g(k := None))"
  by (auto simp: sound_orders_def)

lemma sound_node:
  assumes "sound_orders (orders_of h)" "h k = Some n"
  shows "o_filled n \<le> o_total n" "o_total n < 2 ^ 64"
  using assms by (auto simp: sound_orders_def orders_of_def dest: spec [of _ k])

lemma levels_rep_other:
  assumes "levels_rep g q m" "\<And>p. k \<notin> set (q p)"
  shows "levels_rep (g(k := v)) q m"
  using assms by (simp add: levels_rep_def)

lemma levels_rep_put:
  assumes rep: "levels_rep g q m" and out: "\<And>p'. p' \<noteq> p \<Longrightarrow> k \<notin> set (q p')"
    and lvl: "level_of (g(k := v)) ks = Some lvl"
    and bounds: "length ks < 2 ^ 32" "queue_lots (g(k := v)) ks < 2 ^ 64"
  shows "levels_rep (g(k := v)) (q(p := ks)) (btm_insert p lvl m)"
  using assms by (simp add: levels_rep_def btm_get_insert)

lemma levels_rep_del:
  assumes rep: "levels_rep g q m" and out: "\<And>p'. p' \<noteq> p \<Longrightarrow> k \<notin> set (q p')"
  shows "levels_rep (g(k := v)) (q(p := [])) (btm_remove p m)"
  using assms by (simp add: levels_rep_def btm_get_remove)

lemma queue_lots_upd:
  assumes "k \<in> set ks" "distinct ks" "g k = Some d"
  shows "queue_lots (g(k \<mapsto> d')) ks + open_lots d = queue_lots g ks + open_lots d'"
proof -
  obtain xs ys where "ks = xs @ k # ys" using assms(1) by (auto dest: split_list)
  then show ?thesis using assms by simp
qed

lemma placed_update:
  assumes "placed g Q" "g k = Some d" "o_side d' = o_side d" "o_price d' = o_price d"
  shows "placed (g(k \<mapsto> d')) Q"
  using assms unfolding placed_def by auto

lemma placed_insert:
  assumes "placed g Q" "g k = None"
  shows "placed (g(k \<mapsto> d)) (upd_queue (o_side d) (o_price d) (\<lambda>q. q @ [k]) Q)"
  using assms unfolding placed_def by (auto simp: upd_queue_apply)

lemma indexed_update:
  assumes "indexed g ix" "g k = Some d" "o_id d' = o_id d"
  shows "indexed (g(k \<mapsto> d')) ix"
  using assms unfolding indexed_def by auto

lemma indexed_insert:
  assumes "indexed g ix" "g k = None" "ix (o_id d) = None"
  shows "indexed (g(k \<mapsto> d)) (ix(o_id d \<mapsto> k))"
  using assms unfolding indexed_def by (auto split: if_splits) (metis option.distinct(1))+

lemma sound_update:
  "sound_orders g \<Longrightarrow> o_filled d \<le> o_total d \<Longrightarrow> o_total d < 2 ^ 64 \<Longrightarrow> sound_orders (g(k \<mapsto> d))"
  by (auto simp: sound_orders_def)

lemma level_of_total:
  assumes "level_of g ks = Some level"
  shows "level_of g' ks = Some (level\<lparr>pl_total := queue_lots g' ks\<rparr>)"
  using assms by (auto simp: level_of_def split: if_splits)

lemma level_of_snoc:
  assumes "level_of g ks = found" "k \<notin> set ks"
  shows "level_of (g(k \<mapsto> d)) (ks @ [k]) =
    (let level = (case found of None \<Rightarrow> empty_level | Some l \<Rightarrow> l);
         level' = (if ks = [] then level\<lparr>pl_head := Some k\<rparr> else level)
     in Some (level'\<lparr>pl_tail := Some k, pl_count := pl_count level' + 1,
                     pl_total := pl_total level' + open_lots d\<rparr>))"
  using assms by (auto simp: level_of_def empty_level_def Let_def)

lemma unlinked_level_of:
  assumes "level_of g (xs @ k # ys) = Some level" and "xs @ ys \<noteq> []" and "distinct (xs @ k # ys)"
  shows "level_of (g(k := v)) (xs @ ys) =
    Some (unlinked_level xs ys level (queue_lots g (xs @ ys)))"
  using assms
  by (cases xs; cases ys rule: rev_cases) (auto simp: level_of_def unlinked_level_def Let_def last_or_def
      first_or_ne split: if_splits)

lemma unlinked_level_count:
  "level_of g (xs @ k # ys) = Some level \<Longrightarrow>
   pl_count (unlinked_level xs ys level t) = length (xs @ ys)"
  by (auto simp: level_of_def unlinked_level_def Let_def split: if_splits)

section \<open>The operations on a well-formed book\<close>

context slab_store
begin

lemma slab_modify_ok:
  assumes "slab_get S s k = Some n"
  obtains s' where "slab_modify S s k f = Some s'" "slab_get S s' = (slab_get S s)(k \<mapsto> f n)"
  using assms get_set by (simp add: slab_modify_def)

lemma collect_from_dlseg:
  "dlseg (slab_get S s) p ks None \<Longrightarrow>
   collect_from S s (first_or ks None) out = Some (out @ map (the \<circ> slab_get S s) ks)"
proof (induction ks arbitrary: p out)
  case Nil
  show ?case by (simp add: collect_from.simps)
next
  case (Cons k ks)
  from Cons.prems obtain nd where nd: "slab_get S s k = Some nd" "n_next nd = first_or ks None"
    and seg: "dlseg (slab_get S s) (Some k) ks None"
    by auto
  have "collect_from S s (first_or (k # ks) None) out = collect_from S s (n_next nd) (out @ [nd])"
    by (subst collect_from.simps) (simp add: nd(1))
  also have "\<dots> = Some ((out @ [nd]) @ map (the \<circ> slab_get S s) ks)"
    unfolding nd(2) by (rule Cons.IH [OF seg])
  finally show ?case by (simp add: nd(1))
qed

lemma head_slot_rep: "book_rep S b Q \<Longrightarrow> head_slot b sd p = first_or (Q sd p) None"
  by (cases "Q sd p") (simp_all add: book_rep_def Let_def levels_rep_def head_slot_def level_of_def)

lemma level_orders_rep:
  assumes "book_rep S b Q"
  shows "level_orders S b sd p = Some (map (the \<circ> slab_get S (bk_orders b)) (Q sd p))"
proof -
  from assms have "dlseg (slab_get S (bk_orders b)) None (Q sd p) None"
    by (simp add: book_rep_def Let_def links_def)
  from collect_from_dlseg [OF this, of "[]"] show ?thesis
    by (simp add: level_orders_def head_slot_rep [OF assms])
qed

lemma book_queue_rep:
  assumes "book_rep S b Q"
  shows "book_queue S b sd p = map (the \<circ> orders_of (slab_get S (bk_orders b))) (Q sd p)"
proof -
  have "k \<in> set (Q sd p) \<Longrightarrow> \<exists>n. slab_get S (bk_orders b) k = Some n" for k
    using assms dlseg_mem by (fastforce simp: book_rep_def Let_def links_def)
  then show ?thesis
    by (fastforce simp: book_queue_def level_orders_rep [OF assms] orders_of_def)
qed

text \<open>The two halves of \<open>unlink\<close>: the predecessor (or the head) skips the node, then the successor
  (or the tail) points back over it.\<close>

lemma relink_prev:
  assumes seg: "dlseg h None (xs @ k # ys) None" and dist: "distinct (xs @ k # ys)"
    and s: "slab_get S s = h(k := None)"
  obtains s1 where
    "unlink_prev S s level (last_or None xs) (first_or ys None) =
       Some (s1, if xs = [] then level\<lparr>pl_head := first_or ys None\<rparr> else level)"
    "dlseg (slab_get S s1) None xs (first_or ys None)"
    "\<And>j. j \<notin> set xs \<Longrightarrow> slab_get S s1 j = slab_get S s j"
    "orders_of (slab_get S s1) = orders_of (slab_get S s)"
proof (cases xs rule: rev_cases)
  case Nil
  then show ?thesis using that [of s] by (simp add: unlink_prev_def)
next
  case (snoc xs' p)
  have "dlseg h None xs (Some k)" using seg by (simp add: dlseg_append)
  then have seg0: "dlseg (slab_get S s) None xs (Some k)"
    using dist by (simp add: s dlseg_outside)
  then obtain n where n: "slab_get S s p = Some n"
    by (auto simp: snoc dlseg_append)
  obtain s1 where s1: "slab_modify S s p (\<lambda>n. n\<lparr>n_next := first_or ys None\<rparr>) = Some s1"
    "slab_get S s1 = (slab_get S s)(p \<mapsto> n\<lparr>n_next := first_or ys None\<rparr>)"
    using slab_modify_ok [OF n] by blast
  have "orders_of (slab_get S s1) = orders_of (slab_get S s)"
    using n by (auto simp: s1 orders_of_def)
  moreover have "dlseg (slab_get S s1) None xs (first_or ys None)"
    using dlseg_set_next [OF seg0 [unfolded snoc] n] dist by (simp add: s1 snoc)
  ultimately show ?thesis using that [of s1] s1 by (simp add: snoc unlink_prev_def)
qed

lemma relink_next:
  assumes seg: "dlseg (slab_get S s) (Some k) ys None" and dist: "distinct ys"
  obtains s2 where
    "unlink_next S s level p (first_or ys None) =
       Some (s2, if ys = [] then level\<lparr>pl_tail := p\<rparr> else level)"
    "dlseg (slab_get S s2) p ys None"
    "\<And>j. j \<notin> set ys \<Longrightarrow> slab_get S s2 j = slab_get S s j"
    "orders_of (slab_get S s2) = orders_of (slab_get S s)"
proof (cases ys)
  case Nil
  then show ?thesis using that [of s] by (simp add: unlink_next_def)
next
  case (Cons x ys')
  then obtain n where n: "slab_get S s x = Some n" using seg by auto
  obtain s2 where s2: "slab_modify S s x (\<lambda>n. n\<lparr>n_prev := p\<rparr>) = Some s2"
    "slab_get S s2 = (slab_get S s)(x \<mapsto> n\<lparr>n_prev := p\<rparr>)"
    using slab_modify_ok [OF n] by blast
  have "orders_of (slab_get S s2) = orders_of (slab_get S s)"
    using n by (auto simp: s2 orders_of_def)
  moreover have "dlseg (slab_get S s2) p ys None"
    using dlseg_set_prev [OF seg [unfolded Cons] n] dist by (simp add: s2 Cons)
  ultimately show ?thesis using that [of s2] s2 by (simp add: Cons unlink_next_def)
qed

lemma book_repD:
  assumes "book_rep S b Q"
  shows "links (slab_get S (bk_orders b)) Q" "placed (orders_of (slab_get S (bk_orders b))) Q"
    "sound_orders (orders_of (slab_get S (bk_orders b)))"
    "indexed (orders_of (slab_get S (bk_orders b))) (bk_index b)"
    "levels_rep (orders_of (slab_get S (bk_orders b))) (Q sd) (bk_levels b sd)"
    "distinct (Q sd p)" "dlseg (slab_get S (bk_orders b)) None (Q sd p) None"
  using assms by (auto simp: book_rep_def Let_def links_def)

lemma rep_slot:
  assumes "book_rep S b Q" "slab_get S (bk_orders b) k = Some nd"
  shows "k \<in> set (Q sd p) \<longleftrightarrow> o_side nd = sd \<and> o_price nd = p"
  using book_repD(2) [OF assms(1)] assms(2)
  by (auto simp: placed_def orders_of_def)

lemma links_remove:
  assumes rep: "book_rep S b Q" and k: "slab_get S (bk_orders b) k = Some nd"
    and q: "Q (o_side nd) (o_price nd) = xs @ k # ys"
    and seg: "dlseg h None (xs @ ys) None"
    and out: "\<And>j. j \<notin> set (xs @ k # ys) \<Longrightarrow> h j = slab_get S (bk_orders b) j"
  shows "links h (upd_queue (o_side nd) (o_price nd) (remove1 k) Q)"
proof -
  have dist: "distinct (xs @ k # ys)"
    using book_repD(6) [OF rep, of "o_side nd" "o_price nd"] by (simp add: q)
  have frame: "dlseg h None (Q sd p) None" if "(sd, p) \<noteq> (o_side nd, o_price nd)" for sd p
  proof -
    have "h j = slab_get S (bk_orders b) j" if "j \<in> set (Q sd p)" for j
    proof (rule out)
      show "j \<notin> set (xs @ k # ys)"
        using that placed_unique [OF book_repD(2) [OF rep], of j sd p "o_side nd" "o_price nd"]
          \<open>(sd, p) \<noteq> (o_side nd, o_price nd)\<close> by (auto simp: q)
    qed
    then show ?thesis
      using book_repD(7) [OF rep, of sd p] dlseg_cong [of "Q sd p" h] by blast
  qed
  show ?thesis
    unfolding links_def
    using frame seg dist book_repD(6) [OF rep]
    by (auto simp: upd_queue_apply q remove1_append)
qed

lemma unlink_eval:
  assumes rep: "book_rep S b Q" and k: "slab_get S (bk_orders b) k = Some nd"
    and s: "slab_get S s = (slab_get S (bk_orders b))(k := None)"
    and q: "Q (o_side nd) (o_price nd) = xs @ k # ys"
    and level: "btm_get (bk_levels b (o_side nd)) (o_price nd) = Some level"
  obtains s' where
    "unlink S (b\<lparr>bk_index := ix, bk_orders := s\<rparr>) nd =
       Some (set_levels (o_side nd)
         (if xs @ ys = [] then btm_remove (o_price nd) (bk_levels b (o_side nd))
          else btm_insert (o_price nd)
            (unlinked_level xs ys level (pl_total level - open_lots nd)) (bk_levels b (o_side nd)))
         (b\<lparr>bk_index := ix, bk_orders := s'\<rparr>))"
    "dlseg (slab_get S s') None (xs @ ys) None"
    "\<And>j. j \<notin> set (xs @ k # ys) \<Longrightarrow> slab_get S s' j = slab_get S (bk_orders b) j"
    "orders_of (slab_get S s') = (orders_of (slab_get S (bk_orders b)))(k := None)"
proof -
  let ?h = "slab_get S (bk_orders b)"
  have dist: "distinct (xs @ k # ys)" and seg: "dlseg ?h None (xs @ k # ys) None"
    using book_repD(6,7) [OF rep, of "o_side nd" "o_price nd"] by (simp_all add: q)
  have nd: "n_prev nd = last_or None xs" "n_next nd = first_or ys None"
    using seg k by (auto simp: dlseg_append)
  have lvl: "level_of (orders_of ?h) (xs @ k # ys) = Some level"
    using book_repD(5) [OF rep, of "o_side nd"] level by (simp add: levels_rep_def flip: q)
  have fill: "o_filled nd \<le> o_total nd"
    using sound_node [OF book_repD(3) [OF rep] k] by simp
  have total: "open_lots nd \<le> pl_total level"
    using lvl k by (auto simp: level_of_def orders_of_def)
  obtain s1 where s1:
    "unlink_prev S s level (last_or None xs) (first_or ys None) =
       Some (s1, if xs = [] then level\<lparr>pl_head := first_or ys None\<rparr> else level)"
    "dlseg (slab_get S s1) None xs (first_or ys None)"
    "\<And>j. j \<notin> set xs \<Longrightarrow> slab_get S s1 j = slab_get S s j"
    "orders_of (slab_get S s1) = orders_of (slab_get S s)"
    using relink_prev [OF seg dist s, of level] by blast
  have "dlseg ?h (Some k) ys None" using seg by (auto simp: dlseg_append)
  moreover have "j \<in> set ys \<Longrightarrow> j \<noteq> k \<and> j \<notin> set xs" for j using dist by auto
  then have "j \<in> set ys \<Longrightarrow> slab_get S s1 j = ?h j" for j
    using s1(3) [of j] by (simp add: s)
  ultimately have seg1: "dlseg (slab_get S s1) (Some k) ys None"
    by (subst dlseg_cong)
  define l1 where "l1 = (if xs = [] then level\<lparr>pl_head := first_or ys None\<rparr> else level)"
  obtain s2 where s2:
    "unlink_next S s1 l1 (last_or None xs) (first_or ys None) =
       Some (s2, if ys = [] then l1\<lparr>pl_tail := last_or None xs\<rparr> else l1)"
    "dlseg (slab_get S s2) (last_or None xs) ys None"
    "\<And>j. j \<notin> set ys \<Longrightarrow> slab_get S s2 j = slab_get S s1 j"
    "orders_of (slab_get S s2) = orders_of (slab_get S s1)"
    using relink_next [OF seg1, of l1 "last_or None xs"] dist by auto
  define l2 where "l2 = (if ys = [] then l1\<lparr>pl_tail := last_or None xs\<rparr> else l1)"
  define l3 where "l3 = unlinked_level xs ys level (pl_total level - open_lots nd)"
  have l3: "l3 = l2\<lparr>pl_count := pl_count l2 - 1, pl_total := pl_total level - open_lots nd\<rparr>"
    by (simp add: l1_def l2_def l3_def unlinked_level_def Let_def)
  have "pl_count l3 = length (xs @ ys)"
    unfolding l3_def by (rule unlinked_level_count [OF lvl])
  then have l3_count: "pl_count l3 = 0 \<longleftrightarrow> xs @ ys = []" by simp
  have rest: "remaining nd = Some (open_lots nd)"
    "checked_sub (pl_total l2) (open_lots nd) = Some (pl_total level - open_lots nd)"
    using fill total by (simp_all add: l1_def l2_def)
  have "unlink S (b\<lparr>bk_index := ix, bk_orders := s\<rparr>) nd =
       Some (set_levels (o_side nd)
         (if pl_count l3 = 0 then btm_remove (o_price nd) (bk_levels b (o_side nd))
          else btm_insert (o_price nd) l3 (bk_levels b (o_side nd)))
         (b\<lparr>bk_index := ix, bk_orders := s2\<rparr>))"
    using level s1(1) s2(1) rest
    unfolding unlink_def nd l1_def [symmetric] l2_def [symmetric]
    by (simp add: Let_def l3 del: remaining_Some checked_sub_Some)
  then have "unlink S (b\<lparr>bk_index := ix, bk_orders := s\<rparr>) nd =
       Some (set_levels (o_side nd)
         (if xs @ ys = [] then btm_remove (o_price nd) (bk_levels b (o_side nd))
          else btm_insert (o_price nd) l3 (bk_levels b (o_side nd)))
         (b\<lparr>bk_index := ix, bk_orders := s2\<rparr>))"
    by (simp only: l3_count)
  moreover
  have "j \<in> set xs \<Longrightarrow> j \<notin> set ys" for j using dist by auto
  then have "dlseg (slab_get S s2) None xs (first_or ys None)"
    using s1(2) s2(3) by (subst dlseg_cong) auto
  then have "dlseg (slab_get S s2) None (xs @ ys) None"
    using s2(2) by (simp add: dlseg_append)
  moreover have "j \<notin> set (xs @ k # ys) \<Longrightarrow> slab_get S s2 j = ?h j" for j
    using s1(3) s2(3) by (simp add: s)
  moreover have "orders_of (slab_get S s2) = (orders_of ?h)(k := None)"
    by (simp add: s1 s2 s)
  ultimately show ?thesis
    using that [of s2] unfolding l3_def by blast
qed

lemma level_rep:
  assumes "book_rep S b Q" "Q sd p \<noteq> []"
  obtains level where "btm_get (bk_levels b sd) p = Some level"
    "level_of (orders_of (slab_get S (bk_orders b))) (Q sd p) = Some level"
  using book_repD(5) [OF assms(1), of sd] assms(2)
  by (auto simp: levels_rep_def level_of_def)

lemma unlink_ok:
  assumes rep: "book_rep S b Q" and k: "slab_get S (bk_orders b) k = Some nd"
    and s: "slab_get S s = (slab_get S (bk_orders b))(k := None)"
  obtains b' where
    "unlink S (b\<lparr>bk_index := (bk_index b)(o_id nd := None), bk_orders := s\<rparr>) nd = Some b'"
    "book_rep S b' (upd_queue (o_side nd) (o_price nd) (remove1 k) Q)"
    "orders_of (slab_get S (bk_orders b')) = (orders_of (slab_get S (bk_orders b)))(k := None)"
    "bk_capacity b' = bk_capacity b"
proof -
  let ?h = "slab_get S (bk_orders b)" and ?sd = "o_side nd" and ?p = "o_price nd"
  have g: "orders_of ?h k = Some (order_of nd)" by (simp add: orders_of_def k)
  have "k \<in> set (Q ?sd ?p)" using rep_slot [OF rep k] by simp
  then obtain xs ys where q: "Q ?sd ?p = xs @ k # ys" by (auto dest: split_list)
  obtain level where level: "btm_get (bk_levels b ?sd) ?p = Some level"
    "level_of (orders_of ?h) (xs @ k # ys) = Some level"
    using level_rep [OF rep, of ?sd ?p] by (auto simp: q)
  have dist: "distinct (xs @ k # ys)"
    using book_repD(6) [OF rep, of ?sd ?p] by (simp add: q)
  have q': "remove1 k (Q ?sd ?p) = xs @ ys" using dist by (simp add: q remove1_append)
  have total: "pl_total level - open_lots nd = queue_lots (orders_of ?h) (xs @ ys)"
    using level(2) g by (auto simp: level_of_def)
  obtain s' where s': "unlink S (b\<lparr>bk_index := (bk_index b)(o_id nd := None), bk_orders := s\<rparr>) nd =
       Some (set_levels ?sd
         (if xs @ ys = [] then btm_remove ?p (bk_levels b ?sd)
          else btm_insert ?p
            (unlinked_level xs ys level (pl_total level - open_lots nd)) (bk_levels b ?sd))
         (b\<lparr>bk_index := (bk_index b)(o_id nd := None), bk_orders := s'\<rparr>))"
    "dlseg (slab_get S s') None (xs @ ys) None"
    "\<And>j. j \<notin> set (xs @ k # ys) \<Longrightarrow> slab_get S s' j = ?h j"
    "orders_of (slab_get S s') = (orders_of ?h)(k := None)"
    using unlink_eval [OF rep k s q level(1), of "(bk_index b)(o_id nd := None)"] by blast
  have lr: "levels_rep (orders_of ?h) (Q sd) (bk_levels b sd)" for sd
    by (rule book_repD(5) [OF rep])
  have out: "k \<notin> set (Q sd p)" if "(sd, p) \<noteq> (?sd, ?p)" for sd p
    using rep_slot [OF rep k, of sd p] that by auto
  have lvl': "levels_rep ((orders_of ?h)(k := None)) ((Q ?sd)(?p := xs @ ys))
      (if xs @ ys = [] then btm_remove ?p (bk_levels b ?sd)
       else btm_insert ?p
            (unlinked_level xs ys level (pl_total level - open_lots nd)) (bk_levels b ?sd))"
  proof (cases "xs @ ys = []")
    case True
    then show ?thesis using levels_rep_del [OF lr out, of ?p] by simp
  next
    case False
    have "length (Q ?sd ?p) < 2 ^ 32 \<and> queue_lots (orders_of ?h) (Q ?sd ?p) < 2 ^ 64"
      using lr by (simp add: levels_rep_def)
    then show ?thesis
      using levels_rep_put [OF lr out unlinked_level_of [OF level(2) False dist]] False total dist
      by (auto simp: q)
  qed
  have "book_rep S (set_levels ?sd
         (if xs @ ys = [] then btm_remove ?p (bk_levels b ?sd)
          else btm_insert ?p
            (unlinked_level xs ys level (pl_total level - open_lots nd)) (bk_levels b ?sd))
         (b\<lparr>bk_index := (bk_index b)(o_id nd := None), bk_orders := s'\<rparr>))
       (upd_queue ?sd ?p (remove1 k) Q)"
    unfolding book_rep_def Let_def
    using links_remove [OF rep k q s'(2,3)]
      placed_remove [OF book_repD(2) [OF rep] g] book_repD(6) [OF rep]
      sound_remove [OF book_repD(3) [OF rep], of k] indexed_remove [OF book_repD(4) [OF rep] g]
      lvl' levels_rep_other [OF lr out]
    by (auto simp: s'(4) upd_queue_def q')
  with s' show ?thesis using that by simp
qed

end

end
