(* ===== verification/Book_Contract.thy ===== *)
theory Book_Contract
  imports Book_Refine
begin

text \<open>
  What every operation of the indexed book does to its abstract view: the queues \<open>book_queue\<close> and the
  lookup \<open>book_lookup\<close>.  On a well-formed book no operation panics, each keeps it well-formed, and
  each error branch of \<open>insert\<close> leaves it as it was.
\<close>

section \<open>Prices in priority order\<close>

text \<open>The non-empty levels of one side, best price first.\<close>

fun ladder :: "(side \<Rightarrow> price_ticks \<Rightarrow> 'a list) \<Rightarrow> side \<Rightarrow> price_ticks list" where
  "ladder A Buy = rev (sorted_list_of_set {p. A Buy p \<noteq> []})"
| "ladder A Sell = sorted_list_of_set {p. A Sell p \<noteq> []}"

text \<open>A resting order at price \<open>p\<close> may trade with an incoming order limited to \<open>l\<close>.\<close>

fun eligible :: "side \<Rightarrow> price_ticks \<Rightarrow> price_ticks \<Rightarrow> bool" where
  "eligible Buy l p \<longleftrightarrow> l \<le> p"
| "eligible Sell l p \<longleftrightarrow> p \<le> l"

section \<open>Generic lemmas\<close>

lemma option_eqI: "(\<And>d. m = Some d \<longleftrightarrow> m' = Some d) \<Longrightarrow> m = m'"
  by (cases m; cases m') auto

lemma drop_order_map:
  assumes "distinct ks" "\<And>j. j \<in> set ks \<Longrightarrow> o_id (f j) = oid \<longleftrightarrow> j = k"
  shows "drop_order oid (map f ks) = map f (remove1 k ks)"
proof -
  have "filter (\<lambda>j. o_id (f j) \<noteq> oid) ks = filter (\<lambda>j. k \<noteq> j) ks"
    by (rule filter_cong) (auto simp: assms(2))
  then show ?thesis
    using assms(1)
    by (simp add: drop_order_def distinct_remove1_removeAll removeAll_filter_not_eq filter_map o_def)
qed

lemma btm_keys_sorted:
  assumes "btm_ok m"
  shows "map fst m = sorted_list_of_set {k. btm_get m k \<noteq> None}"
proof -
  have "{k. btm_get m k \<noteq> None} = set (map fst m)"
    unfolding btm_get_dom by simp
  moreover have "sorted_list_of_set (set (map fst m)) = map fst m"
    using assms sorted_list_of_set.idem_if_sorted_distinct
    by (metis btm_ok_def strict_sorted_iff)
  ultimately show ?thesis by simp
qed

lemma upd_order_map:
  assumes "\<And>j. j \<in> set ks \<Longrightarrow> o_id (f j) = oid \<longleftrightarrow> j = k"
  shows "upd_order oid (\<lambda>_. d) (map f ks) = map (f(k := d)) ks"
  using assms by (auto simp: upd_order_def)

context slab_store
begin

section \<open>The abstract view through the representation\<close>

lemma lookup_rep:
  assumes "book_rep S b Q"
  shows "book_lookup S b oid = Some d \<longleftrightarrow>
    (\<exists>k. orders_of (slab_get S (bk_orders b)) k = Some d \<and> o_id d = oid)"
  using book_repD(4) [OF assms] unfolding indexed_def book_lookup_def
  by (auto simp: Option.bind_eq_Some_conv)

lemma lookup_ids:
  assumes "book_rep S b Q" "orders_of (slab_get S (bk_orders b)) k = Some d"
    "orders_of (slab_get S (bk_orders b)) j = Some e" "o_id d = o_id e"
  shows "k = j"
  using book_repD(4) [OF assms(1)] assms(2-4) unfolding indexed_def by (metis option.inject)

lemma index_rep:
  assumes "book_rep S b Q" "bk_index b oid = Some k"
  obtains nd where "slab_get S (bk_orders b) k = Some nd" "o_id nd = oid"
    "book_lookup S b oid = Some (order_of nd)"
proof -
  from assms obtain d where d: "orders_of (slab_get S (bk_orders b)) k = Some d" "o_id d = oid"
    using book_repD(4) [OF assms(1)] unfolding indexed_def by blast
  then obtain nd where "slab_get S (bk_orders b) k = Some nd" "d = order_of nd"
    by (auto simp: orders_of_Some)
  with d that assms(2) show ?thesis by (simp add: book_lookup_def)
qed

lemma index_None: "book_rep S b Q \<Longrightarrow> bk_index b oid = None \<longleftrightarrow> book_lookup S b oid = None"
  by (metis index_rep book_lookup_def bind.bind_lunit option.distinct(1) not_Some_eq Option.bind.simps(1))

lemma queue_mem:
  assumes "book_rep S b Q"
  shows "d \<in> set (book_queue S b sd p) \<longleftrightarrow>
    book_lookup S b (o_id d) = Some d \<and> o_side d = sd \<and> o_price d = p"
proof -
  have "d \<in> set (book_queue S b sd p) \<longleftrightarrow>
      (\<exists>k \<in> set (Q sd p). orders_of (slab_get S (bk_orders b)) k = Some d)"
    using book_repD(2) [OF assms] by (force simp: book_queue_rep [OF assms] placed_def)
  also have "\<dots> \<longleftrightarrow> (\<exists>k. orders_of (slab_get S (bk_orders b)) k = Some d) \<and> o_side d = sd \<and> o_price d = p"
    using book_repD(2) [OF assms] by (auto simp: placed_def)
  finally show ?thesis by (simp add: lookup_rep [OF assms])
qed

lemma view_ids:
  assumes rep: "book_rep S b Q" and k: "orders_of (slab_get S (bk_orders b)) k = Some d"
    and j: "j \<in> set (Q sd p)"
  shows "o_id (the (orders_of (slab_get S (bk_orders b)) j)) = o_id d \<longleftrightarrow> j = k"
proof -
  obtain e where e: "orders_of (slab_get S (bk_orders b)) j = Some e"
    using j book_repD(2) [OF rep] by (auto simp: placed_def)
  show ?thesis using lookup_ids [OF rep k e] k e by auto
qed

lemma view_remove:
  assumes rep: "book_rep S b Q" and k: "orders_of (slab_get S (bk_orders b)) k = Some d"
    and rep': "book_rep S b' (upd_queue (o_side d) (o_price d) (remove1 k) Q)"
    and g': "orders_of (slab_get S (bk_orders b')) = (orders_of (slab_get S (bk_orders b)))(k := None)"
  shows "book_lookup S b' = (book_lookup S b)(o_id d := None)"
    and "book_queue S b' = upd_queue (o_side d) (o_price d) (drop_order (o_id d)) (book_queue S b)"
proof -
  show "book_lookup S b' = (book_lookup S b)(o_id d := None)"
  proof (intro ext option_eqI)
    fix oid e
    have "book_lookup S b' oid = Some e \<longleftrightarrow>
        (\<exists>j. j \<noteq> k \<and> orders_of (slab_get S (bk_orders b)) j = Some e) \<and> o_id e = oid"
      by (auto simp: lookup_rep [OF rep'] g' split: if_splits)
    also have "\<dots> \<longleftrightarrow> oid \<noteq> o_id d \<and> book_lookup S b oid = Some e"
      unfolding lookup_rep [OF rep] using lookup_ids [OF rep k] k by (metis option.inject)
    finally show "book_lookup S b' oid = Some e \<longleftrightarrow>
        ((book_lookup S b)(o_id d := None)) oid = Some e" by simp
  qed
  have out: "k \<in> set (Q sd p) \<longleftrightarrow> o_side d = sd \<and> o_price d = p" for sd p
    using book_repD(2) [OF rep] k by (auto simp: placed_def)
  have "map (the \<circ> (orders_of (slab_get S (bk_orders b)))(k := None)) (remove1 k (Q sd p)) =
      map (the \<circ> orders_of (slab_get S (bk_orders b))) (remove1 k (Q sd p))" for sd p
    using book_repD(6) [OF rep, of sd p] by simp
  moreover have "drop_order (o_id d) (map (the \<circ> orders_of (slab_get S (bk_orders b))) (Q sd p)) =
      map (the \<circ> orders_of (slab_get S (bk_orders b))) (remove1 k (Q sd p))" for sd p
    using book_repD(6) [OF rep] view_ids [OF rep k] by (intro drop_order_map) auto
  ultimately
  show "book_queue S b' = upd_queue (o_side d) (o_price d) (drop_order (o_id d)) (book_queue S b)"
    using out by (intro ext) (auto simp: book_queue_rep [OF rep'] book_queue_rep [OF rep] g' upd_queue_apply)
qed

lemma view_update:
  assumes rep: "book_rep S b Q" and k: "orders_of (slab_get S (bk_orders b)) k = Some d"
    and rep': "book_rep S b' Q"
    and g': "orders_of (slab_get S (bk_orders b')) = (orders_of (slab_get S (bk_orders b)))(k \<mapsto> d')"
    and id: "o_id d' = o_id d"
  shows "book_lookup S b' = (book_lookup S b)(o_id d \<mapsto> d')"
    and "book_queue S b' =
      upd_queue (o_side d) (o_price d) (upd_order (o_id d) (\<lambda>_. d')) (book_queue S b)"
proof -
  show "book_lookup S b' = (book_lookup S b)(o_id d \<mapsto> d')"
  proof (intro ext option_eqI)
    fix oid e
    have "book_lookup S b' oid = Some e \<longleftrightarrow>
        (e = d' \<or> (\<exists>j. j \<noteq> k \<and> orders_of (slab_get S (bk_orders b)) j = Some e)) \<and> o_id e = oid"
      by (auto simp: lookup_rep [OF rep'] g' split: if_splits)
    also have "\<dots> \<longleftrightarrow> (if oid = o_id d then e = d' else book_lookup S b oid = Some e)"
      unfolding lookup_rep [OF rep] using lookup_ids [OF rep k] k id by (metis option.inject)
    finally show "book_lookup S b' oid = Some e \<longleftrightarrow>
        ((book_lookup S b)(o_id d \<mapsto> d')) oid = Some e" by auto
  qed
  have out: "k \<in> set (Q sd p) \<longleftrightarrow> o_side d = sd \<and> o_price d = p" for sd p
    using book_repD(2) [OF rep] k by (auto simp: placed_def)
  have "the \<circ> (orders_of (slab_get S (bk_orders b)))(k \<mapsto> d') =
      (the \<circ> orders_of (slab_get S (bk_orders b)))(k := d')" by auto
  moreover have "upd_order (o_id d) (\<lambda>_. d') (map (the \<circ> orders_of (slab_get S (bk_orders b))) (Q sd p)) =
      map ((the \<circ> orders_of (slab_get S (bk_orders b)))(k := d')) (Q sd p)" for sd p
    using view_ids [OF rep k] by (intro upd_order_map) auto
  ultimately
  show "book_queue S b' =
      upd_queue (o_side d) (o_price d) (upd_order (o_id d) (\<lambda>_. d')) (book_queue S b)"
    using out by (intro ext) (auto simp: book_queue_rep [OF rep'] book_queue_rep [OF rep] g' upd_queue_apply)
qed

lemma view_insert:
  assumes rep: "book_rep S b Q" and k: "orders_of (slab_get S (bk_orders b)) k = None"
    and rep': "book_rep S b' (upd_queue (o_side d) (o_price d) (\<lambda>q. q @ [k]) Q)"
    and g': "orders_of (slab_get S (bk_orders b')) = (orders_of (slab_get S (bk_orders b)))(k \<mapsto> d)"
    and new: "book_lookup S b (o_id d) = None"
  shows "book_lookup S b' = (book_lookup S b)(o_id d \<mapsto> d)"
    and "book_queue S b' = upd_queue (o_side d) (o_price d) (\<lambda>q. q @ [d]) (book_queue S b)"
proof -
  show "book_lookup S b' = (book_lookup S b)(o_id d \<mapsto> d)"
  proof (intro ext option_eqI)
    fix oid e
    have "book_lookup S b' oid = Some e \<longleftrightarrow>
        (e = d \<or> (\<exists>j. j \<noteq> k \<and> orders_of (slab_get S (bk_orders b)) j = Some e)) \<and> o_id e = oid"
      by (auto simp: lookup_rep [OF rep'] g' split: if_splits)
    also have "\<dots> \<longleftrightarrow> (if oid = o_id d then e = d else book_lookup S b oid = Some e)"
      using new k lookup_rep [OF rep] by (metis option.distinct(1))
    finally show "book_lookup S b' oid = Some e \<longleftrightarrow>
        ((book_lookup S b)(o_id d \<mapsto> d)) oid = Some e" by auto
  qed
  have "k \<notin> set (Q sd p)" for sd p
    using book_repD(2) [OF rep] k by (auto simp: placed_def)
  then show "book_queue S b' = upd_queue (o_side d) (o_price d) (\<lambda>q. q @ [d]) (book_queue S b)"
    by (intro ext) (auto simp: book_queue_rep [OF rep'] book_queue_rep [OF rep] g' upd_queue_apply)
qed

section \<open>Changing an order in place\<close>

lemma rep_update:
  assumes rep: "book_rep S b Q" and k: "slab_get S (bk_orders b) k = Some nd"
    and keep: "o_id nd' = o_id nd" "o_side nd' = o_side nd" "o_price nd' = o_price nd"
      "n_prev nd' = n_prev nd" "n_next nd' = n_next nd"
    and sound: "o_filled nd' \<le> o_total nd'" "o_total nd' < 2 ^ 64"
    and s: "slab_get S s = (slab_get S (bk_orders b))(k \<mapsto> nd')"
    and level: "btm_get (bk_levels b (o_side nd)) (o_price nd) = Some level"
    and t: "t + open_lots nd = pl_total level + open_lots nd'" "t < 2 ^ 64"
  shows "book_rep S (set_levels (o_side nd)
      (btm_insert (o_price nd) (level\<lparr>pl_total := t\<rparr>) (bk_levels b (o_side nd)))
      (b\<lparr>bk_orders := s\<rparr>)) Q"
proof -
  let ?h = "slab_get S (bk_orders b)" and ?sd = "o_side nd" and ?p = "o_price nd"
  let ?g = "orders_of ?h" and ?g' = "(orders_of ?h)(k \<mapsto> order_of nd')"
  have g: "?g k = Some (order_of nd)" by (simp add: orders_of_def k)
  have lr: "levels_rep ?g (Q sd) (bk_levels b sd)" for sd
    by (rule book_repD(5) [OF rep])
  have lvl: "level_of ?g (Q ?sd ?p) = Some level"
    using lr [of ?sd] level by (simp add: levels_rep_def)
  have out: "k \<notin> set (Q sd p)" if "(sd, p) \<noteq> (?sd, ?p)" for sd p
    using rep_slot [OF rep k, of sd p] that by auto
  have "queue_lots ?g' (Q ?sd ?p) + open_lots nd = queue_lots ?g (Q ?sd ?p) + open_lots nd'"
    using queue_lots_upd [of k "Q ?sd ?p" ?g "order_of nd" "order_of nd'"] g
      book_repD(6) [OF rep] rep_slot [OF rep k] by simp
  moreover have "pl_total level = queue_lots ?g (Q ?sd ?p)"
    using lvl by (auto simp: level_of_def split: if_splits)
  ultimately have tq: "queue_lots ?g' (Q ?sd ?p) = t" using t(1) by simp
  have lvl': "level_of ?g' (Q ?sd ?p) = Some (level\<lparr>pl_total := t\<rparr>)"
    using level_of_total [OF lvl, of ?g'] by (simp only: tq)
  have "length (Q ?sd ?p) < 2 ^ 32" using lr by (simp add: levels_rep_def)
  then have "levels_rep ?g' ((Q ?sd)(?p := Q ?sd ?p))
      (btm_insert ?p (level\<lparr>pl_total := t\<rparr>) (bk_levels b ?sd))"
    using levels_rep_put [OF lr [of ?sd] out lvl', of ?p] tq t(2) by simp
  moreover have "levels_rep ?g' (Q sd) (bk_levels b sd)" if "sd \<noteq> ?sd" for sd
    using that levels_rep_other [OF lr out] by simp
  moreover have "links (?h(k \<mapsto> nd')) Q"
    using book_repD(1) [OF rep] dlseg_same_links [of ?h k nd nd'] k keep(4,5) by (simp add: links_def)
  moreover have "placed ?g' Q"
    using placed_update [OF book_repD(2) [OF rep] g] keep by simp
  moreover have "sound_orders ?g'"
    using sound_update [OF book_repD(3) [OF rep]] sound by simp
  moreover have "indexed ?g' (bk_index b)"
    using indexed_update [OF book_repD(4) [OF rep] g] keep by simp
  ultimately show ?thesis
    unfolding book_rep_def Let_def by (simp add: s)
qed

lemma level_total_bound:
  assumes rep: "book_rep S b Q" and k: "slab_get S (bk_orders b) k = Some nd"
    and level: "btm_get (bk_levels b (o_side nd)) (o_price nd) = Some level"
  shows "open_lots nd \<le> pl_total level" "pl_total level < 2 ^ 64"
proof -
  let ?g = "orders_of (slab_get S (bk_orders b))" and ?q = "Q (o_side nd) (o_price nd)"
  have "level_of ?g ?q = Some level" "queue_lots ?g ?q < 2 ^ 64"
    using book_repD(5) [OF rep, of "o_side nd"] level by (simp_all add: levels_rep_def)
  then have tot: "pl_total level = queue_lots ?g ?q"
    by (auto simp: level_of_def split: if_splits)
  then show "pl_total level < 2 ^ 64" using \<open>queue_lots ?g ?q < 2 ^ 64\<close> by simp
  obtain xs ys where "?q = xs @ k # ys"
    using rep_slot [OF rep k, of "o_side nd" "o_price nd"] by (auto dest: split_list)
  then show "open_lots nd \<le> pl_total level" by (simp add: tot orders_of_def k)
qed

lemma level_node:
  assumes rep: "book_rep S b Q" and k: "slab_get S (bk_orders b) k = Some nd"
  obtains level where "btm_get (bk_levels b (o_side nd)) (o_price nd) = Some level"
    "open_lots nd \<le> pl_total level" "pl_total level < 2 ^ 64"
proof -
  have "Q (o_side nd) (o_price nd) \<noteq> []"
    using rep_slot [OF rep k, of "o_side nd" "o_price nd"] by auto
  then obtain level where "btm_get (bk_levels b (o_side nd)) (o_price nd) = Some level"
    using level_rep [OF rep] by metis
  with that level_total_bound [OF rep k] show ?thesis by blast
qed

section \<open>The operations\<close>

lemma book_remove_ok:
  assumes rep: "book_rep S b Q" and d: "book_lookup S b oid = Some d"
  obtains nd b' where "book_remove S b oid = Some (Some nd, b')" "order_of nd = d" "book_ok S b'"
    "book_lookup S b' = (book_lookup S b)(oid := None)"
    "book_queue S b' = upd_queue (o_side d) (o_price d) (drop_order oid) (book_queue S b)"
    "bk_capacity b' = bk_capacity b"
proof -
  obtain k where ix: "bk_index b oid = Some k"
    using d by (auto simp: book_lookup_def Option.bind_eq_Some_conv)
  then obtain nd where nd: "slab_get S (bk_orders b) k = Some nd" "o_id nd = oid" "d = order_of nd"
    using index_rep [OF rep ix] d by auto
  obtain s where s: "slab_remove S (bk_orders b) k = Some (nd, s)"
    "slab_get S s = (slab_get S (bk_orders b))(k := None)"
    using remove_occupied [OF nd(1)] by blast
  obtain b' where b': "unlink S (b\<lparr>bk_index := (bk_index b)(o_id nd := None), bk_orders := s\<rparr>) nd = Some b'"
    "book_rep S b' (upd_queue (o_side nd) (o_price nd) (remove1 k) Q)"
    "orders_of (slab_get S (bk_orders b')) = (orders_of (slab_get S (bk_orders b)))(k := None)"
    "bk_capacity b' = bk_capacity b"
    using unlink_ok [OF rep nd(1) s(2)] by blast
  have g: "orders_of (slab_get S (bk_orders b)) k = Some d" by (simp add: orders_of_def nd)
  have "book_remove S b oid = Some (Some nd, b')"
    using b'(1) by (simp add: book_remove_def ix s nd(2))
  moreover have "book_ok S b'" using b'(2) by (auto simp: book_ok_def)
  ultimately show ?thesis
    using that [of nd b'] view_remove [OF rep g, of b'] b' nd(2,3) by simp
qed

lemma book_remove_absent:
  "book_rep S b Q \<Longrightarrow> book_lookup S b oid = None \<Longrightarrow> book_remove S b oid = Some (None, b)"
  by (simp add: book_remove_def flip: index_None)

lemma book_get_ok:
  assumes rep: "book_rep S b Q"
  shows "\<exists>r. book_get S b oid = Some r \<and> map_option order_of r = book_lookup S b oid"
proof (cases "bk_index b oid")
  case None
  then show ?thesis by (simp add: book_get_def book_lookup_def)
next
  case (Some k)
  show ?thesis by (rule index_rep [OF rep Some]) (simp add: book_get_def Some)
qed

lemma reduce_total_ok:
  assumes rep: "book_rep S b Q" and d: "book_lookup S b oid = Some d"
    and n: "o_filled d \<le> n" "n \<le> o_total d"
  obtains b' where "reduce_total S b oid n = Some b'" "book_ok S b'"
    "book_lookup S b' = (book_lookup S b)(oid \<mapsto> d\<lparr>o_total := n\<rparr>)"
    "book_queue S b' =
       upd_queue (o_side d) (o_price d) (upd_order oid (\<lambda>_. d\<lparr>o_total := n\<rparr>)) (book_queue S b)"
    "bk_capacity b' = bk_capacity b"
proof -
  obtain k where ix: "bk_index b oid = Some k"
    using d by (auto simp: book_lookup_def Option.bind_eq_Some_conv)
  then obtain nd where nd: "slab_get S (bk_orders b) k = Some nd" "o_id nd = oid" "d = order_of nd"
    using index_rep [OF rep ix] d by auto
  let ?nd = "nd\<lparr>o_total := n\<rparr>" and ?sd = "o_side nd" and ?p = "o_price nd"
  have sound: "o_filled nd \<le> o_total nd" "o_total nd < 2 ^ 64"
    using sound_node [OF book_repD(3) [OF rep] nd(1)] by simp_all
  obtain level where level: "btm_get (bk_levels b ?sd) ?p = Some level"
    "open_lots nd \<le> pl_total level" "pl_total level < 2 ^ 64"
    by (rule level_node [OF rep nd(1)])
  define t where "t = pl_total level - open_lots nd + open_lots ?nd"
  have t: "t + open_lots nd = pl_total level + open_lots ?nd" "t < 2 ^ 64"
    using level n nd(3) sound by (simp_all add: t_def open_lots_def)
  define b' where "b' = set_levels ?sd
      (btm_insert ?p (level\<lparr>pl_total := t\<rparr>) (bk_levels b ?sd))
      (b\<lparr>bk_orders := slab_set S (bk_orders b) k ?nd\<rparr>)"
  have s: "slab_get S (slab_set S (bk_orders b) k ?nd) = (slab_get S (bk_orders b))(k \<mapsto> ?nd)"
    by (rule get_set [OF nd(1)])
  have rep': "book_rep S b' Q"
    unfolding b'_def using n nd(3) sound
    by (intro rep_update [OF rep nd(1) _ _ _ _ _ _ _ s level(1) t]) auto
  have rest: "remaining nd = Some (open_lots nd)" "remaining ?nd = Some (open_lots ?nd)"
    "checked_sub (pl_total level) (open_lots nd) = Some (pl_total level - open_lots nd)"
    "checked_add 64 (pl_total level - open_lots nd) (open_lots ?nd) = Some t"
    using n nd(3) sound level t(2) by (simp_all add: t_def)
  have "reduce_total S b oid n = Some b'"
    using ix nd(1) level(1) rest
    by (simp add: reduce_total_def Let_def b'_def del: remaining_Some checked_sub_Some checked_add_Some)
  moreover have "orders_of (slab_get S (bk_orders b')) =
      (orders_of (slab_get S (bk_orders b)))(k \<mapsto> d\<lparr>o_total := n\<rparr>)"
    by (simp add: b'_def s nd(3))
  moreover have "orders_of (slab_get S (bk_orders b)) k = Some d" by (simp add: orders_of_def nd)
  ultimately show ?thesis
    using that [of b'] view_update [OF rep _ rep', of k d "d\<lparr>o_total := n\<rparr>"] rep' nd(2,3)
    by (auto simp: book_ok_def b'_def)
qed

text \<open>A partial fill changes the maker in place; a complete one removes it.\<close>

lemma fill_maker_ok:
  assumes rep: "book_rep S b Q" and k: "slab_get S (bk_orders b) k = Some nd"
    and q: "q \<le> open_lots nd"
  obtains b' where
    "fill_maker S b k q = Some (nd\<lparr>o_filled := o_filled nd + q\<rparr>, b')" "book_ok S b'"
    "book_lookup S b' = (book_lookup S b)(o_id nd :=
       if q = open_lots nd then None else Some ((order_of nd)\<lparr>o_filled := o_filled nd + q\<rparr>))"
    "book_queue S b' = upd_queue (o_side nd) (o_price nd)
       (if q = open_lots nd then drop_order (o_id nd)
        else upd_order (o_id nd) (\<lambda>_. (order_of nd)\<lparr>o_filled := o_filled nd + q\<rparr>))
       (book_queue S b)"
    "bk_capacity b' = bk_capacity b"
proof -
  let ?nd = "nd\<lparr>o_filled := o_filled nd + q\<rparr>" and ?sd = "o_side nd" and ?p = "o_price nd"
  have sound: "o_filled nd \<le> o_total nd" "o_total nd < 2 ^ 64"
    using sound_node [OF book_repD(3) [OF rep] k] by simp_all
  obtain level where level: "btm_get (bk_levels b ?sd) ?p = Some level"
    "open_lots nd \<le> pl_total level" "pl_total level < 2 ^ 64"
    by (rule level_node [OF rep k])
  define b1 where "b1 = set_levels ?sd
      (btm_insert ?p (level\<lparr>pl_total := pl_total level - q\<rparr>) (bk_levels b ?sd))
      (b\<lparr>bk_orders := slab_set S (bk_orders b) k ?nd\<rparr>)"
  have s: "slab_get S (slab_set S (bk_orders b) k ?nd) = (slab_get S (bk_orders b))(k \<mapsto> ?nd)"
    by (rule get_set [OF k])
  have g: "orders_of (slab_get S (bk_orders b)) k = Some (order_of nd)" by (simp add: orders_of_def k)
  have t: "pl_total level - q + open_lots nd = pl_total level + open_lots ?nd"
    "pl_total level - q < 2 ^ 64"
    using level q by (simp_all add: open_lots_def)
  have rep1: "book_rep S b1 Q"
    unfolding b1_def using q sound
    by (intro rep_update [OF rep k _ _ _ _ _ _ _ s level(1) t]) (auto simp: open_lots_def)
  have g1: "orders_of (slab_get S (bk_orders b1)) =
      (orders_of (slab_get S (bk_orders b)))(k \<mapsto> order_of ?nd)"
    by (simp add: b1_def s)
  have k1: "slab_get S (bk_orders b1) k = Some ?nd" by (simp add: b1_def s)
  have lots: "open_lots ?nd = 0 \<longleftrightarrow> q = open_lots nd"
    using q by (auto simp: open_lots_def)
  have step: "checked_add 64 (o_filled nd) q = Some (o_filled nd + q)"
    "remaining ?nd = Some (open_lots ?nd)"
    "checked_sub (pl_total level) q = Some (pl_total level - q)"
    using q sound level by (auto simp: open_lots_def)
  note view1 = view_update [OF rep g rep1 g1]
  show ?thesis
  proof (cases "q = open_lots nd")
    case False
    then have "fill_maker S b k q = Some (?nd, b1)"
      using k step level(1) lots
      by (simp add: fill_maker_def Let_def b1_def del: remaining_Some checked_sub_Some checked_add_Some)
    then show ?thesis
      using that [of b1] view1 rep1 False by (auto simp: book_ok_def b1_def)
  next
    case True
    obtain s' where s': "slab_remove S (bk_orders b1) k = Some (?nd, s')"
      "slab_get S s' = (slab_get S (bk_orders b1))(k := None)"
      using remove_occupied [OF k1] by blast
    obtain b2 where b2:
      "unlink S (b1\<lparr>bk_index := (bk_index b1)(o_id ?nd := None), bk_orders := s'\<rparr>) ?nd = Some b2"
      "book_rep S b2 (upd_queue (o_side ?nd) (o_price ?nd) (remove1 k) Q)"
      "orders_of (slab_get S (bk_orders b2)) = (orders_of (slab_get S (bk_orders b1)))(k := None)"
      "bk_capacity b2 = bk_capacity b1"
      using unlink_ok [OF rep1 k1 s'(2)] by blast
    have "fill_maker S b k q = Some (?nd, b2)"
      using k step level(1) lots True s'(1) b2(1)
      by (simp add: fill_maker_def Let_def b1_def del: remaining_Some checked_sub_Some checked_add_Some)
    moreover have "book_lookup S b2 = (book_lookup S b)(o_id nd := None)"
      "book_queue S b2 = upd_queue ?sd ?p (drop_order (o_id nd)) (book_queue S b)"
      using view_remove [of b Q k "order_of nd" b2] rep g b2(2,3) by (simp_all add: g1)
    moreover have "bk_capacity b2 = bk_capacity b" by (simp add: b2(4) b1_def)
    ultimately show ?thesis
      using that [of b2] b2(2) True by (auto simp: book_ok_def)
  qed
qed

section \<open>Insertion\<close>

lemma link_tail_ok:
  assumes seg: "dlseg h None q None" and dist: "distinct q" and k: "h k = None"
    and s: "slab_get S s = h(k \<mapsto> node_of d)" and tail: "pl_tail level = last_or None q"
  obtains s' where
    "link_tail S s k level = Some (s', if q = [] then level\<lparr>pl_head := Some k\<rparr> else level)"
    "dlseg (slab_get S s') None (q @ [k]) None"
    "\<And>j. j \<notin> set (q @ [k]) \<Longrightarrow> slab_get S s' j = h j"
    "orders_of (slab_get S s') = (orders_of h)(k \<mapsto> d)"
proof (cases q rule: rev_cases)
  case Nil
  have "link_tail S s k level = Some (s, level\<lparr>pl_head := Some k\<rparr>)"
    using tail by (simp add: link_tail_def Nil)
  then show ?thesis using that [of s] s by (simp add: Nil)
next
  case (snoc q' t)
  obtain n where n: "h t = Some n" using seg by (auto simp: snoc dlseg_append)
  then have tk: "t \<noteq> k" and kq: "k \<notin> set q" using k seg dlseg_mem by fastforce+
  then have n1: "slab_get S s t = Some n" using n by (simp add: s)
  obtain s1 where s1: "slab_modify S s t (\<lambda>n. n\<lparr>n_next := Some k\<rparr>) = Some s1"
    "slab_get S s1 = (slab_get S s)(t \<mapsto> n\<lparr>n_next := Some k\<rparr>)"
    using slab_modify_ok [OF n1] by blast
  have n2: "slab_get S s1 k = Some (node_of d)" using tk by (simp add: s1 s)
  obtain s2 where s2: "slab_modify S s1 k (\<lambda>n. n\<lparr>n_prev := Some t\<rparr>) = Some s2"
    "slab_get S s2 = (slab_get S s1)(k \<mapsto> (node_of d)\<lparr>n_prev := Some t\<rparr>)"
    using slab_modify_ok [OF n2] by blast
  have get: "slab_get S s2 = h(t \<mapsto> n\<lparr>n_next := Some k\<rparr>, k \<mapsto> (node_of d)\<lparr>n_prev := Some t\<rparr>)"
    using tk by (auto simp: s1 s2 s)
  have "link_tail S s k level = Some (s2, level)"
    using tail s1(1) s2(1) by (simp add: link_tail_def snoc)
  moreover have "dlseg (h(t \<mapsto> n\<lparr>n_next := Some k\<rparr>)) None q (Some k)"
    using dlseg_set_next [OF seg [unfolded snoc] n, of "Some k"] dist by (simp add: snoc)
  then have "dlseg (slab_get S s2) None (q @ [k]) None"
    using kq by (simp add: get dlseg_append dlseg_outside snoc)
  moreover have "orders_of (slab_get S s2) = (orders_of h)(k \<mapsto> d)"
    using n by (auto simp: get orders_of_def)
  ultimately show ?thesis using that [of s2] by (simp add: snoc get)
qed

lemma levels_insert:
  assumes lr: "levels_rep g q m" and k: "\<And>p. k \<notin> set (q p)"
    and bounds: "length (q p) + 1 < 2 ^ 32" "queue_lots g (q p) + open_lots d < 2 ^ 64"
    and level: "level = (case btm_get m p of None \<Rightarrow> empty_level | Some l \<Rightarrow> l)"
  shows "levels_rep (g(k \<mapsto> d)) (q(p := q p @ [k]))
    (btm_insert p
      ((if q p = [] then level\<lparr>pl_head := Some k\<rparr> else level)
        \<lparr>pl_tail := Some k, pl_count := wrapping_add 32 (pl_count level) 1,
         pl_total := wrapping_add 64 (pl_total level) (open_lots d)\<rparr>) m)"
proof -
  have found: "level_of g (q p) = btm_get m p" using lr by (simp add: levels_rep_def)
  have "pl_count level = length (q p)" "pl_total level = queue_lots g (q p)"
    by (auto simp: level level_of_def empty_level_def simp flip: found)
  then have wrap: "wrapping_add 32 (pl_count level) 1 = pl_count level + 1"
    "wrapping_add 64 (pl_total level) (open_lots d) = pl_total level + open_lots d"
    using bounds by (simp_all add: wrapping_add_def)
  have "level_of (g(k \<mapsto> d)) (q p @ [k]) = Some
      ((if q p = [] then level\<lparr>pl_head := Some k\<rparr> else level)
        \<lparr>pl_tail := Some k, pl_count := pl_count level + 1, pl_total := pl_total level + open_lots d\<rparr>)"
    using level_of_snoc [OF found k, of d] unfolding level [symmetric] Let_def by auto
  from levels_rep_put [OF lr _ this] show ?thesis
    unfolding wrap using bounds k by simp
qed

lemma links_insert:
  assumes rep: "book_rep S b Q" and k: "slab_get S (bk_orders b) k = None"
    and seg: "dlseg h None (Q sd p @ [k]) None"
    and out: "\<And>j. j \<notin> set (Q sd p @ [k]) \<Longrightarrow> h j = slab_get S (bk_orders b) j"
  shows "links h (upd_queue sd p (\<lambda>q. q @ [k]) Q)"
proof -
  have kq: "k \<notin> set (Q sd' p')" for sd' p'
    using k book_repD(2) [OF rep] by (auto simp: placed_def orders_of_def)
  have "dlseg h None (Q sd' p') None" if "(sd', p') \<noteq> (sd, p)" for sd' p'
  proof -
    have "h j = slab_get S (bk_orders b) j" if "j \<in> set (Q sd' p')" for j
      using that out [of j] kq placed_unique [OF book_repD(2) [OF rep], of j sd' p' sd p]
        \<open>(sd', p') \<noteq> (sd, p)\<close> by auto
    then show ?thesis
      using book_repD(7) [OF rep, of sd' p'] dlseg_cong [of "Q sd' p'" h] by blast
  qed
  then show ?thesis
    using seg kq book_repD(6) [OF rep] by (auto simp: links_def upd_queue_apply)
qed

lemma queue_lots_rep:
  assumes "book_rep S b Q"
  shows "queue_lots (orders_of (slab_get S (bk_orders b))) (Q sd p) = lots_of (book_queue S b sd p)"
  by (simp add: queue_lots_def lots_of_def book_queue_rep [OF assms] o_def)

lemma queue_length_rep: "book_rep S b Q \<Longrightarrow> length (book_queue S b sd p) = length (Q sd p)"
  by (simp add: book_queue_rep)

lemma overflow_rep:
  assumes rep: "book_rep S b Q"
  shows "level_overflows (btm_get (bk_levels b sd) p) r \<longleftrightarrow>
    book_queue S b sd p \<noteq> [] \<and>
    (2 ^ 64 \<le> lots_of (book_queue S b sd p) + r \<or> 2 ^ 32 \<le> length (book_queue S b sd p) + 1)"
proof -
  have "btm_get (bk_levels b sd) p = level_of (orders_of (slab_get S (bk_orders b))) (Q sd p)"
    using book_repD(5) [OF rep, of sd] by (simp add: levels_rep_def)
  then show ?thesis
    using queue_length_rep [OF rep, of sd p]
    by (auto simp: level_overflows_def level_of_def queue_lots_rep [OF rep] not_less)
qed

lemma book_insert_ok:
  assumes rep: "book_rep S b Q" and full: "\<not> is_full S b"
    and d: "o_filled d \<le> o_total d" "o_total d < 2 ^ 64"
    and new: "book_lookup S b (o_id d) = None"
    and room: "\<not> level_overflows (btm_get (bk_levels b (o_side d)) (o_price d)) (open_lots d)"
  obtains b' where "book_insert S b d = Some (Inr b')" "book_ok S b'"
    "book_lookup S b' = (book_lookup S b)(o_id d \<mapsto> d)"
    "book_queue S b' = upd_queue (o_side d) (o_price d) (\<lambda>q. q @ [d]) (book_queue S b)"
    "bk_capacity b' = bk_capacity b"
proof -
  let ?h = "slab_get S (bk_orders b)" and ?sd = "o_side d" and ?p = "o_price d"
  let ?q = "Q ?sd ?p" and ?m = "bk_levels b ?sd"
  define level where "level = (case btm_get ?m ?p of None \<Rightarrow> empty_level | Some l \<Rightarrow> l)"
  obtain k s where ks: "slab_insert S (bk_orders b) (node_of d) = (k, s)" by fastforce
  then have k: "?h k = None" and s: "slab_get S s = ?h(k \<mapsto> node_of d)"
    using get_insert by blast+
  then have gk: "orders_of ?h k = None" by (simp add: orders_of_def)
  have kq: "k \<notin> set (Q sd p)" for sd p
    using gk book_repD(2) [OF rep] by (auto simp: placed_def)
  have bounds: "length ?q + 1 < 2 ^ 32" "queue_lots (orders_of ?h) ?q + open_lots d < 2 ^ 64"
    using room [unfolded overflow_rep [OF rep]] d(2) queue_length_rep [OF rep, of ?sd ?p]
    by (cases "?q = []"; auto simp: queue_lots_rep [OF rep] lots_of_def open_lots_def)+
  have "pl_tail level = last_or None ?q"
    using book_repD(5) [OF rep, of ?sd]
    by (auto simp: level_def levels_rep_def level_of_def empty_level_def last_or_def)
  then obtain s' where s':
    "link_tail S s k level = Some (s', if ?q = [] then level\<lparr>pl_head := Some k\<rparr> else level)"
    "dlseg (slab_get S s') None (?q @ [k]) None"
    "\<And>j. j \<notin> set (?q @ [k]) \<Longrightarrow> slab_get S s' j = ?h j"
    "orders_of (slab_get S s') = (orders_of ?h)(k \<mapsto> d)"
    using link_tail_ok [OF book_repD(7) [OF rep] book_repD(6) [OF rep] k s] by blast
  let ?l = "(if ?q = [] then level\<lparr>pl_head := Some k\<rparr> else level)"
  have l: "pl_count ?l = pl_count level" "pl_total ?l = pl_total level" by simp_all
  define b' where "b' = set_levels ?sd (btm_insert ?p
      (?l\<lparr>pl_tail := Some k, pl_count := wrapping_add 32 (pl_count level) 1,
          pl_total := wrapping_add 64 (pl_total level) (open_lots d)\<rparr>) ?m)
      (b\<lparr>bk_orders := s', bk_index := (bk_index b)(o_id d \<mapsto> k)\<rparr>)"
  have "checked_sub (o_total d) (o_filled d) = Some (open_lots d)"
    using d(1) by (simp add: open_lots_def)
  then have "book_insert S b d = Some (Inr b')"
    using full room ks s'(1)
    unfolding book_insert_def Let_def b'_def level_def [symmetric]
    by (simp add: l del: checked_sub_Some)
  moreover have rep': "book_rep S b' (upd_queue ?sd ?p (\<lambda>q. q @ [k]) Q)"
    using links_insert [OF rep k s'(2,3)] placed_insert [OF book_repD(2) [OF rep] gk, of d]
      sound_update [OF book_repD(3) [OF rep] d] new [folded index_None [OF rep]]
      indexed_insert [OF book_repD(4) [OF rep] gk, of d]
      levels_insert [OF book_repD(5) [OF rep] kq bounds level_def]
      levels_rep_other [OF book_repD(5) [OF rep] kq]
    unfolding book_rep_def Let_def
    by (auto simp: b'_def s'(4) upd_queue_def)
  moreover have "orders_of (slab_get S (bk_orders b')) = (orders_of ?h)(k \<mapsto> d)"
    by (simp add: b'_def s'(4))
  ultimately show ?thesis
    using that [of b'] view_insert [OF rep gk rep' _ new] by (auto simp: book_ok_def b'_def)
qed

lemma book_insert_full:
  assumes rep: "book_rep S b Q"
    and d: "is_full S b \<or> o_total d < o_filled d \<or>
      level_overflows (btm_get (bk_levels b (o_side d)) (o_price d)) (open_lots d)"
  shows "book_insert S b d = Some (Inl CapacityExhausted)"
  using d by (auto simp: book_insert_def Let_def open_lots_def checked_sub_def split: option.splits)

lemma book_with_capacity_ok:
  "book_rep S (book_with_capacity S n) (\<lambda>_ _. [])"
  "book_lookup S (book_with_capacity S n) = Map.empty"
proof -
  have "bk_levels (book_with_capacity S n) sd = []" for sd
    by (cases sd) (simp_all add: book_with_capacity_def)
  then show "book_rep S (book_with_capacity S n) (\<lambda>_ _. [])"
    by (simp add: book_rep_def Let_def links_def placed_def sound_orders_def indexed_def levels_rep_def)
      (simp add: book_with_capacity_def get_new)
  show "book_lookup S (book_with_capacity S n) = Map.empty"
    by (auto simp: book_lookup_def book_with_capacity_def)
qed

section \<open>Reading the book\<close>

lemma queue_ids_distinct:
  assumes rep: "book_rep S b Q"
  shows "distinct (map o_id (book_queue S b sd p))"
proof -
  have "inj_on (\<lambda>k. o_id (the (orders_of (slab_get S (bk_orders b)) k))) (set (Q sd p))"
  proof (rule inj_onI)
    fix j k
    assume j: "j \<in> set (Q sd p)" and k: "k \<in> set (Q sd p)"
      and eq: "o_id (the (orders_of (slab_get S (bk_orders b)) j)) =
               o_id (the (orders_of (slab_get S (bk_orders b)) k))"
    obtain d where d: "orders_of (slab_get S (bk_orders b)) k = Some d"
      using k book_repD(2) [OF rep] by (auto simp: placed_def)
    show "j = k" using view_ids [OF rep d j] eq d by simp
  qed
  then show ?thesis
    using book_repD(6) [OF rep, of sd p] by (simp add: book_queue_rep [OF rep] distinct_map o_def)
qed

lemma levels_view_ladder:
  assumes rep: "book_rep S b Q"
  shows "map fst (levels_view b sd) = ladder (book_queue S b) sd"
proof -
  have "btm_ok (bk_levels b sd)" "{p. btm_get (bk_levels b sd) p \<noteq> None} = {p. book_queue S b sd p \<noteq> []}"
    for sd
    using book_repD(5) [OF rep, of sd] by (auto simp: levels_rep_def book_queue_rep [OF rep])
  then have "map fst (bk_levels b sd) = sorted_list_of_set {p. book_queue S b sd p \<noteq> []}" for sd
    using btm_keys_sorted [of "bk_levels b sd"] by simp
  from this [of Buy] this [of Sell] show ?thesis
    by (cases sd) (simp_all flip: rev_map)
qed

lemma next_eligible_ladder:
  assumes rep: "book_rep S b Q"
  shows "next_eligible_price b sd (Some l) =
    (case ladder (book_queue S b) sd of [] \<Rightarrow> None | p # _ \<Rightarrow> if eligible sd l p then Some p else None)"
proof -
  have "next_eligible_price b sd (Some l) =
      (case map fst (levels_view b sd) of [] \<Rightarrow> None | p # _ \<Rightarrow> if eligible sd l p then Some p else None)"
    by (cases sd; cases "bk_bids b" rule: rev_cases; cases "bk_asks b")
      (auto simp: next_eligible_price_def btm_first_def btm_last_def not_less)
  then show ?thesis by (simp add: levels_view_ladder [OF rep])
qed

lemma finite_prices: "book_rep S b Q \<Longrightarrow> finite {p. book_queue S b sd p \<noteq> []}"
proof -
  assume rep: "book_rep S b Q"
  have "{p. book_queue S b sd p \<noteq> []} = {p. btm_get (bk_levels b sd) p \<noteq> None}"
    using book_repD(5) [OF rep, of sd] by (auto simp: levels_rep_def book_queue_rep [OF rep])
  also have "\<dots> = fst ` set (bk_levels b sd)" unfolding btm_get_dom by simp
  finally show ?thesis by simp
qed

lemma lookup_card:
  assumes rep: "book_rep S b Q"
  shows "finite (dom (book_lookup S b))" "live_order_count S b = card (dom (book_lookup S b))"
proof -
  let ?g = "orders_of (slab_get S (bk_orders b))"
  have "bij_betw (\<lambda>k. o_id (the (?g k))) (dom ?g) (dom (book_lookup S b))"
  proof (rule bij_betw_imageI)
    show "inj_on (\<lambda>k. o_id (the (?g k))) (dom ?g)"
      using lookup_ids [OF rep] by (fastforce intro!: inj_onI)
    show "(\<lambda>k. o_id (the (?g k))) ` dom ?g = dom (book_lookup S b)"
      using lookup_rep [OF rep] by (force simp: dom_def image_iff)
  qed
  moreover have "finite (dom ?g)" using finite_keys by simp
  ultimately show "finite (dom (book_lookup S b))"
    "live_order_count S b = card (dom (book_lookup S b))"
    using len_card [of "bk_orders b"] bij_betw_finite bij_betw_same_card
    by (fastforce simp: live_order_count_def)+
qed

end

section \<open>A slab\<close>

text \<open>One store with the documented behaviour: a vector of entries, the first vacant one reused.\<close>

fun vec_insert :: "order_node option list \<Rightarrow> order_node \<Rightarrow> nat \<times> order_node option list" where
  "vec_insert [] x = (0, [Some x])"
| "vec_insert (None # es) x = (0, Some x # es)"
| "vec_insert (Some y # es) x = (let (k, es') = vec_insert es x in (Suc k, Some y # es'))"

definition vec_get :: "order_node option list \<Rightarrow> nat \<Rightarrow> order_node option" where
  "vec_get es k = (if k < length es then es ! k else None)"

definition vec_slab :: "order_node option list slab_ops" where
  "vec_slab =
     \<lparr>slab_new = (\<lambda>_. []), slab_insert = vec_insert, slab_get = vec_get,
      slab_set = (\<lambda>es k x. es[k := Some x]),
      slab_remove = (\<lambda>es k. do { x \<leftarrow> vec_get es k; Some (x, es[k := None]) }),
      slab_len = (\<lambda>es. length (filter (\<lambda>e. e \<noteq> None) es))\<rparr>"

lemma vec_get_Cons: "vec_get (e # es) k = (case k of 0 \<Rightarrow> e | Suc j \<Rightarrow> vec_get es j)"
  by (simp add: vec_get_def split: nat.splits)

lemma vec_insert_get:
  "vec_insert es x = (k, es') \<Longrightarrow> vec_get es k = None \<and> vec_get es' = (vec_get es)(k \<mapsto> x)"
proof (induction es x arbitrary: k es' rule: vec_insert.induct)
  case (3 y es x)
  then show ?case
    by (cases "vec_insert es x") (auto simp: vec_get_Cons fun_eq_iff split: nat.splits)
qed (auto simp: vec_get_def fun_eq_iff nth_Cons split: nat.splits)

lemma vec_dom: "dom (vec_get es) = {i. i < length es \<and> es ! i \<noteq> None}"
  by (auto simp: vec_get_def dom_def)

lemma vec_get_update: "k < length es \<Longrightarrow> vec_get (es[k := v]) = (vec_get es)(k := v)"
  by (auto simp: vec_get_def fun_eq_iff)

interpretation vec: slab_store vec_slab
proof
  show "slab_get vec_slab s k = None \<and> slab_get vec_slab s' = (slab_get vec_slab s)(k \<mapsto> x)"
    if "slab_insert vec_slab s x = (k, s')" for s x k s'
    using that vec_insert_get by (simp add: vec_slab_def)
qed (auto simp: vec_slab_def vec_get_update vec_dom length_filter_conv_card vec_get_def split: if_splits)

end
