(* ===== verification/Matching.thy ===== *)
theory Matching
  imports Book_Contract
begin

text \<open>
  The matching loop (\<open>trading-core/src/matching.rs\<close>) and its specification.

  \<open>match_order\<close> is the code: the outer loop takes the best eligible price, the inner loop fills the
  head of that level.  Both are \<open>partial_function (option)\<close>, so that a loop that does not end, like a
  panic, is \<open>None\<close>.  \<open>sweep\<close> is the specification: structural recursion over the price ladder and
  over each FIFO queue.  The lemmas show that on a well-formed book the code returns, and returns
  what the specification says.
\<close>

section \<open>The code\<close>

record fill =
  f_maker :: order_id
  f_account :: account_id
  f_client :: client_order_id
  f_price :: price_ticks
  f_qty :: quantity_lots
  f_total :: quantity_lots
  f_cum :: quantity_lots
  f_rest :: quantity_lots

definition maker_is_filled :: "fill \<Rightarrow> bool" where
  "maker_is_filled f \<longleftrightarrow> f_rest f = 0"

partial_function (option) match_level ::
  "'s slab_ops \<Rightarrow> side \<Rightarrow> price_ticks \<Rightarrow> 's order_book \<Rightarrow> nat \<Rightarrow> fill list \<Rightarrow>
   ('s order_book \<times> nat \<times> fill list) option" where
  "match_level S maker_side price b rem fills =
     (if 0 < rem then
        (case head_slot b maker_side price of
           None \<Rightarrow> Some (b, rem, fills)
         | Some slot \<Rightarrow> do {
             maker \<leftarrow> slab_get S (bk_orders b) slot;
             rest \<leftarrow> remaining maker;
             let traded = min rem rest;
             (maker_after, b') \<leftarrow> fill_maker S b slot traded;
             rest_after \<leftarrow> remaining maker_after;
             match_level S maker_side price b' (rem - traded)
               (fills @ [\<lparr>f_maker = o_id maker, f_account = o_account maker,
                          f_client = o_client maker, f_price = price, f_qty = traded,
                          f_total = o_total maker_after, f_cum = o_filled maker_after,
                          f_rest = rest_after\<rparr>])
           })
      else Some (b, rem, fills))"

partial_function (option) match_loop ::
  "'s slab_ops \<Rightarrow> side \<Rightarrow> price_ticks \<Rightarrow> 's order_book \<Rightarrow> nat \<Rightarrow> fill list \<Rightarrow>
   ('s order_book \<times> nat \<times> fill list) option" where
  "match_loop S maker_side limit b rem fills =
     (if 0 < rem then
        (case next_eligible_price b maker_side (Some limit) of
           None \<Rightarrow> Some (b, rem, fills)
         | Some price \<Rightarrow> do {
             (b', rem', fills') \<leftarrow> match_level S maker_side price b rem fills;
             match_loop S maker_side limit b' rem' fills'
           })
      else Some (b, rem, fills))"

definition match_order ::
  "'s slab_ops \<Rightarrow> 's order_book \<Rightarrow> side \<Rightarrow> price_ticks \<Rightarrow> quantity_lots \<Rightarrow> fill list \<Rightarrow>
   (quantity_lots \<times> 's order_book \<times> fill list) option" where
  "match_order S b taker_side limit quantity fills = do {
     (b', rem, fills') \<leftarrow> match_loop S (opposite taker_side) limit b quantity fills;
     Some (quantity - rem, b', fills')
   }"

section \<open>The specification\<close>

definition fill_of :: "price_ticks \<Rightarrow> new_order \<Rightarrow> nat \<Rightarrow> fill" where
  "fill_of p d t =
     \<lparr>f_maker = o_id d, f_account = o_account d, f_client = o_client d, f_price = p, f_qty = t,
      f_total = o_total d, f_cum = o_filled d + t, f_rest = open_lots d - t\<rparr>"

fun take_level :: "price_ticks \<Rightarrow> nat \<Rightarrow> new_order list \<Rightarrow> fill list \<times> new_order list \<times> nat" where
  "take_level p rem [] = ([], [], rem)"
| "take_level p rem (d # os) =
     (if rem = 0 then ([], d # os, 0)
      else if open_lots d \<le> rem then
        (let (fs, os', r) = take_level p (rem - open_lots d) os
         in (fill_of p d (open_lots d) # fs, os', r))
      else ([fill_of p d rem], d\<lparr>o_filled := o_filled d + rem\<rparr> # os, 0))"

fun sweep :: "side \<Rightarrow> price_ticks list \<Rightarrow> nat \<Rightarrow> abook \<Rightarrow> fill list \<times> abook \<times> nat" where
  "sweep sd [] rem A = ([], A, rem)"
| "sweep sd (p # ps) rem A =
     (let (fs, os, r) = take_level p rem (A sd p);
          (fs', A', r') = sweep sd ps r (upd_queue sd p (\<lambda>_. os) A)
      in (fs @ fs', A', r'))"

text \<open>The prices an order limited to \<open>l\<close> may trade at, best first.\<close>

definition eligible_prices :: "abook \<Rightarrow> side \<Rightarrow> price_ticks \<Rightarrow> price_ticks list" where
  "eligible_prices A sd l = takeWhile (eligible sd l) (ladder A sd)"

text \<open>What a list of fills does to the resting orders, and that each fill describes the order it hits.\<close>

definition apply_fill :: "fill \<Rightarrow> (order_id \<rightharpoonup> new_order) \<Rightarrow> order_id \<rightharpoonup> new_order" where
  "apply_fill f L =
     L(f_maker f := if f_rest f = 0 then None
                    else map_option (\<lambda>d. d\<lparr>o_filled := f_cum f\<rparr>) (L (f_maker f)))"

fun fills_valid :: "side \<Rightarrow> (order_id \<rightharpoonup> new_order) \<Rightarrow> fill list \<Rightarrow> bool" where
  "fills_valid sd L [] = True"
| "fills_valid sd L (f # fs) =
     ((\<exists>d. L (f_maker f) = Some d \<and> o_id d = f_maker f \<and> o_side d = sd \<and>
        f = fill_of (o_price d) d (f_qty f) \<and> f_qty f \<le> open_lots d) \<and>
      fills_valid sd (apply_fill f L) fs)"

section \<open>Lemmas on the specification\<close>

lemma take_level_zero [simp]: "take_level p 0 os = ([], os, 0)"
  by (cases os) simp_all

lemma upd_queue_id [simp]: "upd_queue sd p (\<lambda>_. A sd p) A = A"
  by (simp add: upd_queue_def)

lemma upd_queue_twice [simp]:
  "upd_queue sd p (\<lambda>_. ys) (upd_queue sd p (\<lambda>_. xs) A) = upd_queue sd p (\<lambda>_. ys) A"
  by (simp add: upd_queue_def)

lemma sweep_zero [simp]: "sweep sd ps 0 A = ([], A, 0)"
  by (induction ps) simp_all

lemma take_level_rest: "take_level p rem os = (fs, os', r) \<Longrightarrow> 0 < r \<Longrightarrow> os' = []"
  by (induction os arbitrary: rem fs) (auto split: if_splits prod.splits)

lemma ladder_clear:
  assumes l: "ladder A sd = p # ps" and fin: "finite {p. A sd p \<noteq> []}"
  shows "ladder (upd_queue sd p (\<lambda>_. []) A) sd = ps"
proof -
  have eq: "{q. upd_queue sd p (\<lambda>_. []) A sd q \<noteq> []} = {q. A sd q \<noteq> []} - {p}"
    by (auto simp: upd_queue_apply)
  have rm: "sorted_list_of_set ({q. A sd q \<noteq> []} - {p}) = remove1 p (sorted_list_of_set {q. A sd q \<noteq> []})"
    using fin by (rule sorted_list_of_set_remove)
  show ?thesis
  proof (cases sd)
    case Sell
    then show ?thesis using l eq rm by simp
  next
    case Buy
    then have "sorted_list_of_set {q. A Buy q \<noteq> []} = rev ps @ [p]"
      using l by (metis ladder.simps(1) rev.simps(2) rev_rev_ident)
    moreover from this have "p \<notin> set ps"
      using distinct_sorted_list_of_set [of "{q. A Buy q \<noteq> []}"] by simp
    ultimately show ?thesis using Buy eq rm by (simp add: remove1_append)
  qed
qed

section \<open>The loops on a well-formed book\<close>

context slab_store
begin

lemma queue_head:
  assumes rep: "book_rep S b Q" and q: "book_queue S b sd p = d # os"
  obtains k nd where "head_slot b sd p = Some k" "slab_get S (bk_orders b) k = Some nd"
    "d = order_of nd" "o_side nd = sd" "o_price nd = p"
proof -
  obtain k ks where ks: "Q sd p = k # ks"
    using q by (cases "Q sd p") (simp_all add: book_queue_rep [OF rep])
  obtain nd where nd: "slab_get S (bk_orders b) k = Some nd"
    using book_repD(7) [OF rep, of sd p] by (auto simp: ks)
  moreover have "o_side nd = sd \<and> o_price nd = p" using rep_slot [OF rep nd, of sd p] by (simp add: ks)
  ultimately show ?thesis
    using that [of k nd] q by (simp add: head_slot_rep [OF rep] book_queue_rep [OF rep] ks orders_of_def)
qed

lemma fill_head:
  assumes ok: "book_ok S b" and q: "book_queue S b sd p = d # os" and t: "t \<le> open_lots d"
  obtains k nd b' where "head_slot b sd p = Some k" "slab_get S (bk_orders b) k = Some nd"
    "order_of nd = d" "fill_maker S b k t = Some (nd\<lparr>o_filled := o_filled nd + t\<rparr>, b')"
    "o_filled nd \<le> o_total nd" "book_ok S b'"
    "book_lookup S b' = apply_fill (fill_of p d t) (book_lookup S b)"
    "book_queue S b' = upd_queue sd p
      (\<lambda>_. if t = open_lots d then os else d\<lparr>o_filled := o_filled d + t\<rparr> # os) (book_queue S b)"
    "bk_capacity b' = bk_capacity b" "book_lookup S b (o_id d) = Some d" "o_side d = sd" "o_price d = p"
proof -
  from ok obtain Q where rep: "book_rep S b Q" by (auto simp: book_ok_def)
  obtain k nd where k: "head_slot b sd p = Some k" "slab_get S (bk_orders b) k = Some nd"
    "d = order_of nd" "o_side nd = sd" "o_price nd = p"
    by (rule queue_head [OF rep q])
  obtain b' where b': "fill_maker S b k t = Some (nd\<lparr>o_filled := o_filled nd + t\<rparr>, b')" "book_ok S b'"
    "book_lookup S b' = (book_lookup S b)(o_id nd :=
       if t = open_lots nd then None else Some ((order_of nd)\<lparr>o_filled := o_filled nd + t\<rparr>))"
    "book_queue S b' = upd_queue (o_side nd) (o_price nd)
       (if t = open_lots nd then drop_order (o_id nd)
        else upd_order (o_id nd) (\<lambda>_. (order_of nd)\<lparr>o_filled := o_filled nd + t\<rparr>))
       (book_queue S b)"
    "bk_capacity b' = bk_capacity b"
    using fill_maker_ok [OF rep k(2), of t] t k(3) by auto
  have "d \<in> set (book_queue S b sd p)" by (simp add: q)
  then have L: "book_lookup S b (o_id d) = Some d" by (simp add: queue_mem [OF rep])
  have ids: "\<forall>e \<in> set os. o_id e \<noteq> o_id d"
    using queue_ids_distinct [OF rep, of sd p] by (auto simp: q) (metis imageI)
  then have "drop_order (o_id d) (d # os) = os" "upd_order (o_id d) (\<lambda>_. e) (d # os) = e # os" for e
    by (auto simp: drop_order_def upd_order_def map_idI)
  then have "book_queue S b' = upd_queue sd p
      (\<lambda>_. if t = open_lots d then os else d\<lparr>o_filled := o_filled d + t\<rparr> # os) (book_queue S b)"
    using b'(4) k q by (auto simp: upd_queue_def)
  moreover have "book_lookup S b' = apply_fill (fill_of p d t) (book_lookup S b)"
    using b'(3) k(3) t L by (auto simp: apply_fill_def fill_of_def)
  moreover have "o_filled nd \<le> o_total nd" using sound_node [OF book_repD(3) [OF rep] k(2)] by simp
  ultimately show ?thesis
    using that [of k nd b'] b' k L by simp
qed

lemma match_level_ok:
  assumes "book_ok S b" "book_queue S b sd p = os" "take_level p rem os = (fs, os', r)"
  shows "\<exists>b'. match_level S sd p b rem fills = Some (b', r, fills @ fs) \<and> book_ok S b' \<and>
    book_queue S b' = upd_queue sd p (\<lambda>_. os') (book_queue S b) \<and>
    book_lookup S b' = fold apply_fill fs (book_lookup S b) \<and>
    fills_valid sd (book_lookup S b) fs \<and> bk_capacity b' = bk_capacity b"
  using assms
proof (induction os arbitrary: b rem fills fs os' r)
  case Nil
  from Nil.prems(1) obtain Q where rep: "book_rep S b Q" by (auto simp: book_ok_def)
  then have "head_slot b sd p = None"
    using Nil.prems(2) by (simp add: head_slot_rep book_queue_rep)
  then have "match_level S sd p b rem fills = Some (b, rem, fills)"
    by (subst match_level.simps) simp
  moreover have "upd_queue sd p (\<lambda>_. []) (book_queue S b) = book_queue S b"
    using upd_queue_id [of sd p "book_queue S b"] by (simp add: Nil.prems(2))
  ultimately show ?case using Nil.prems by auto
next
  case (Cons d os)
  show ?case
  proof (cases "rem = 0")
    case True
    then have "match_level S sd p b rem fills = Some (b, 0, fills)"
      by (subst match_level.simps) simp
    moreover have "upd_queue sd p (\<lambda>_. d # os) (book_queue S b) = book_queue S b"
      using upd_queue_id [of sd p "book_queue S b"] by (simp add: Cons.prems(2))
    ultimately show ?thesis using Cons.prems True by auto
  next
    case False
    define t where "t = min rem (open_lots d)"
    then have "t \<le> open_lots d" by simp
    obtain k nd b1 where
      k: "head_slot b sd p = Some k" "slab_get S (bk_orders b) k = Some nd" "order_of nd = d"
      and fm: "fill_maker S b k t = Some (nd\<lparr>o_filled := o_filled nd + t\<rparr>, b1)"
      and le: "o_filled nd \<le> o_total nd" and ok1: "book_ok S b1"
      and L1: "book_lookup S b1 = apply_fill (fill_of p d t) (book_lookup S b)"
      and Q1: "book_queue S b1 = upd_queue sd p
        (\<lambda>_. if t = open_lots d then os else d\<lparr>o_filled := o_filled d + t\<rparr> # os) (book_queue S b)"
      and cap: "bk_capacity b1 = bk_capacity b"
      and d: "book_lookup S b (o_id d) = Some d" "o_side d = sd" "o_price d = p"
      by (rule fill_head [OF Cons.prems(1,2) \<open>t \<le> open_lots d\<close>])
    have nd: "o_id nd = o_id d" "o_account nd = o_account d" "o_client nd = o_client d"
      "o_total nd = o_total d" "o_filled nd = o_filled d" "open_lots nd = open_lots d"
      using k(3) by (auto simp: order_of_def open_lots_def)
    have rest: "remaining nd = Some (open_lots d)"
      "remaining (nd\<lparr>o_filled := o_filled d + t\<rparr>) = Some (open_lots d - t)"
      using le nd \<open>t \<le> open_lots d\<close> by (auto simp: open_lots_def)
    have step: "match_level S sd p b rem fills =
        match_level S sd p b1 (rem - t) (fills @ [fill_of p d t])"
      using False k(1,2) fm rest
      by (subst match_level.simps) (simp add: nd fill_of_def t_def [symmetric] Let_def del: remaining_Some)
    have valid: "fills_valid sd (book_lookup S b) (fill_of p d t # gs) \<longleftrightarrow>
        fills_valid sd (book_lookup S b1) gs" for gs
      using d \<open>t \<le> open_lots d\<close> by (auto simp: L1 fill_of_def)
    show ?thesis
    proof (cases "open_lots d \<le> rem")
      case True
      then have t: "t = open_lots d" by (simp add: t_def)
      obtain gs where gs: "take_level p (rem - t) os = (gs, os', r)" "fs = fill_of p d t # gs"
        using Cons.prems(3) False True by (cases "take_level p (rem - t) os") (simp add: t)
      have q1: "book_queue S b1 sd p = os" using Q1 t by simp
      obtain b2 where
        "match_level S sd p b1 (rem - t) (fills @ [fill_of p d t]) = Some (b2, r, (fills @ [fill_of p d t]) @ gs)"
        "book_ok S b2" "book_queue S b2 = upd_queue sd p (\<lambda>_. os') (book_queue S b1)"
        "book_lookup S b2 = fold apply_fill gs (book_lookup S b1)"
        "fills_valid sd (book_lookup S b1) gs" "bk_capacity b2 = bk_capacity b1"
        using Cons.IH [OF ok1 q1 gs(1)] by blast
      then show ?thesis
        using step Q1 L1 valid [of gs] cap by (simp add: gs(2) t del: fills_valid.simps)
    next
      case False
      then have t: "t = rem" "t \<noteq> open_lots d" by (simp_all add: t_def)
      have "match_level S sd p b1 0 (fills @ [fill_of p d t]) = Some (b1, 0, fills @ [fill_of p d t])"
        by (subst match_level.simps) simp
      then have "match_level S sd p b rem fills = Some (b1, 0, fills @ [fill_of p d t])"
        using step t by simp
      then show ?thesis
        using Cons.prems(3) False \<open>rem \<noteq> 0\<close> t ok1 Q1 L1 valid [of "[]"] cap by auto
    qed
  qed
qed

lemma match_loop_zero: "match_loop S sd l b 0 fills = Some (b, 0, fills)"
  by (subst match_loop.simps) simp

lemma fills_valid_append:
  "fills_valid sd L (fs @ gs) \<longleftrightarrow> fills_valid sd L fs \<and> fills_valid sd (fold apply_fill fs L) gs"
  by (induction fs arbitrary: L) auto

lemma match_loop_ok:
  assumes "book_ok S b" "eligible_prices (book_queue S b) sd l = ps"
    "sweep sd ps rem (book_queue S b) = (fs, A', r)"
  shows "\<exists>b'. match_loop S sd l b rem fills = Some (b', r, fills @ fs) \<and> book_ok S b' \<and>
    book_queue S b' = A' \<and> book_lookup S b' = fold apply_fill fs (book_lookup S b) \<and>
    fills_valid sd (book_lookup S b) fs \<and> bk_capacity b' = bk_capacity b"
  using assms
proof (induction ps arbitrary: b rem fills fs)
  case Nil
  from Nil.prems(1) obtain Q where rep: "book_rep S b Q" by (auto simp: book_ok_def)
  have "next_eligible_price b sd (Some l) = None"
    using Nil.prems(2)
    by (auto simp: next_eligible_ladder [OF rep] eligible_prices_def split: list.splits if_splits)
  then have "match_loop S sd l b rem fills = Some (b, rem, fills)"
    by (subst match_loop.simps) simp
  then show ?case using Nil.prems by auto
next
  case (Cons p ps)
  from Cons.prems(1) obtain Q where rep: "book_rep S b Q" by (auto simp: book_ok_def)
  let ?A = "book_queue S b"
  obtain ps' where l: "ladder ?A sd = p # ps'" "eligible sd l p" "takeWhile (eligible sd l) ps' = ps"
    using Cons.prems(2) by (cases "ladder ?A sd") (auto simp: eligible_prices_def split: if_splits)
  obtain fs1 os1 r1 where t1: "take_level p rem (?A sd p) = (fs1, os1, r1)" by (metis prod_cases3)
  obtain fs2 where t2: "sweep sd ps r1 (upd_queue sd p (\<lambda>_. os1) ?A) = (fs2, A', r)" "fs = fs1 @ fs2"
    using Cons.prems(3) t1 by (auto split: prod.splits)
  show ?case
  proof (cases "rem = 0")
    case True
    then show ?thesis using Cons.prems(1,3) by (auto simp: match_loop_zero simp del: sweep.simps)
  next
    case False
    obtain b1 where b1: "match_level S sd p b rem fills = Some (b1, r1, fills @ fs1)" "book_ok S b1"
      "book_queue S b1 = upd_queue sd p (\<lambda>_. os1) ?A"
      "book_lookup S b1 = fold apply_fill fs1 (book_lookup S b)"
      "fills_valid sd (book_lookup S b) fs1" "bk_capacity b1 = bk_capacity b"
      using match_level_ok [OF Cons.prems(1) refl t1] by blast
    have step: "match_loop S sd l b rem fills = match_loop S sd l b1 r1 (fills @ fs1)"
      using False l b1(1) by (subst match_loop.simps) (simp add: next_eligible_ladder [OF rep])
    show ?thesis
    proof (cases "r1 = 0")
      case True
      then show ?thesis
        using step b1 t2 by (auto simp: match_loop_zero)
    next
      case False
      then have "os1 = []" using take_level_rest [OF t1] by simp
      then have ps: "eligible_prices (book_queue S b1) sd l = ps"
        using ladder_clear [OF l(1) finite_prices [OF rep]] l(3) by (simp add: eligible_prices_def b1(3))
      obtain b2 where "match_loop S sd l b1 r1 (fills @ fs1) = Some (b2, r, (fills @ fs1) @ fs2)"
        "book_ok S b2" "book_queue S b2 = A'"
        "book_lookup S b2 = fold apply_fill fs2 (book_lookup S b1)"
        "fills_valid sd (book_lookup S b1) fs2" "bk_capacity b2 = bk_capacity b1"
        using Cons.IH [OF b1(2) ps t2(1) [folded b1(3)]] by blast
      then show ?thesis using step b1 t2(2) by (simp add: fills_valid_append)
    qed
  qed
qed

lemma match_order_ok:
  assumes ok: "book_ok S b"
  obtains fs A r b' where
    "sweep (opposite tk) (eligible_prices (book_queue S b) (opposite tk) l) q (book_queue S b) = (fs, A, r)"
    "match_order S b tk l q fills = Some (q - r, b', fills @ fs)" "book_ok S b'" "book_queue S b' = A"
    "book_lookup S b' = fold apply_fill fs (book_lookup S b)"
    "fills_valid (opposite tk) (book_lookup S b) fs" "bk_capacity b' = bk_capacity b"
proof -
  obtain fs A r where sw: "sweep (opposite tk) (eligible_prices (book_queue S b) (opposite tk) l) q
      (book_queue S b) = (fs, A, r)" by (metis prod_cases3)
  from match_loop_ok [OF ok refl sw, of fills] that [OF sw] show ?thesis
    by (auto simp: match_order_def)
qed

end

end
