(* ===== verification/Reference.thy ===== *)
theory Reference
  imports Matching
begin

text \<open>
  The reference book (\<open>trading-core/src/reference.rs\<close>): a \<open>BTreeMap\<close> of queues per side, searched
  linearly.  \<open>ref_sim A r\<close> says that the reference book \<open>r\<close> holds the queues \<open>A\<close>; the lemmas show
  that each of its operations acts on the queues as the indexed book's operation does, so that both
  implement one specification.
\<close>

section \<open>The code\<close>

record ref_order =
  r_id :: order_id
  r_priority :: nat
  r_total :: quantity_lots
  r_filled :: quantity_lots

text \<open>\<open>ReferenceOrder::remaining\<close> subtracts without a check.\<close>

definition ref_remaining :: "ref_order \<Rightarrow> quantity_lots" where
  "ref_remaining r = (if r_filled r \<le> r_total r then r_total r - r_filled r
                      else r_total r + 2 ^ 64 - r_filled r)"

record ref_fill =
  rf_maker :: order_id
  rf_price :: price_ticks
  rf_qty :: quantity_lots
  rf_rest :: quantity_lots

type_synonym ref_levels = "(price_ticks, ref_order list) btm"
type_synonym book_row = "side \<times> price_ticks \<times> (order_id \<times> quantity_lots \<times> nat) list"

record ref_book =
  rb_bids :: ref_levels
  rb_asks :: ref_levels

definition ref_new :: ref_book where
  "ref_new = \<lparr>rb_bids = [], rb_asks = []\<rparr>"

fun rb_levels :: "ref_book \<Rightarrow> side \<Rightarrow> ref_levels" where
  "rb_levels r Buy = rb_bids r"
| "rb_levels r Sell = rb_asks r"

fun rb_set_levels :: "side \<Rightarrow> ref_levels \<Rightarrow> ref_book \<Rightarrow> ref_book" where
  "rb_set_levels Buy m r = r\<lparr>rb_bids := m\<rparr>"
| "rb_set_levels Sell m r = r\<lparr>rb_asks := m\<rparr>"

definition ref_insert :: "side \<Rightarrow> price_ticks \<Rightarrow> ref_order \<Rightarrow> ref_book \<Rightarrow> ref_book" where
  "ref_insert sd p x r =
     (let m = rb_levels r sd;
          os = (case btm_get m p of None \<Rightarrow> [] | Some os \<Rightarrow> os)
      in rb_set_levels sd (btm_insert p (os @ [x]) m) r)"

text \<open>\<open>position\<close> and \<open>remove\<close> on one queue.\<close>

fun take_order :: "order_id \<Rightarrow> ref_order list \<Rightarrow> (ref_order \<times> ref_order list) option" where
  "take_order oid [] = None"
| "take_order oid (x # os) =
     (if r_id x = oid then Some (x, os)
      else do { (y, os') \<leftarrow> take_order oid os; Some (y, x # os') })"

text \<open>The first level, in ascending price order, whose queue holds the order.\<close>

fun find_level :: "order_id \<Rightarrow> ref_levels \<Rightarrow> (price_ticks \<times> ref_order \<times> ref_order list) option" where
  "find_level oid [] = None"
| "find_level oid ((p, os) # m) =
     (case take_order oid os of
        Some (x, os') \<Rightarrow> Some (p, x, os')
      | None \<Rightarrow> find_level oid m)"

definition ref_remove_side ::
  "order_id \<Rightarrow> side \<Rightarrow> ref_book \<Rightarrow> ((side \<times> price_ticks \<times> ref_order) \<times> ref_book) option" where
  "ref_remove_side oid sd r = do {
     (p, x, os) \<leftarrow> find_level oid (rb_levels r sd);
     Some ((sd, p, x),
       rb_set_levels sd
         (if os = [] then btm_remove p (rb_levels r sd) else btm_insert p os (rb_levels r sd)) r)
   }"

definition ref_remove ::
  "order_id \<Rightarrow> ref_book \<Rightarrow> (side \<times> price_ticks \<times> ref_order) option \<times> ref_book" where
  "ref_remove oid r =
     (case ref_remove_side oid Buy r of
        Some (found, r') \<Rightarrow> (Some found, r')
      | None \<Rightarrow>
          (case ref_remove_side oid Sell r of
             Some (found, r') \<Rightarrow> (Some found, r')
           | None \<Rightarrow> (None, r)))"

text \<open>\<open>iter_mut().find\<close>: the first order of the queue with this id takes the new total.\<close>

fun reduce_in :: "order_id \<Rightarrow> quantity_lots \<Rightarrow> ref_order list \<Rightarrow> ref_order list option" where
  "reduce_in oid t [] = None"
| "reduce_in oid t (x # os) =
     (if r_id x = oid then Some (x\<lparr>r_total := t\<rparr> # os)
      else do { os' \<leftarrow> reduce_in oid t os; Some (x # os') })"

fun reduce_levels :: "order_id \<Rightarrow> quantity_lots \<Rightarrow> ref_levels \<Rightarrow> ref_levels option" where
  "reduce_levels oid t [] = None"
| "reduce_levels oid t ((p, os) # m) =
     (case reduce_in oid t os of
        Some os' \<Rightarrow> Some ((p, os') # m)
      | None \<Rightarrow> do { m' \<leftarrow> reduce_levels oid t m; Some ((p, os) # m') })"

definition ref_reduce_total :: "order_id \<Rightarrow> quantity_lots \<Rightarrow> ref_book \<Rightarrow> ref_book" where
  "ref_reduce_total oid t r =
     (case reduce_levels oid t (rb_bids r) of
        Some m \<Rightarrow> r\<lparr>rb_bids := m\<rparr>
      | None \<Rightarrow>
          (case reduce_levels oid t (rb_asks r) of
             Some m \<Rightarrow> r\<lparr>rb_asks := m\<rparr>
           | None \<Rightarrow> r))"

definition ref_get :: "order_id \<Rightarrow> ref_book \<Rightarrow> (side \<times> price_ticks \<times> ref_order) option" where
  "ref_get oid r =
     (case find_level oid (rb_bids r) of
        Some (p, x, _) \<Rightarrow> Some (Buy, p, x)
      | None \<Rightarrow>
          (case find_level oid (rb_asks r) of
             Some (p, x, _) \<Rightarrow> Some (Sell, p, x)
           | None \<Rightarrow> None))"

partial_function (option) ref_match_level ::
  "price_ticks \<Rightarrow> ref_order list \<Rightarrow> nat \<Rightarrow> ref_fill list \<Rightarrow>
   (ref_order list \<times> nat \<times> ref_fill list) option" where
  "ref_match_level price orders rem fills =
     (if 0 < rem then
        (case orders of
           [] \<Rightarrow> Some (orders, rem, fills)
         | maker # rest \<Rightarrow>
             (let traded = min rem (ref_remaining maker);
                  maker' = maker\<lparr>r_filled := wrapping_add 64 (r_filled maker) traded\<rparr>;
                  maker_remaining = ref_remaining maker'
              in ref_match_level price (if maker_remaining = 0 then rest else maker' # rest)
                   (rem - traded)
                   (fills @ [\<lparr>rf_maker = r_id maker', rf_price = price, rf_qty = traded,
                              rf_rest = maker_remaining\<rparr>])))
      else Some (orders, rem, fills))"

definition ref_best :: "ref_book \<Rightarrow> side \<Rightarrow> price_ticks option" where
  "ref_best r sd =
     (case sd of
        Buy \<Rightarrow> map_option fst (btm_last (rb_bids r))
      | Sell \<Rightarrow> map_option fst (btm_first (rb_asks r)))"

partial_function (option) ref_match_loop ::
  "side \<Rightarrow> price_ticks \<Rightarrow> ref_book \<Rightarrow> nat \<Rightarrow> ref_fill list \<Rightarrow>
   (ref_book \<times> nat \<times> ref_fill list) option" where
  "ref_match_loop maker_side limit r rem fills =
     (if 0 < rem then
        (case ref_best r maker_side of
           None \<Rightarrow> Some (r, rem, fills)
         | Some price \<Rightarrow>
             if \<not> (case maker_side of Buy \<Rightarrow> limit \<le> price | Sell \<Rightarrow> price \<le> limit)
             then Some (r, rem, fills)
             else do {
               orders \<leftarrow> btm_get (rb_levels r maker_side) price;
               (orders', rem', fills') \<leftarrow> ref_match_level price orders rem fills;
               ref_match_loop maker_side limit
                 (rb_set_levels maker_side
                   (if orders' = [] then btm_remove price (rb_levels r maker_side)
                    else btm_insert price orders' (rb_levels r maker_side)) r)
                 rem' fills'
             })
      else Some (r, rem, fills))"

definition ref_match_order ::
  "ref_book \<Rightarrow> side \<Rightarrow> price_ticks \<Rightarrow> quantity_lots \<Rightarrow> ref_fill list \<Rightarrow>
   (quantity_lots \<times> ref_book \<times> ref_fill list) option" where
  "ref_match_order r taker_side limit quantity fills = do {
     (r', rem, fills') \<leftarrow> ref_match_loop (opposite taker_side) limit r quantity fills;
     Some (quantity - rem, r', fills')
   }"

definition canonical_orders :: "ref_order list \<Rightarrow> (order_id \<times> quantity_lots \<times> nat) list" where
  "canonical_orders os = map (\<lambda>x. (r_id x, ref_remaining x, r_priority x)) os"

definition ref_snapshot :: "ref_book \<Rightarrow> book_row list" where
  "ref_snapshot r =
     map (\<lambda>(p, os). (Buy, p, canonical_orders os)) (rev (rb_bids r)) @
     map (\<lambda>(p, os). (Sell, p, canonical_orders os)) (rb_asks r)"

fun node_rows :: "order_node list \<Rightarrow> (order_id \<times> quantity_lots \<times> nat) list option" where
  "node_rows [] = Some []"
| "node_rows (n # ns) = do {
     rest \<leftarrow> remaining n; rows \<leftarrow> node_rows ns; Some ((o_id n, rest, o_priority n) # rows)
   }"

fun canonical_rows :: "(side \<times> price_ticks \<times> order_node list) list \<Rightarrow> book_row list option" where
  "canonical_rows [] = Some []"
| "canonical_rows ((sd, p, ns) # rows) = do {
     os \<leftarrow> node_rows ns; rest \<leftarrow> canonical_rows rows; Some ((sd, p, os) # rest)
   }"

definition book_rows :: "'s slab_ops \<Rightarrow> 's order_book \<Rightarrow> book_row list option" where
  "book_rows S b = do { rows \<leftarrow> book_snapshot S b; canonical_rows rows }"

section \<open>The relation to the queues\<close>

definition ref_of :: "new_order \<Rightarrow> ref_order" where
  "ref_of d = \<lparr>r_id = o_id d, r_priority = o_priority d, r_total = o_total d, r_filled = o_filled d\<rparr>"

definition ref_fill_of :: "fill \<Rightarrow> ref_fill" where
  "ref_fill_of f = \<lparr>rf_maker = f_maker f, rf_price = f_price f, rf_qty = f_qty f, rf_rest = f_rest f\<rparr>"

definition ref_level :: "new_order list \<Rightarrow> ref_order list option" where
  "ref_level os = (if os = [] then None else Some (map ref_of os))"

definition ref_sim :: "abook \<Rightarrow> ref_book \<Rightarrow> bool" where
  "ref_sim A r \<longleftrightarrow>
     (\<forall>sd. btm_ok (rb_levels r sd) \<and> (\<forall>p. btm_get (rb_levels r sd) p = ref_level (A sd p)))"

text \<open>The queues hold exactly the resting orders, each once and under its own side and price.\<close>

definition view_ok :: "abook \<Rightarrow> (order_id \<rightharpoonup> new_order) \<Rightarrow> bool" where
  "view_ok A L \<longleftrightarrow>
     (\<forall>sd p d. d \<in> set (A sd p) \<longleftrightarrow> L (o_id d) = Some d \<and> o_side d = sd \<and> o_price d = p) \<and>
     (\<forall>sd p. distinct (map o_id (A sd p))) \<and>
     (\<forall>oid d. L oid = Some d \<longrightarrow> o_id d = oid \<and> o_filled d \<le> o_total d \<and> o_total d < 2 ^ 64)"

lemma ref_of_simps [simp]:
  "r_id (ref_of d) = o_id d" "r_priority (ref_of d) = o_priority d"
  "r_total (ref_of d) = o_total d" "r_filled (ref_of d) = o_filled d"
  by (simp_all add: ref_of_def)

lemma ref_of_upd [simp]:
  "(ref_of d)\<lparr>r_filled := x\<rparr> = ref_of (d\<lparr>o_filled := x\<rparr>)"
  "(ref_of d)\<lparr>r_total := x\<rparr> = ref_of (d\<lparr>o_total := x\<rparr>)"
  by (simp_all add: ref_of_def)

lemma ref_remaining_of [simp]: "o_filled d \<le> o_total d \<Longrightarrow> ref_remaining (ref_of d) = open_lots d"
  by (simp add: ref_remaining_def open_lots_def)

lemma rb_levels_set [simp]:
  "rb_levels (rb_set_levels sd m r) sd' = (if sd' = sd then m else rb_levels r sd')"
  by (cases sd; cases sd'; simp)

lemma ref_sim_upd:
  assumes "ref_sim A r"
  shows "ref_sim (upd_queue sd p (\<lambda>_. os) A)
    (rb_set_levels sd
      (if os = [] then btm_remove p (rb_levels r sd)
       else btm_insert p (map ref_of os) (rb_levels r sd)) r)"
  using assms by (auto simp: ref_sim_def upd_queue_apply btm_get_insert btm_get_remove ref_level_def)

lemma ref_sim_ladder:
  assumes "ref_sim A r"
  shows "map fst (case sd of Buy \<Rightarrow> rev (rb_bids r) | Sell \<Rightarrow> rb_asks r) = ladder A sd"
proof -
  have "btm_ok (rb_levels r sd)" "{p. btm_get (rb_levels r sd) p \<noteq> None} = {p. A sd p \<noteq> []}" for sd
    using assms by (auto simp: ref_sim_def ref_level_def)
  then have "map fst (rb_levels r sd) = sorted_list_of_set {p. A sd p \<noteq> []}" for sd
    using btm_keys_sorted [of "rb_levels r sd"] by simp
  from this [of Buy] this [of Sell] show ?thesis
    by (cases sd) (simp_all flip: rev_map)
qed

lemma ref_sim_finite:
  assumes "ref_sim A r" shows "finite {p. A sd p \<noteq> []}"
proof -
  have "{p. A sd p \<noteq> []} = {p. btm_get (rb_levels r sd) p \<noteq> None}"
    using assms by (auto simp: ref_sim_def ref_level_def)
  also have "\<dots> = fst ` set (rb_levels r sd)" unfolding btm_get_dom by simp
  finally show ?thesis by simp
qed

lemma ref_best_ladder:
  assumes "ref_sim A r"
  shows "ref_best r sd = (case ladder A sd of [] \<Rightarrow> None | p # _ \<Rightarrow> Some p)"
proof -
  have "ref_best r sd =
      (case map fst (case sd of Buy \<Rightarrow> rev (rb_bids r) | Sell \<Rightarrow> rb_asks r) of
         [] \<Rightarrow> None | p # _ \<Rightarrow> Some p)"
    by (cases sd; cases "rb_bids r" rule: rev_cases; cases "rb_asks r")
      (auto simp: ref_best_def btm_first_def btm_last_def)
  then show ?thesis by (simp add: ref_sim_ladder [OF assms])
qed

section \<open>Matching\<close>

lemma ref_match_level_ok:
  assumes "\<forall>d \<in> set os. o_filled d \<le> o_total d \<and> o_total d < 2 ^ 64"
    "take_level p rem os = (fs, os', r)"
  shows "ref_match_level p (map ref_of os) rem fills =
    Some (map ref_of os', r, fills @ map ref_fill_of fs)"
  using assms
proof (induction os arbitrary: rem fills fs)
  case Nil
  then show ?case by (subst ref_match_level.simps) auto
next
  case (Cons d os)
  show ?case
  proof (cases "rem = 0")
    case True
    then show ?thesis using Cons.prems by (subst ref_match_level.simps) auto
  next
    case False
    define t where "t = min rem (open_lots d)"
    have d: "o_filled d \<le> o_total d" "o_total d < 2 ^ 64" using Cons.prems(1) by simp_all
    then have "wrapping_add 64 (o_filled d) t = o_filled d + t"
      by (auto simp: t_def wrapping_add_def open_lots_def)
    moreover have rest: "ref_remaining (ref_of (d\<lparr>o_filled := o_filled d + t\<rparr>)) = open_lots d - t"
      using d by (simp add: t_def open_lots_def ref_remaining_def)
    ultimately have step: "ref_match_level p (map ref_of (d # os)) rem fills =
        ref_match_level p
          (if open_lots d - t = 0 then map ref_of os
           else ref_of (d\<lparr>o_filled := o_filled d + t\<rparr>) # map ref_of os)
          (rem - t) (fills @ [ref_fill_of (fill_of p d t)])"
      using False d
      by (subst ref_match_level.simps) (simp add: t_def [symmetric] Let_def ref_fill_of_def fill_of_def)
    show ?thesis
    proof (cases "open_lots d \<le> rem")
      case True
      then have t: "t = open_lots d" by (simp add: t_def)
      obtain gs where gs: "take_level p (rem - t) os = (gs, os', r)" "fs = fill_of p d t # gs"
        using Cons.prems(2) False True by (cases "take_level p (rem - t) os") (simp add: t)
      then show ?thesis
        using step Cons.IH [OF _ gs(1), of "fills @ [ref_fill_of (fill_of p d t)]"] Cons.prems(1)
        by (simp add: t)
    next
      case less: False
      then have t: "t = rem" by (simp add: t_def)
      have "ref_match_level p os1 0 fills1 = Some (os1, 0, fills1)" for os1 fills1
        by (subst ref_match_level.simps) simp
      then show ?thesis using step less False t Cons.prems(2) by auto
    qed
  qed
qed

definition sound_queues :: "abook \<Rightarrow> bool" where
  "sound_queues A \<longleftrightarrow> (\<forall>sd p. \<forall>d \<in> set (A sd p). o_filled d \<le> o_total d \<and> o_total d < 2 ^ 64)"

lemma view_ok_sound: "view_ok A L \<Longrightarrow> sound_queues A"
  by (auto simp: view_ok_def sound_queues_def)

lemma ref_match_loop_zero: "ref_match_loop sd l r 0 fills = Some (r, 0, fills)"
  by (subst ref_match_loop.simps) simp

lemma eligible_case: "(case sd of Buy \<Rightarrow> l \<le> p | Sell \<Rightarrow> p \<le> l) = eligible sd l p"
  by (cases sd) simp_all

lemma ref_match_loop_ok:
  assumes "ref_sim A r" "sound_queues A" "eligible_prices A sd l = ps" "sweep sd ps rem A = (fs, A', q)"
  shows "\<exists>r'. ref_match_loop sd l r rem fills = Some (r', q, fills @ map ref_fill_of fs) \<and> ref_sim A' r'"
  using assms
proof (induction ps arbitrary: A r rem fills fs)
  case Nil
  have "ref_best r sd = None \<or> (\<exists>p. ref_best r sd = Some p \<and> \<not> eligible sd l p)"
    using Nil.prems(3)
    by (auto simp: ref_best_ladder [OF Nil.prems(1)] eligible_prices_def split: list.splits if_splits)
  then have "ref_match_loop sd l r rem fills = Some (r, rem, fills)"
    by (subst ref_match_loop.simps) (auto simp: eligible_case)
  then show ?case using Nil.prems by auto
next
  case (Cons p ps)
  obtain ps' where l: "ladder A sd = p # ps'" "eligible sd l p" "takeWhile (eligible sd l) ps' = ps"
    using Cons.prems(3) by (cases "ladder A sd") (auto simp: eligible_prices_def split: if_splits)
  obtain fs1 os1 r1 where t1: "take_level p rem (A sd p) = (fs1, os1, r1)" by (metis prod_cases3)
  obtain fs2 where t2: "sweep sd ps r1 (upd_queue sd p (\<lambda>_. os1) A) = (fs2, A', q)" "fs = fs1 @ fs2"
    using Cons.prems(4) t1 by (auto split: prod.splits)
  show ?case
  proof (cases "rem = 0")
    case True
    then show ?thesis
      using Cons.prems(1,4) by (auto simp: ref_match_loop_zero simp del: sweep.simps)
  next
    case False
    have best: "ref_best r sd = Some p" by (simp add: ref_best_ladder [OF Cons.prems(1)] l)
    have fin: "finite {p. A sd p \<noteq> []}" by (rule ref_sim_finite [OF Cons.prems(1)])
    have "p \<in> set (ladder A sd)" by (simp add: l(1))
    then have "A sd p \<noteq> []" using fin by (cases sd) auto
    then have get: "btm_get (rb_levels r sd) p = Some (map ref_of (A sd p))"
      using Cons.prems(1) by (simp add: ref_sim_def ref_level_def)
    have lvl: "ref_match_level p (map ref_of (A sd p)) rem fills =
        Some (map ref_of os1, r1, fills @ map ref_fill_of fs1)"
      using Cons.prems(2) by (intro ref_match_level_ok [OF _ t1]) (auto simp: sound_queues_def)
    define r' where "r' = rb_set_levels sd
        (if os1 = [] then btm_remove p (rb_levels r sd)
         else btm_insert p (map ref_of os1) (rb_levels r sd)) r"
    have sim': "ref_sim (upd_queue sd p (\<lambda>_. os1) A) r'"
      unfolding r'_def by (rule ref_sim_upd [OF Cons.prems(1)])
    have step: "ref_match_loop sd l r rem fills =
        ref_match_loop sd l r' r1 (fills @ map ref_fill_of fs1)"
      using False l(2) lvl by (subst ref_match_loop.simps) (simp add: best eligible_case get r'_def)
    show ?thesis
    proof (cases "r1 = 0")
      case True
      then show ?thesis using step sim' t2 by (auto simp: ref_match_loop_zero)
    next
      case False
      then have os1: "os1 = []" using take_level_rest [OF t1] by simp
      then have "eligible_prices (upd_queue sd p (\<lambda>_. os1) A) sd l = ps"
        using ladder_clear [OF l(1) fin] l(3) by (simp add: eligible_prices_def)
      moreover have "sound_queues (upd_queue sd p (\<lambda>_. os1) A)"
        using Cons.prems(2) by (auto simp: sound_queues_def upd_queue_apply os1)
      ultimately show ?thesis
        using Cons.IH [OF sim' _ _ t2(1), of "fills @ map ref_fill_of fs1"] step t2(2) by auto
    qed
  qed
qed

section \<open>Insertion, removal and reduction\<close>

lemma ref_insert_ok:
  assumes "ref_sim A r"
  shows "ref_sim (upd_queue sd p (\<lambda>os. os @ [d]) A) (ref_insert sd p (ref_of d) r)"
  using assms
  by (auto simp: ref_sim_def ref_insert_def Let_def upd_queue_apply btm_get_insert ref_level_def)

lemma take_order_None: "oid \<notin> o_id ` set os \<Longrightarrow> take_order oid (map ref_of os) = None"
  by (induction os) auto

lemma drop_order_absent: "oid \<notin> o_id ` set os \<Longrightarrow> drop_order oid os = os"
  by (auto simp: drop_order_def filter_id_conv)

lemma take_order_Some:
  "d \<in> set os \<Longrightarrow> distinct (map o_id os) \<Longrightarrow>
   take_order (o_id d) (map ref_of os) = Some (ref_of d, map ref_of (drop_order (o_id d) os))"
proof (induction os)
  case (Cons e os)
  show ?case
  proof (cases "e = d")
    case True
    then show ?thesis using Cons.prems drop_order_absent [of "o_id d" os] by (simp add: drop_order_def)
  next
    case False
    then have "d \<in> set os" using Cons.prems by simp
    moreover from this have "o_id e \<noteq> o_id d" using Cons.prems(2) by (auto simp: image_iff)
    ultimately show ?thesis using Cons by (simp add: drop_order_def)
  qed
qed simp

lemma reduce_in_None: "oid \<notin> o_id ` set os \<Longrightarrow> reduce_in oid t (map ref_of os) = None"
  by (induction os) auto

lemma upd_order_absent: "oid \<notin> o_id ` set os \<Longrightarrow> upd_order oid f os = os"
  by (auto simp: upd_order_def intro!: map_idI)

lemma reduce_in_Some:
  "d \<in> set os \<Longrightarrow> distinct (map o_id os) \<Longrightarrow>
   reduce_in (o_id d) t (map ref_of os) =
     Some (map ref_of (upd_order (o_id d) (\<lambda>_. d\<lparr>o_total := t\<rparr>) os))"
proof (induction os)
  case (Cons e os)
  show ?case
  proof (cases "e = d")
    case True
    then show ?thesis
      using Cons.prems upd_order_absent [of "o_id d" os "\<lambda>_. d\<lparr>o_total := t\<rparr>"] by (simp add: upd_order_def)
  next
    case False
    then have "d \<in> set os" using Cons.prems by simp
    moreover from this have "o_id e \<noteq> o_id d" using Cons.prems(2) by (auto simp: image_iff)
    ultimately show ?thesis using Cons by (simp add: upd_order_def)
  qed
qed simp

lemma find_level_None:
  "\<forall>e \<in> set m. take_order oid (snd e) = None \<Longrightarrow> find_level oid m = None"
  by (induction m) (auto split: option.splits)

lemma find_level_Some:
  assumes "distinct (map fst m)" "(p, os) \<in> set m" "take_order oid os = Some (x, os')"
    "\<forall>e \<in> set m. fst e \<noteq> p \<longrightarrow> take_order oid (snd e) = None"
  shows "find_level oid m = Some (p, x, os')"
  using assms
proof (induction m)
  case (Cons e m)
  obtain p1 os1 where e: "e = (p1, os1)" by (cases e)
  show ?case
  proof (cases "p1 = p")
    case True
    then have "os1 = os" using Cons.prems(1,2) by (auto simp: e image_iff)
    then show ?thesis using Cons.prems(3) True by (simp add: e)
  next
    case False
    then have "take_order oid os1 = None" using Cons.prems(4) by (simp add: e)
    then show ?thesis using Cons False by (simp add: e)
  qed
qed simp

lemma reduce_levels_None:
  "\<forall>e \<in> set m. reduce_in oid t (snd e) = None \<Longrightarrow> reduce_levels oid t m = None"
  by (induction m) (auto split: option.splits)

lemma reduce_levels_Some:
  assumes "distinct (map fst m)" "(p, os) \<in> set m" "reduce_in oid t os = Some os'"
    "\<forall>e \<in> set m. fst e \<noteq> p \<longrightarrow> reduce_in oid t (snd e) = None"
  shows "\<exists>m'. reduce_levels oid t m = Some m' \<and> map fst m' = map fst m \<and>
    btm_get m' = (btm_get m)(p \<mapsto> os')"
  using assms
proof (induction m)
  case (Cons e m)
  obtain p1 os1 where e: "e = (p1, os1)" by (cases e)
  show ?case
  proof (cases "p1 = p")
    case True
    then have "os1 = os" using Cons.prems(1,2) by (auto simp: e image_iff)
    then show ?thesis using Cons.prems(3) True by (auto simp: e btm_get_def)
  next
    case False
    then have "reduce_in oid t os1 = None" using Cons.prems(4) by (simp add: e)
    moreover have "\<exists>m'. reduce_levels oid t m = Some m' \<and> map fst m' = map fst m \<and>
        btm_get m' = (btm_get m)(p \<mapsto> os')"
      using Cons.prems False by (intro Cons.IH) (auto simp: e)
    ultimately show ?thesis using False by (auto simp: e btm_get_Cons fun_eq_iff)
  qed
qed simp

text \<open>Where an order is: the levels of its side hold it at its price, nothing else does.\<close>

lemma view_okD:
  assumes "view_ok A L"
  shows "d \<in> set (A sd p) \<longleftrightarrow> L (o_id d) = Some d \<and> o_side d = sd \<and> o_price d = p"
    "distinct (map o_id (A sd p))" "L oid = Some d \<Longrightarrow> o_id d = oid"
    "L oid = Some d \<Longrightarrow> o_filled d \<le> o_total d" "L oid = Some d \<Longrightarrow> o_total d < 2 ^ 64"
  using assms unfolding view_ok_def by blast+

lemma view_ok_mem:
  assumes v: "view_ok A L" and d: "L oid = Some d"
  shows "d \<in> set (A (o_side d) (o_price d))" "o_id d = oid"
    "(sd, p) \<noteq> (o_side d, o_price d) \<Longrightarrow> oid \<notin> o_id ` set (A sd p)"
proof -
  show id: "o_id d = oid" by (rule view_okD(3) [OF v d])
  then show "d \<in> set (A (o_side d) (o_price d))" using d by (simp add: view_okD(1) [OF v])
  show "oid \<notin> o_id ` set (A sd p)" if "(sd, p) \<noteq> (o_side d, o_price d)"
    using that d by (auto simp: view_okD(1) [OF v])
qed

lemma view_ok_absent: "view_ok A L \<Longrightarrow> L oid = None \<Longrightarrow> oid \<notin> o_id ` set (A sd p)"
  by (auto simp: view_okD(1))

lemma ref_sim_entry:
  assumes "ref_sim A r" "e \<in> set (rb_levels r sd)"
  shows "snd e = map ref_of (A sd (fst e))"
proof -
  have "btm_get (rb_levels r sd) (fst e) = Some (snd e)"
    using assms btm_get_in_set [of "rb_levels r sd" "fst e" "snd e"] by (simp add: ref_sim_def)
  then show ?thesis using assms(1) by (auto simp: ref_sim_def ref_level_def split: if_splits)
qed

lemma find_level_absent:
  assumes sim: "ref_sim A r" and v: "\<And>p. oid \<notin> o_id ` set (A sd p)"
  shows "find_level oid (rb_levels r sd) = None" "reduce_levels oid t (rb_levels r sd) = None"
  by (intro find_level_None reduce_levels_None ballI,
      simp add: ref_sim_entry [OF sim] take_order_None reduce_in_None v)+

lemma find_level_present:
  assumes sim: "ref_sim A r" and v: "view_ok A L" and d: "L oid = Some d"
  defines "m \<equiv> rb_levels r (o_side d)" and "q \<equiv> A (o_side d) (o_price d)"
  shows "find_level oid m = Some (o_price d, ref_of d, map ref_of (drop_order oid q))"
    and "\<exists>m'. reduce_levels oid t m = Some m' \<and> map fst m' = map fst m \<and>
      btm_get m' = (btm_get m)(o_price d \<mapsto> map ref_of (upd_order oid (\<lambda>_. d\<lparr>o_total := t\<rparr>) q))"
proof -
  have ok: "btm_ok m" and get: "btm_get m p = ref_level (A (o_side d) p)" for p
    using sim by (simp_all add: ref_sim_def m_def)
  have id: "o_id d = oid" and mem: "d \<in> set q" using view_ok_mem(1,2) [OF v d] by (simp_all add: q_def)
  then have "q \<noteq> []" by auto
  then have entry: "(o_price d, map ref_of q) \<in> set m"
    using get [of "o_price d"] btm_get_in_set [OF ok] by (simp add: ref_level_def q_def)
  have dist: "distinct (map o_id q)" unfolding q_def by (rule view_okD(2) [OF v])
  have other: "oid \<notin> o_id ` set (A (o_side d) p)" if "p \<noteq> o_price d" for p
    using view_ok_mem(3) [OF v d] that by simp
  have entries: "e \<in> set m \<Longrightarrow> snd e = map ref_of (A (o_side d) (fst e))" for e
    unfolding m_def by (rule ref_sim_entry [OF sim])
  show "find_level oid m = Some (o_price d, ref_of d, map ref_of (drop_order oid q))"
    using take_order_Some [OF mem dist] unfolding id
    by (rule find_level_Some [OF btm_ok_distinct [OF ok] entry])
      (simp add: entries take_order_None other)
  show "\<exists>m'. reduce_levels oid t m = Some m' \<and> map fst m' = map fst m \<and>
      btm_get m' = (btm_get m)(o_price d \<mapsto> map ref_of (upd_order oid (\<lambda>_. d\<lparr>o_total := t\<rparr>) q))"
    using reduce_in_Some [OF mem dist] unfolding id
    by (rule reduce_levels_Some [OF btm_ok_distinct [OF ok] entry])
      (simp add: entries reduce_in_None other)
qed

lemma ref_remove_ok:
  assumes sim: "ref_sim A r" and v: "view_ok A L" and d: "L oid = Some d"
  shows "\<exists>r'. ref_remove oid r = (Some (o_side d, o_price d, ref_of d), r') \<and>
    ref_sim (upd_queue (o_side d) (o_price d) (drop_order oid) A) r'"
proof -
  let ?q = "drop_order oid (A (o_side d) (o_price d))"
  define r' where "r' = rb_set_levels (o_side d)
        (if ?q = [] then btm_remove (o_price d) (rb_levels r (o_side d))
         else btm_insert (o_price d) (map ref_of ?q) (rb_levels r (o_side d))) r"
  have "ref_remove_side oid (o_side d) r = Some ((o_side d, o_price d, ref_of d), r')"
    using find_level_present(1) [OF sim v d] by (simp add: ref_remove_side_def r'_def)
  moreover have "ref_remove_side oid Buy r = None" if "o_side d = Sell"
    using find_level_absent(1) [OF sim, of oid Buy] view_ok_mem(3) [OF v d] that
    by (simp add: ref_remove_side_def)
  ultimately have "ref_remove oid r = (Some (o_side d, o_price d, ref_of d), r')"
    by (cases "o_side d") (simp_all add: ref_remove_def)
  moreover have "ref_sim (upd_queue (o_side d) (o_price d) (drop_order oid) A) r'"
    using ref_sim_upd [OF sim, of "o_side d" "o_price d" ?q] by (simp add: r'_def upd_queue_def)
  ultimately show ?thesis by blast
qed

lemma ref_remove_absent:
  assumes "ref_sim A r" "view_ok A L" "L oid = None"
  shows "ref_remove oid r = (None, r)"
proof -
  have "ref_remove_side oid sd r = None" for sd
    using find_level_absent(1) [OF assms(1) view_ok_absent [OF assms(2,3)], of sd]
    by (simp add: ref_remove_side_def)
  then show ?thesis by (simp add: ref_remove_def)
qed

lemma ref_get_ok:
  assumes sim: "ref_sim A r" and v: "view_ok A L"
  shows "ref_get oid r = map_option (\<lambda>d. (o_side d, o_price d, ref_of d)) (L oid)"
proof (cases "L oid")
  case None
  then show ?thesis
    using find_level_absent(1) [OF sim view_ok_absent [OF v None], of Buy]
      find_level_absent(1) [OF sim view_ok_absent [OF v None], of Sell]
    by (simp add: ref_get_def)
next
  case (Some d)
  then show ?thesis
    using find_level_present(1) [OF sim v Some] find_level_absent(1) [OF sim, of oid Buy]
      view_ok_mem(3) [OF v Some]
    by (cases "o_side d") (auto simp: ref_get_def)
qed

lemma ref_reduce_ok:
  assumes sim: "ref_sim A r" and v: "view_ok A L" and d: "L oid = Some d"
  shows "ref_sim (upd_queue (o_side d) (o_price d) (upd_order oid (\<lambda>_. d\<lparr>o_total := t\<rparr>)) A)
    (ref_reduce_total oid t r)"
proof -
  let ?sd = "o_side d" and ?q = "A (o_side d) (o_price d)"
  obtain m' where m': "reduce_levels oid t (rb_levels r ?sd) = Some m'"
    "map fst m' = map fst (rb_levels r ?sd)"
    "btm_get m' = (btm_get (rb_levels r ?sd))(o_price d \<mapsto>
       map ref_of (upd_order oid (\<lambda>_. d\<lparr>o_total := t\<rparr>) ?q))"
    using find_level_present(2) [OF sim v d] by blast
  have "reduce_levels oid t (rb_bids r) = None" if "?sd = Sell"
    using find_level_absent(2) [OF sim, of oid Buy] view_ok_mem(3) [OF v d] that by simp
  then have "ref_reduce_total oid t r = rb_set_levels ?sd m' r"
    using m'(1) by (cases ?sd) (simp_all add: ref_reduce_total_def)
  moreover have "?q \<noteq> []" using view_ok_mem(1) [OF v d] by auto
  moreover have "btm_ok m'" using sim m'(2) by (simp add: ref_sim_def btm_ok_def)
  ultimately show ?thesis
    using sim by (auto simp: ref_sim_def m'(3) upd_queue_apply ref_level_def upd_order_def)
qed

end
