(* ===== verification/Book_Views.thy ===== *)
theory Book_Views
  imports Reference
begin

text \<open>
  Reading a book as a whole: the canonical rows of both books (\<open>book_rows\<close> and
  \<open>ReferenceBook::snapshot\<close>) are the rows of the queues, and the structural self check
  \<open>check_invariants\<close> accepts every well-formed book whose queues hold open orders in priority order
  and do not cross.
\<close>

definition canonical_queue :: "new_order list \<Rightarrow> (order_id \<times> quantity_lots \<times> nat) list" where
  "canonical_queue os = map (\<lambda>d. (o_id d, open_lots d, o_priority d)) os"

definition rows_of :: "abook \<Rightarrow> book_row list" where
  "rows_of A =
     map (\<lambda>p. (Buy, p, canonical_queue (A Buy p))) (ladder A Buy) @
     map (\<lambda>p. (Sell, p, canonical_queue (A Sell p))) (ladder A Sell)"

text \<open>The queues hold open orders only, and in increasing priority.\<close>

definition fifo :: "abook \<Rightarrow> bool" where
  "fifo A \<longleftrightarrow>
     (\<forall>sd p. (\<forall>d \<in> set (A sd p). 0 < open_lots d) \<and> sorted_wrt (<) (map o_priority (A sd p)))"

definition uncrossed :: "abook \<Rightarrow> bool" where
  "uncrossed A \<longleftrightarrow> (\<forall>bid ask. A Buy bid \<noteq> [] \<longrightarrow> A Sell ask \<noteq> [] \<longrightarrow> bid < ask)"

section \<open>Rows\<close>

lemma ref_snapshot_rows:
  assumes sim: "ref_sim A r" and sound: "sound_queues A"
  shows "ref_snapshot r = rows_of A"
proof -
  have canon: "canonical_orders (map ref_of (A sd p)) = canonical_queue (A sd p)" for sd p
    using sound by (auto simp: canonical_orders_def canonical_queue_def sound_queues_def)
  have key: "map (\<lambda>(p, os). (sd, p, canonical_orders os)) es =
      map (\<lambda>p. (sd, p, canonical_queue (A sd p))) (map fst es)"
    if "set es \<subseteq> set (rb_levels r sd)" for es sd
    using that ref_sim_entry [OF sim] by (fastforce simp: canon)
  have lad: "ladder A Buy = map fst (rev (rb_bids r))" "ladder A Sell = map fst (rb_asks r)"
    using ref_sim_ladder [OF sim, of Buy] ref_sim_ladder [OF sim, of Sell] by simp_all
  show ?thesis
    unfolding ref_snapshot_def rows_of_def lad
    using key [of "rev (rb_bids r)" Buy] key [of "rb_asks r" Sell] by (simp only: set_rev rb_levels.simps subset_refl)
qed

lemma node_rows_ok:
  "\<forall>n \<in> set ns. o_filled n \<le> o_total n \<Longrightarrow>
   node_rows ns = Some (canonical_queue (map order_of ns))"
proof (induction ns)
  case (Cons n ns)
  then have "remaining n = Some (open_lots n)" by simp
  with Cons show ?case by (simp add: canonical_queue_def del: remaining_Some)
qed (simp add: canonical_queue_def)

lemma canonical_rows_append:
  "canonical_rows xs = Some as \<Longrightarrow> canonical_rows ys = Some bs \<Longrightarrow>
   canonical_rows (xs @ ys) = Some (as @ bs)"
  by (induction xs arbitrary: as) (auto simp: Option.bind_eq_Some_conv)

context slab_store
begin

lemma book_view:
  assumes rep: "book_rep S b Q"
  shows "view_ok (book_queue S b) (book_lookup S b)"
proof -
  have "o_id d = oid \<and> o_filled d \<le> o_total d \<and> o_total d < 2 ^ 64"
    if "book_lookup S b oid = Some d" for oid d
    using that book_repD(3) [OF rep] unfolding lookup_rep [OF rep] sound_orders_def by blast
  then show ?thesis
    unfolding view_ok_def queue_mem [OF rep] using queue_ids_distinct [OF rep] by blast
qed

lemma level_nodes:
  assumes rep: "book_rep S b Q"
  obtains ns where "level_orders S b sd p = Some ns" "map order_of ns = book_queue S b sd p"
    "\<forall>n \<in> set ns. o_filled n \<le> o_total n \<and> o_total n < 2 ^ 64"
    "\<forall>n \<in> set ns. \<exists>k. bk_index b (o_id n) = Some k \<and> slab_get S (bk_orders b) k = Some n"
proof -
  let ?h = "slab_get S (bk_orders b)"
  define ns where "ns = map (the \<circ> ?h) (Q sd p)"
  have nodes: "\<exists>k. ?h k = Some n" if "n \<in> set ns" for n
    using that dlseg_mem [OF book_repD(7) [OF rep]] by (fastforce simp: ns_def)
  have "level_orders S b sd p = Some ns" by (simp add: ns_def level_orders_rep [OF rep])
  moreover from this have "map order_of ns = book_queue S b sd p" by (simp add: book_queue_def)
  moreover have "\<forall>n \<in> set ns. o_filled n \<le> o_total n \<and> o_total n < 2 ^ 64"
    using nodes sound_node [OF book_repD(3) [OF rep]] by blast
  moreover have "\<forall>n \<in> set ns. \<exists>k. bk_index b (o_id n) = Some k \<and> ?h k = Some n"
    using nodes book_repD(4) [OF rep] by (fastforce simp: indexed_def orders_of_def)
  ultimately show ?thesis by (rule that)
qed

lemma level_rows_ok:
  assumes rep: "book_rep S b Q"
  shows "\<exists>rows. level_rows S b sd es = Some rows \<and>
    canonical_rows rows = Some (map (\<lambda>p. (sd, p, canonical_queue (book_queue S b sd p))) (map fst es))"
proof (induction es)
  case (Cons e es)
  obtain p lvl where e: "e = (p, lvl)" by (cases e)
  obtain ns where ns: "level_orders S b sd p = Some ns" "map order_of ns = book_queue S b sd p"
    "\<forall>n \<in> set ns. o_filled n \<le> o_total n \<and> o_total n < 2 ^ 64"
    "\<forall>n \<in> set ns. \<exists>k. bk_index b (o_id n) = Some k \<and> slab_get S (bk_orders b) k = Some n"
    by (rule level_nodes [OF rep])
  from ns(2,3) have "node_rows ns = Some (canonical_queue (book_queue S b sd p))"
    using node_rows_ok [of ns] by simp
  moreover obtain rows where "level_rows S b sd es = Some rows"
    "canonical_rows rows =
       Some (map (\<lambda>p. (sd, p, canonical_queue (book_queue S b sd p))) (map fst es))"
    using Cons.IH by blast
  ultimately show ?case using ns(1) by (simp add: e)
qed simp

lemma book_rows_ok:
  assumes rep: "book_rep S b Q"
  shows "book_rows S b = Some (rows_of (book_queue S b))"
proof -
  obtain xs ys where xs: "level_rows S b Buy (levels_view b Buy) = Some xs"
      "canonical_rows xs = Some (map (\<lambda>p. (Buy, p, canonical_queue (book_queue S b Buy p)))
        (map fst (levels_view b Buy)))"
    and ys: "level_rows S b Sell (levels_view b Sell) = Some ys"
      "canonical_rows ys = Some (map (\<lambda>p. (Sell, p, canonical_queue (book_queue S b Sell p)))
        (map fst (levels_view b Sell)))"
    using level_rows_ok [OF rep] by metis
  show ?thesis
    using canonical_rows_append [OF xs(2) ys(2)] xs(1) ys(1)
    unfolding levels_view_ladder [OF rep]
    by (simp add: book_rows_def book_snapshot_def rows_of_def del: levels_view.simps)
qed

section \<open>The self check\<close>

lemma sum_remaining_ok:
  assumes "\<forall>n \<in> set ns. o_filled n \<le> o_total n" "lots_of (map order_of ns) < 2 ^ 64"
  shows "sum_remaining ns = Some (lots_of (map order_of ns))"
  using assms
proof (induction ns)
  case (Cons n ns)
  then have "remaining n = Some (open_lots n)" "sum_remaining ns = Some (lots_of (map order_of ns))"
    by (simp_all add: lots_of_def)
  with Cons.prems(2) show ?case
    by (simp add: lots_of_def wrapping_add_def del: remaining_Some)
qed (simp add: lots_of_def)

lemma check_orders_ok:
  assumes "\<forall>n \<in> set ns. o_side n = sd \<and> o_price n = p \<and> o_filled n \<le> o_total n \<and> 0 < open_lots n"
    "\<forall>n \<in> set ns. \<exists>k. bk_index b (o_id n) = Some k \<and> slab_get S (bk_orders b) k = Some n"
    "sorted_wrt (<) (map o_priority ns)"
    "\<forall>n \<in> set ns. case prio of None \<Rightarrow> True | Some q \<Rightarrow> q < o_priority n"
  shows "check_orders S b sd p prio ns = Some (Inr ())"
  using assms
proof (induction ns arbitrary: prio)
  case (Cons n ns)
  then have "remaining n = Some (open_lots n)" by simp
  moreover have "check_orders S b sd p (Some (o_priority n)) ns = Some (Inr ())"
    using Cons.prems by (intro Cons.IH) auto
  ultimately show ?case
    using Cons.prems by (auto simp del: remaining_Some split: option.splits)
qed simp

lemma check_levels_ok:
  assumes rep: "book_rep S b Q" and f: "fifo (book_queue S b)"
    and es: "set es \<subseteq> set (bk_levels b sd)"
  shows "check_levels S b sd es seen =
    Some (Inr (seen + (\<Sum>e\<leftarrow>es. length (book_queue S b sd (fst e)))))"
  using es
proof (induction es arbitrary: seen)
  case (Cons e es)
  obtain p level where e: "e = (p, level)" by (cases e)
  obtain ns where ns: "level_orders S b sd p = Some ns" "map order_of ns = book_queue S b sd p"
    "\<forall>n \<in> set ns. o_filled n \<le> o_total n \<and> o_total n < 2 ^ 64"
    "\<forall>n \<in> set ns. \<exists>k. bk_index b (o_id n) = Some k \<and> slab_get S (bk_orders b) k = Some n"
    by (rule level_nodes [OF rep])
  have lr: "levels_rep (orders_of (slab_get S (bk_orders b))) (Q sd) (bk_levels b sd)"
    by (rule book_repD(5) [OF rep])
  then have "btm_get (bk_levels b sd) p = Some level"
    using Cons.prems btm_get_in_set [of "bk_levels b sd" p level] by (simp add: levels_rep_def e)
  then have lvl: "level_of (orders_of (slab_get S (bk_orders b))) (Q sd p) = Some level"
    and lots: "lots_of (book_queue S b sd p) < 2 ^ 64"
    using lr by (simp_all add: levels_rep_def flip: queue_lots_rep [OF rep])
  have len: "length ns = length (book_queue S b sd p)" by (simp flip: ns(2))
  have "pl_count level = length ns" "pl_count level \<noteq> 0" "pl_total level = lots_of (map order_of ns)"
    using lvl by (auto simp: level_of_def len ns(2) queue_length_rep [OF rep] queue_lots_rep [OF rep]
        split: if_splits)
  moreover have "sum_remaining ns = Some (lots_of (map order_of ns))"
    using ns(3) lots by (intro sum_remaining_ok) (simp_all add: ns(2))
  moreover have "check_orders S b sd p None ns = Some (Inr ())"
  proof (rule check_orders_ok [OF _ ns(4)])
    have mem: "order_of n \<in> set (book_queue S b sd p)" if "n \<in> set ns" for n
      using that by (simp flip: ns(2))
    then have "0 < open_lots n" "o_side n = sd" "o_price n = p" if "n \<in> set ns" for n
      using f that queue_mem [OF rep, of "order_of n" sd p] by (fastforce simp: fifo_def)+
    then show "\<forall>n \<in> set ns. o_side n = sd \<and> o_price n = p \<and> o_filled n \<le> o_total n \<and> 0 < open_lots n"
      using ns(3) by blast
    have "map o_priority ns = map o_priority (book_queue S b sd p)" by (simp flip: ns(2))
    then show "sorted_wrt (<) (map o_priority ns)" using f by (simp add: fifo_def)
  qed simp
  ultimately show ?case
    using Cons ns(1) len by (simp add: e)
qed simp

text \<open>Every resting order is in exactly one queue, so the queue lengths add up to the live count.\<close>

lemma queue_lengths:
  assumes rep: "book_rep S b Q"
  shows "(\<Sum>p\<leftarrow>ladder (book_queue S b) Buy. length (book_queue S b Buy p)) +
    (\<Sum>p\<leftarrow>ladder (book_queue S b) Sell. length (book_queue S b Sell p)) = slab_len S (bk_orders b)"
proof -
  let ?A = "book_queue S b"
  define K where "K sd = concat (map (Q sd) (ladder ?A sd))" for sd
  have lad: "set (ladder ?A sd) = {p. Q sd p \<noteq> []}" "distinct (ladder ?A sd)" for sd
    using finite_prices [OF rep, of sd] queue_length_rep [OF rep]
    by (cases sd; auto simp: book_queue_rep [OF rep])+
  have un: "k \<in> set (Q sd p) \<Longrightarrow> k \<in> set (Q sd' p') \<Longrightarrow> sd = sd' \<and> p = p'" for k sd p sd' p'
    by (rule placed_unique [OF book_repD(2) [OF rep]])
  have mem: "k \<in> set (K sd) \<longleftrightarrow> (\<exists>p. k \<in> set (Q sd p))" for k sd
    by (auto simp: K_def lad) (metis empty_iff list.set(1))
  have dist: "distinct (K sd)" for sd
    unfolding K_def
  proof (rule distinct_concat)
    show "distinct (map (Q sd) (ladder ?A sd))"
    proof (subst distinct_map, intro conjI inj_onI lad)
      fix p p' assume "p \<in> set (ladder ?A sd)" "Q sd p = Q sd p'"
      then have "hd (Q sd p) \<in> set (Q sd p)" "hd (Q sd p) \<in> set (Q sd p')" by (auto simp: lad)
      then show "p = p'" using un by blast
    qed
  next
    fix ys zs assume "ys \<in> set (map (Q sd) (ladder ?A sd))" "zs \<in> set (map (Q sd) (ladder ?A sd))" "ys \<noteq> zs"
    then obtain p p' where "ys = Q sd p" "zs = Q sd p'" by auto
    then show "set ys \<inter> set zs = {}" using un \<open>ys \<noteq> zs\<close> by blast
  qed (use book_repD(6) [OF rep] in auto)
  have "set (K Buy) \<inter> set (K Sell) = {}" using un [of _ Buy _ Sell] by (auto simp: mem)
  then have "distinct (K Buy @ K Sell)" using dist by simp
  moreover have "set (K Buy @ K Sell) = dom (slab_get S (bk_orders b))"
  proof -
    have "k \<in> dom (slab_get S (bk_orders b)) \<longleftrightarrow> (\<exists>sd p. k \<in> set (Q sd p))" for k
      using book_repD(2) [OF rep] unfolding placed_def dom_orders_of [symmetric] by blast
    moreover have "k \<in> set (K Buy @ K Sell) \<longleftrightarrow> (\<exists>sd p. k \<in> set (Q sd p))" for k
      by (simp add: mem) (metis side.exhaust)
    ultimately show ?thesis by blast
  qed
  ultimately have "slab_len S (bk_orders b) = length (K Buy @ K Sell)"
    using len_card [of "bk_orders b"] distinct_card [of "K Buy @ K Sell"] by simp
  then show ?thesis
    by (simp add: K_def length_concat queue_length_rep [OF rep] o_def del: ladder.simps)
qed

lemma index_card: "book_rep S b Q \<Longrightarrow> card (dom (bk_index b)) = slab_len S (bk_orders b)"
proof -
  assume rep: "book_rep S b Q"
  have "dom (bk_index b) = dom (book_lookup S b)" using index_None [OF rep] by (auto simp: dom_def)
  then show ?thesis using lookup_card(2) [OF rep] by (simp add: live_order_count_def)
qed

lemma check_invariants_ok:
  assumes rep: "book_rep S b Q" and f: "fifo (book_queue S b)" and u: "uncrossed (book_queue S b)"
  shows "check_invariants S b = Some (Inr ())"
proof -
  have sum: "(\<Sum>e\<leftarrow>es. length (book_queue S b sd (fst e))) =
      (\<Sum>p\<leftarrow>map fst es. length (book_queue S b sd p))" for es sd
    by (simp add: o_def)
  have lv: "check_levels S b sd (levels_view b sd) seen =
      Some (Inr (seen + (\<Sum>p\<leftarrow>ladder (book_queue S b) sd. length (book_queue S b sd p))))" for sd seen
  proof -
    have "set (levels_view b sd) \<subseteq> set (bk_levels b sd)" by (cases sd) simp_all
    then show ?thesis
      by (simp only: check_levels_ok [OF rep f] sum levels_view_ladder [OF rep])
  qed
  have lt: "bid < ask" if "best_bid b = Some (bid, l1)" "best_ask b = Some (ask, l2)" for bid ask l1 l2
  proof -
    have "btm_ok (bk_bids b)" "btm_ok (bk_asks b)"
      "\<And>p. btm_get (bk_bids b) p \<noteq> None \<longleftrightarrow> book_queue S b Buy p \<noteq> []"
      "\<And>p. btm_get (bk_asks b) p \<noteq> None \<longleftrightarrow> book_queue S b Sell p \<noteq> []"
      using book_repD(5) [OF rep, of Buy] book_repD(5) [OF rep, of Sell]
      by (auto simp: levels_rep_def book_queue_rep [OF rep])
    then show ?thesis
      using that u btm_last_Some [of "bk_bids b"] btm_first_Some [of "bk_asks b"]
      unfolding uncrossed_def best_bid_def best_ask_def by (metis option.distinct(1))
  qed
  have cross: "(case (best_bid b, best_ask b) of
      (Some (bid, _), Some (ask, _)) \<Rightarrow>
        if ask \<le> bid then Some (Inl (CrossedBook bid ask)) else Some (Inr ())
    | _ \<Rightarrow> Some (Inr ())) = Some (Inr ())"
  proof (cases "best_bid b"; cases "best_ask b")
    fix x y assume "best_bid b = Some x" "best_ask b = Some y"
    then show ?thesis using lt [of "fst x" "snd x" "fst y" "snd y"] by (simp add: split_beta)
  qed simp_all
  show ?thesis
    unfolding check_invariants_def lv try_else.simps cross
    using queue_lengths [OF rep] index_card [OF rep] by simp
qed

end

end
