(* ===== verification/Matching_Spec.thy ===== *)
theory Matching_Spec
  imports Book_Views "HOL-Library.Sublist"
begin

text \<open>
  What the matching specification guarantees: quantities are conserved, the fills hit a prefix of the
  resting orders in price-time order and exhaust each but the last, a remainder means that no
  eligible order is left, and the queues keep their order.
\<close>

text \<open>The resting orders an incoming order limited to \<open>l\<close> may meet, best price first and FIFO
  within a price.\<close>

definition makers :: "abook \<Rightarrow> side \<Rightarrow> price_ticks \<Rightarrow> new_order list" where
  "makers A sd l = concat (map (A sd) (eligible_prices A sd l))"

section \<open>One level\<close>

lemma take_level_sum: "take_level p rem os = (fs, os', r) \<Longrightarrow> (\<Sum>f\<leftarrow>fs. f_qty f) + r = rem"
proof (induction os arbitrary: rem fs)
  case (Cons d os)
  obtain gs os1 r1 where t: "take_level p (rem - open_lots d) os = (gs, os1, r1)" by (metis prod_cases3)
  show ?case
    using Cons.prems Cons.IH [of "rem - open_lots d" gs] t by (auto simp: fill_of_def split: if_splits)
qed simp

lemma take_level_lots:
  "take_level p rem os = (fs, os', r) \<Longrightarrow> lots_of os' + (\<Sum>f\<leftarrow>fs. f_qty f) = lots_of os"
proof (induction os arbitrary: rem fs)
  case (Cons d os)
  then show ?case
    by (cases "take_level p (rem - open_lots d) os")
      (auto simp: fill_of_def lots_of_def open_lots_def split: if_splits)
qed (simp add: lots_of_def)

lemma take_level_suffix:
  "take_level p rem os = (fs, os', r) \<Longrightarrow> suffix (map o_priority os') (map o_priority os)"
proof (induction os arbitrary: rem fs)
  case (Cons d os)
  then show ?case
    by (cases "take_level p (rem - open_lots d) os")
      (auto split: if_splits intro: suffix_ConsI)
qed simp

lemma take_level_open:
  "take_level p rem os = (fs, os', r) \<Longrightarrow> \<forall>d \<in> set os. 0 < open_lots d \<Longrightarrow>
   \<forall>d \<in> set os'. 0 < open_lots d"
proof (induction os arbitrary: rem fs)
  case (Cons d os)
  then show ?case
    by (cases "take_level p (rem - open_lots d) os")
      (auto simp: open_lots_def split: if_splits)
qed simp

lemma take_level_prefix:
  "take_level p rem os = (fs, os', r) \<Longrightarrow> prefix (map f_maker fs) (map o_id os)"
proof (induction os arbitrary: rem fs)
  case (Cons d os)
  then show ?case
    by (cases "take_level p (rem - open_lots d) os") (auto simp: fill_of_def split: if_splits)
qed simp

lemma take_level_price: "take_level p rem os = (fs, os', r) \<Longrightarrow> f \<in> set fs \<Longrightarrow> f_price f = p"
proof (induction os arbitrary: rem fs)
  case (Cons d os)
  then show ?case
    by (cases "take_level p (rem - open_lots d) os") (auto simp: fill_of_def split: if_splits)
qed simp

lemma take_level_exhausts:
  assumes "take_level p rem os = (fs, os', r)"
  shows "\<forall>f \<in> set (butlast fs). f_rest f = 0"
    and "0 < r \<Longrightarrow> (\<forall>f \<in> set fs. f_rest f = 0) \<and> map f_maker fs = map o_id os"
proof -
  have "(\<forall>f \<in> set (butlast fs). f_rest f = 0) \<and>
    (0 < r \<longrightarrow> (\<forall>f \<in> set fs. f_rest f = 0) \<and> map f_maker fs = map o_id os)"
    using assms
  proof (induction os arbitrary: rem fs)
    case (Cons d os)
    then show ?case
      by (cases "take_level p (rem - open_lots d) os")
        (fastforce simp: fill_of_def split: if_splits)
  qed simp
  then show "\<forall>f \<in> set (butlast fs). f_rest f = 0"
    and "0 < r \<Longrightarrow> (\<forall>f \<in> set fs. f_rest f = 0) \<and> map f_maker fs = map o_id os"
    by blast+
qed

section \<open>The whole side\<close>

lemma sweepE:
  assumes "sweep sd (p # ps) rem A = (fs, A', r)"
  obtains fs1 os1 r1 fs2 where "take_level p rem (A sd p) = (fs1, os1, r1)"
    "sweep sd ps r1 (upd_queue sd p (\<lambda>_. os1) A) = (fs2, A', r)" "fs = fs1 @ fs2"
  using assms by (auto split: prod.splits)

lemma sweep_sum: "sweep sd ps rem A = (fs, A', r) \<Longrightarrow> (\<Sum>f\<leftarrow>fs. f_qty f) + r = rem"
proof (induction ps arbitrary: rem A fs)
  case (Cons p ps)
  from Cons.prems show ?case
    by (rule sweepE) (use Cons.IH take_level_sum in fastforce)
qed simp

lemma sweep_other:
  "sweep sd ps rem A = (fs, A', r) \<Longrightarrow> sd' \<noteq> sd \<or> p' \<notin> set ps \<Longrightarrow> A' sd' p' = A sd' p'"
proof (induction ps arbitrary: rem A fs)
  case (Cons p ps)
  from Cons.prems(1) show ?case
    by (rule sweepE) (use Cons.IH Cons.prems(2) in \<open>auto simp: upd_queue_apply\<close>)
qed simp

text \<open>Every queue of the result comes from one run of \<open>take_level\<close> on the queue before.\<close>

lemma sweep_queue:
  assumes "sweep sd ps rem A = (fs, A', r)" "distinct ps"
  shows "A' sd' p' = A sd' p' \<or> (\<exists>q gs s. take_level p' q (A sd' p') = (gs, A' sd' p', s))"
  using assms
proof (induction ps arbitrary: rem A fs)
  case (Cons p ps)
  from Cons.prems(1) obtain fs1 os1 r1 fs2 where t: "take_level p rem (A sd p) = (fs1, os1, r1)"
    "sweep sd ps r1 (upd_queue sd p (\<lambda>_. os1) A) = (fs2, A', r)"
    by (rule sweepE)
  show ?case
  proof (cases "sd' = sd \<and> p' = p")
    case True
    then have "A' sd' p' = os1"
      using sweep_other [OF t(2), of sd' p'] Cons.prems(2) by (simp add: upd_queue_apply)
    then show ?thesis using t(1) True by blast
  next
    case False
    have "distinct ps" using Cons.prems(2) by simp
    from Cons.IH [OF t(2) this] False show ?thesis by (simp add: upd_queue_apply)
  qed
qed simp

lemma sweep_exhausts:
  assumes "sweep sd ps rem A = (fs, A', r)" "distinct ps"
  shows "prefix (map f_maker fs) (map o_id (concat (map (A sd) ps)))"
    and "\<forall>f \<in> set (butlast fs). f_rest f = 0"
    and "0 < r \<Longrightarrow> p \<in> set ps \<Longrightarrow> A' sd p = []"
proof -
  have "prefix (map f_maker fs) (map o_id (concat (map (A sd) ps))) \<and>
    (\<forall>f \<in> set (butlast fs). f_rest f = 0) \<and> (0 < r \<longrightarrow> (\<forall>p \<in> set ps. A' sd p = []))"
    using assms
  proof (induction ps arbitrary: rem A fs)
    case (Cons p ps)
    from Cons.prems(1) obtain fs1 os1 r1 fs2 where t: "take_level p rem (A sd p) = (fs1, os1, r1)"
      "sweep sd ps r1 (upd_queue sd p (\<lambda>_. os1) A) = (fs2, A', r)" "fs = fs1 @ fs2"
      by (rule sweepE)
    have p: "distinct ps" "p \<notin> set ps" using Cons.prems(2) by simp_all
    have rest: "map (upd_queue sd p (\<lambda>_. os1) A sd) ps = map (A sd) ps"
      using p(2) by (auto simp: upd_queue_apply)
    have A'p: "A' sd p = os1"
      using sweep_other [OF t(2), of sd p] p(2) by (simp add: upd_queue_apply)
    note IH = Cons.IH [OF t(2) p(1), unfolded rest]
    show ?case
    proof (cases "r1 = 0")
      case True
      then have "fs2 = []" "r = 0" using t(2) by simp_all
      then show ?thesis
        using t(1,3) take_level_prefix [OF t(1)] take_level_exhausts(1) [OF t(1)] by simp
    next
      case False
      then have full: "\<forall>f \<in> set fs1. f_rest f = 0" "map f_maker fs1 = map o_id (A sd p)"
        using take_level_exhausts(2) [OF t(1)] by simp_all
      have "os1 = []" using take_level_rest [OF t(1)] False by simp
      moreover have "\<forall>f \<in> set (butlast fs). f_rest f = 0"
        using full(1) IH by (auto simp: t(3) butlast_append dest: in_set_butlastD)
      ultimately show ?thesis using IH full(2) A'p by (simp add: t(3))
    qed
  qed simp
  then show "prefix (map f_maker fs) (map o_id (concat (map (A sd) ps)))"
    and "\<forall>f \<in> set (butlast fs). f_rest f = 0"
    and "0 < r \<Longrightarrow> p \<in> set ps \<Longrightarrow> A' sd p = []"
    by blast+
qed

section \<open>The ladder\<close>

lemma ladder_set: "finite {p. A sd p \<noteq> []} \<Longrightarrow> set (ladder A sd) = {p. A sd p \<noteq> []}"
  by (cases sd) simp_all

lemma ladder_distinct: "distinct (ladder A sd)"
  by (cases sd) simp_all

lemma ladder_sorted: "sorted_wrt (\<lambda>p q. eligible sd q p) (ladder A sd)"
proof (cases sd)
  case Buy
  have "sorted_wrt (\<lambda>p q. q \<le> p) (rev (sorted_list_of_set {p. A Buy p \<noteq> []}))"
    by (simp add: sorted_wrt_rev)
  then show ?thesis by (simp add: Buy)
next
  case Sell
  then show ?thesis by simp
qed

lemma eligible_trans: "eligible sd q p \<Longrightarrow> eligible sd l q \<Longrightarrow> eligible sd l p"
  by (cases sd) auto

lemma takeWhile_eligible:
  "sorted_wrt (\<lambda>p q. eligible sd q p) ps \<Longrightarrow> takeWhile (eligible sd l) ps = filter (eligible sd l) ps"
proof (induction ps)
  case (Cons p ps)
  moreover have "filter (eligible sd l) ps = []" if "\<not> eligible sd l p"
    using Cons.prems that eligible_trans by (fastforce simp: filter_empty_conv)
  ultimately show ?case by simp
qed simp

lemma eligible_prices_filter: "eligible_prices A sd l = filter (eligible sd l) (ladder A sd)"
  unfolding eligible_prices_def by (rule takeWhile_eligible [OF ladder_sorted])

lemma eligible_prices_distinct: "distinct (eligible_prices A sd l)"
  by (simp add: eligible_prices_filter ladder_distinct)

lemma eligible_prices_set:
  "finite {p. A sd p \<noteq> []} \<Longrightarrow> set (eligible_prices A sd l) = {p. A sd p \<noteq> [] \<and> eligible sd l p}"
  by (auto simp: eligible_prices_filter ladder_set)

section \<open>What matching keeps\<close>

lemma sweep_suffix:
  assumes "sweep sd ps rem A = (fs, A', r)" "distinct ps"
  shows "suffix (map o_priority (A' sd' p')) (map o_priority (A sd' p'))"
    "lots_of (A' sd' p') \<le> lots_of (A sd' p')"
  using sweep_queue [OF assms, of sd' p'] take_level_suffix take_level_lots by fastforce+

lemma sweep_nonempty:
  "sweep sd ps rem A = (fs, A', r) \<Longrightarrow> distinct ps \<Longrightarrow> A' sd' p' \<noteq> [] \<Longrightarrow> A sd' p' \<noteq> []"
  using sweep_suffix(1) [of sd ps rem A fs A' r sd' p'] by auto

lemma sweep_fifo:
  assumes sw: "sweep sd ps rem A = (fs, A', r)" and ps: "distinct ps" and f: "fifo A"
  shows "fifo A'"
proof -
  have "sorted_wrt (<) (map o_priority (A' sd' p'))" for sd' p'
    using sweep_suffix(1) [OF sw ps, of sd' p'] f
    by (auto simp: fifo_def suffix_def sorted_wrt_append dest!: spec [of _ sd'] spec [of _ p'])
  moreover have "\<forall>d \<in> set (A' sd' p'). 0 < open_lots d" for sd' p'
    using sweep_queue [OF sw ps, of sd' p'] f take_level_open unfolding fifo_def by metis
  ultimately show ?thesis by (simp add: fifo_def)
qed

lemma sweep_uncrossed:
  "sweep sd ps rem A = (fs, A', r) \<Longrightarrow> distinct ps \<Longrightarrow> uncrossed A \<Longrightarrow> uncrossed A'"
  using sweep_nonempty unfolding uncrossed_def by blast

lemma sweep_clears:
  assumes sw: "sweep sd (eligible_prices A sd l) rem A = (fs, A', r)" and r: "0 < r"
    and fin: "finite {p. A sd p \<noteq> []}" and p: "eligible sd l p"
  shows "A' sd p = []"
proof (cases "A sd p = []")
  case True
  then show ?thesis using sweep_nonempty [OF sw eligible_prices_distinct] by blast
next
  case False
  then show ?thesis
    using sweep_exhausts(3) [OF sw eligible_prices_distinct r] p eligible_prices_set [of A sd l, OF fin]
    by simp
qed

section \<open>Single orders\<close>

lemma uncrossed_mono:
  "uncrossed A \<Longrightarrow> (\<And>sd p. A' sd p \<noteq> [] \<Longrightarrow> A sd p \<noteq> []) \<Longrightarrow> uncrossed A'"
  unfolding uncrossed_def by blast

lemma fifo_snoc:
  assumes "fifo A" "0 < open_lots d" "\<forall>e \<in> set (A sd p). o_priority e < o_priority d"
  shows "fifo (upd_queue sd p (\<lambda>os. os @ [d]) A)"
  using assms by (auto simp: fifo_def upd_queue_apply sorted_wrt_append)

lemma drop_order_kept:
  assumes "fifo A"
  shows "fifo (upd_queue sd p (drop_order oid) A)"
  using assms by (auto simp: fifo_def upd_queue_apply drop_order_def sorted_wrt_filter sorted_wrt_map)

lemma drop_order_lots: "lots_of (drop_order oid os) \<le> lots_of os"
  by (induction os) (auto simp: lots_of_def drop_order_def)

lemma upd_order_priorities:
  "(\<And>d. d \<in> set os \<Longrightarrow> o_id d = oid \<Longrightarrow> o_priority e = o_priority d) \<Longrightarrow>
   map o_priority (upd_order oid (\<lambda>_. e) os) = map o_priority os"
  by (auto simp: upd_order_def)

lemma upd_order_lots:
  "(\<And>d. d \<in> set os \<Longrightarrow> o_id d = oid \<Longrightarrow> open_lots e \<le> open_lots d) \<Longrightarrow>
   lots_of (upd_order oid (\<lambda>_. e) os) \<le> lots_of os"
  by (induction os) (fastforce simp: lots_of_def upd_order_def)+

lemma fifo_upd_order:
  assumes "fifo A" "0 < open_lots e"
    "\<And>d. d \<in> set (A sd p) \<Longrightarrow> o_id d = oid \<Longrightarrow> o_priority e = o_priority d"
  shows "fifo (upd_queue sd p (upd_order oid (\<lambda>_. e)) A)"
proof -
  have "\<forall>d \<in> set (upd_order oid (\<lambda>_. e) (A sd p)). 0 < open_lots d"
    using assms(1,2) by (auto simp: upd_order_def fifo_def)
  then show ?thesis
    using assms(1) upd_order_priorities [OF assms(3)] by (simp add: fifo_def upd_queue_apply)
qed

end
