(* ===== verification/Model_Test.thy ===== *)
theory Model_Test
  imports Matching_Spec
begin

text \<open>
  The model-based test of the two books (\<open>trading-core/tests/model.rs\<close>), with its assertions: after
  every command the fills agree, the canonical rows agree and the indexed book passes its own
  structural check.  The test draws random command lists; the lemma at the end covers all of them.
\<close>

datatype command =
    CmdInsert side price_ticks quantity_lots
  | CmdCancel nat
  | CmdReduce nat quantity_lots
  | CmdMatch side price_ticks quantity_lots

record 's model_state =
  ms_book :: "'s order_book"
  ms_ref :: ref_book
  ms_live :: "order_id list"
  ms_next_id :: nat
  ms_next_priority :: nat

definition crosses :: "'s order_book \<Rightarrow> side \<Rightarrow> price_ticks \<Rightarrow> bool" where
  "crosses b sd p =
     (case sd of
        Buy \<Rightarrow> (case best_ask b of Some (ask, _) \<Rightarrow> ask \<le> p | None \<Rightarrow> False)
      | Sell \<Rightarrow> (case best_bid b of Some (bid, _) \<Rightarrow> p \<le> bid | None \<Rightarrow> False))"

text \<open>The assertions at the end of one iteration.\<close>

definition model_checks :: "'s slab_ops \<Rightarrow> 's model_state \<Rightarrow> (bool \<times> 's model_state) option" where
  "model_checks S st = do {
     rows \<leftarrow> book_rows S (ms_book st);
     violation \<leftarrow> check_invariants S (ms_book st);
     Some (rows = ref_snapshot (ms_ref st) \<and> violation = Inr (), st)
   }"

definition fills_agree :: "fill list \<Rightarrow> ref_fill list \<Rightarrow> bool" where
  "fills_agree fs rs \<longleftrightarrow>
     length fs = length rs \<and>
     list_all (\<lambda>(f, r). f_maker f = rf_maker r \<and> f_price f = rf_price r \<and>
                        f_qty f = rf_qty r \<and> f_rest f = rf_rest r) (zip fs rs)"

fun retain_live :: "'s slab_ops \<Rightarrow> 's order_book \<Rightarrow> order_id list \<Rightarrow> order_id list option" where
  "retain_live S b [] = Some []"
| "retain_live S b (oid # ids) = do {
     found \<leftarrow> book_get S b oid;
     rest \<leftarrow> retain_live S b ids;
     Some (if found \<noteq> None then oid # rest else rest)
   }"

text \<open>One iteration.  The Boolean is the conjunction of the assertions it reached, \<open>None\<close> a panic.\<close>

fun model_command ::
  "'s slab_ops \<Rightarrow> command \<Rightarrow> 's model_state \<Rightarrow> (bool \<times> 's model_state) option" where
  "model_command S (CmdInsert sd p q) st =
     (if crosses (ms_book st) sd p then Some (True, st)
      else
        (let oid = wrapping_add 64 (ms_next_id st) 1;
             prio = wrapping_add 64 (ms_next_priority st) 1;
             d = \<lparr>o_id = oid, o_account = 1, o_client = oid, o_side = sd, o_price = p, o_total = q,
                  o_filled = 0, o_priority = prio\<rparr>
         in (case book_insert S (ms_book st) d of
               Some (Inr b) \<Rightarrow>
                 model_checks S (st\<lparr>ms_book := b,
                   ms_ref := ref_insert sd p
                     \<lparr>r_id = oid, r_priority = prio, r_total = q, r_filled = 0\<rparr> (ms_ref st),
                   ms_live := ms_live st @ [oid], ms_next_id := oid, ms_next_priority := prio\<rparr>)
             | _ \<Rightarrow> None)))"
| "model_command S (CmdCancel which) st =
     (if ms_live st = [] then Some (True, st)
      else
        (let i = which mod length (ms_live st); oid = ms_live st ! i in do {
           (removed, b) \<leftarrow> book_remove S (ms_book st) oid;
           let (removed', r) = ref_remove oid (ms_ref st);
           if (removed \<noteq> None) \<noteq> (removed' \<noteq> None) then Some (False, st)
           else model_checks S (st\<lparr>ms_book := b, ms_ref := r,
             ms_live := take i (ms_live st) @ drop (Suc i) (ms_live st)\<rparr>)
         }))"
| "model_command S (CmdReduce which q) st =
     (if ms_live st = [] then Some (True, st)
      else
        (let oid = ms_live st ! (which mod length (ms_live st)) in do {
           found \<leftarrow> book_get S (ms_book st) oid;
           (case found of
              None \<Rightarrow> Some (True, st)
            | Some node \<Rightarrow>
                if q \<le> o_filled node \<or> o_total node \<le> q then Some (True, st)
                else do {
                  b \<leftarrow> reduce_total S (ms_book st) oid q;
                  model_checks S (st\<lparr>ms_book := b, ms_ref := ref_reduce_total oid q (ms_ref st)\<rparr>)
                })
         }))"
| "model_command S (CmdMatch sd l q) st = do {
     (filled, b, fs) \<leftarrow> match_order S (ms_book st) sd l q [];
     (filled', r, rs) \<leftarrow> ref_match_order (ms_ref st) sd l q [];
     if filled \<noteq> filled' \<or> \<not> fills_agree fs rs then Some (False, st)
     else do {
       live \<leftarrow> retain_live S b (ms_live st);
       model_checks S (st\<lparr>ms_book := b, ms_ref := r, ms_live := live\<rparr>)
     }
   }"

fun model_run :: "'s slab_ops \<Rightarrow> command list \<Rightarrow> 's model_state \<Rightarrow> bool option" where
  "model_run S [] st = Some True"
| "model_run S (c # cs) st = do {
     (ok, st') \<leftarrow> model_command S c st;
     if ok then model_run S cs st' else Some False
   }"

definition model_test :: "'s slab_ops \<Rightarrow> nat \<Rightarrow> command list \<Rightarrow> bool option" where
  "model_test S cap cs =
     model_run S cs
       \<lparr>ms_book = book_with_capacity S cap, ms_ref = ref_new, ms_live = [], ms_next_id = 0,
        ms_next_priority = 0\<rparr>"

text \<open>The quantities a command list inserts.\<close>

fun inserted :: "command \<Rightarrow> nat" where
  "inserted (CmdInsert sd p q) = q"
| "inserted _ = 0"

fun inserts_lots :: "command \<Rightarrow> bool" where
  "inserts_lots (CmdInsert sd p q) \<longleftrightarrow> 0 < q"
| "inserts_lots _ \<longleftrightarrow> True"

section \<open>The abstract operations keep the queues in order\<close>

definition lots_bound :: "nat \<Rightarrow> abook \<Rightarrow> bool" where
  "lots_bound t A \<longleftrightarrow> (\<forall>sd p. lots_of (A sd p) \<le> t)"

section \<open>The invariant of the test\<close>

definition ids_below :: "nat \<Rightarrow> (order_id \<rightharpoonup> new_order) \<Rightarrow> bool" where
  "ids_below n L \<longleftrightarrow> (\<forall>oid d. L oid = Some d \<longrightarrow> 0 < oid \<and> oid \<le> n \<and> o_priority d \<le> n)"

lemma ids_belowD: "ids_below n L \<Longrightarrow> L oid = Some d \<Longrightarrow> 0 < oid \<and> oid \<le> n \<and> o_priority d \<le> n"
  by (simp add: ids_below_def)

definition model_inv :: "'s slab_ops \<Rightarrow> nat \<Rightarrow> nat \<Rightarrow> 's model_state \<Rightarrow> bool" where
  "model_inv S cap t st \<longleftrightarrow>
     book_ok S (ms_book st) \<and> bk_capacity (ms_book st) = cap \<and>
     ref_sim (book_queue S (ms_book st)) (ms_ref st) \<and>
     fifo (book_queue S (ms_book st)) \<and> uncrossed (book_queue S (ms_book st)) \<and>
     lots_bound t (book_queue S (ms_book st)) \<and>
     ids_below (ms_next_id st) (book_lookup S (ms_book st)) \<and>
     ms_next_priority st = ms_next_id st"

lemma fills_agree_map: "fills_agree fs (map ref_fill_of fs)"
  unfolding fills_agree_def by (induction fs) (simp_all add: ref_fill_of_def)

context slab_store
begin

lemma model_invE:
  assumes "model_inv S cap t st"
  obtains Q where "book_rep S (ms_book st) Q" "bk_capacity (ms_book st) = cap"
    "ref_sim (book_queue S (ms_book st)) (ms_ref st)"
    "fifo (book_queue S (ms_book st))" "uncrossed (book_queue S (ms_book st))"
    "lots_bound t (book_queue S (ms_book st))"
    "ids_below (ms_next_id st) (book_lookup S (ms_book st))"
    "ms_next_priority st = ms_next_id st"
  using assms unfolding model_inv_def book_ok_def by blast

lemma model_checks_ok: "model_inv S cap t st \<Longrightarrow> model_checks S st = Some (True, st)"
proof -
  assume inv: "model_inv S cap t st"
  then obtain Q where rep: "book_rep S (ms_book st) Q"
    and sim: "ref_sim (book_queue S (ms_book st)) (ms_ref st)"
    and f: "fifo (book_queue S (ms_book st))" "uncrossed (book_queue S (ms_book st))"
    by (rule model_invE)
  have "ref_snapshot (ms_ref st) = rows_of (book_queue S (ms_book st))"
    by (rule ref_snapshot_rows [OF sim view_ok_sound [OF book_view [OF rep]]])
  then show ?thesis
    by (simp add: model_checks_def book_rows_ok [OF rep] check_invariants_ok [OF rep f])
qed

lemma live_bound:
  assumes rep: "book_rep S b Q" and ids: "\<And>oid d. book_lookup S b oid = Some d \<Longrightarrow> 0 < oid \<and> oid \<le> n"
  shows "live_order_count S b \<le> n" "length (book_queue S b sd p) \<le> n"
proof -
  have "dom (book_lookup S b) \<subseteq> {1..n}" using ids by fastforce
  then have card: "card (dom (book_lookup S b)) \<le> n"
    using card_mono [of "{1..n}"] by fastforce
  then show "live_order_count S b \<le> n" by (simp add: lookup_card [OF rep])
  have "o_id ` set (book_queue S b sd p) \<subseteq> dom (book_lookup S b)"
    using queue_mem [OF rep] by auto
  then have "card (set (map o_id (book_queue S b sd p))) \<le> card (dom (book_lookup S b))"
    using lookup_card(1) [OF rep] by (simp add: card_mono)
  then show "length (book_queue S b sd p) \<le> n"
    using card distinct_card [OF queue_ids_distinct [OF rep, of sd p]] by simp
qed

lemma crosses_uncrossed:
  assumes rep: "book_rep S b Q" and u: "uncrossed (book_queue S b)" and c: "\<not> crosses b sd p"
  shows "uncrossed (upd_queue sd p (\<lambda>os. os @ [d]) (book_queue S b))"
proof -
  have ok: "btm_ok (bk_levels b sd')" "btm_get (bk_levels b sd') p' \<noteq> None \<longleftrightarrow> book_queue S b sd' p' \<noteq> []"
    for sd' p'
    using book_repD(5) [OF rep, of sd'] by (auto simp: levels_rep_def book_queue_rep [OF rep])
  have "p < ask" if sd: "sd = Buy" and ne: "book_queue S b Sell ask \<noteq> []" for ask
  proof -
    obtain lvl where lvl: "btm_get (bk_asks b) ask = Some lvl" using ok(2) [of Sell ask] ne by auto
    then obtain e where e: "btm_first (bk_asks b) = Some e" using btm_first_None [of "bk_asks b"] by fastforce
    then have "fst e \<le> ask" using btm.fst_entry_least [OF _ e lvl] ok(1) [of Sell] by simp
    then show ?thesis using c e sd by (simp add: crosses_def best_ask_def split_beta)
  qed
  moreover have "bid < p" if sd: "sd = Sell" and ne: "book_queue S b Buy bid \<noteq> []" for bid
  proof -
    obtain lvl where lvl: "btm_get (bk_bids b) bid = Some lvl" using ok(2) [of Buy bid] ne by auto
    then obtain e where e: "btm_last (bk_bids b) = Some e" using btm_last_None [of "bk_bids b"] by fastforce
    then have "bid \<le> fst e" using btm.lst_entry_greatest [OF _ e lvl] ok(1) [of Buy] by simp
    then show ?thesis using c e sd by (simp add: crosses_def best_bid_def split_beta)
  qed
  ultimately show ?thesis
    using u by (cases sd) (auto simp: uncrossed_def upd_queue_apply)
qed

section \<open>Every command passes\<close>

lemma model_insert:
  assumes inv: "model_inv S cap t st" and q: "0 < q" "t + q < 2 ^ 64"
    and n: "ms_next_id st < cap" "cap < 2 ^ 32"
  shows "\<exists>st'. model_command S (CmdInsert sd p q) st = Some (True, st') \<and>
    model_inv S cap (t + q) st' \<and> ms_next_id st' \<le> ms_next_id st + 1"
proof -
  let ?b = "ms_book st" and ?A = "book_queue S (ms_book st)" and ?n = "ms_next_id st"
  obtain Q where rep: "book_rep S ?b Q" and cap: "bk_capacity ?b = cap"
    and sim: "ref_sim ?A (ms_ref st)" and f: "fifo ?A" and u: "uncrossed ?A" and l: "lots_bound t ?A"
    and below: "ids_below ?n (book_lookup S ?b)" and prio: "ms_next_priority st = ?n"
    using inv by (rule model_invE)
  note ids = ids_belowD [OF below]
  show ?thesis
  proof (cases "crosses ?b sd p")
    case True
    have "lots_bound (t + q) ?A" using l by (auto simp: lots_bound_def trans_le_add1)
    then show ?thesis using True inv by (auto simp: model_inv_def)
  next
    case False
    define d where "d = \<lparr>o_id = ?n + 1, o_account = 1, o_client = ?n + 1, o_side = sd, o_price = p,
      o_total = q, o_filled = 0, o_priority = ?n + 1\<rparr>"
    have d: "o_id d = ?n + 1" "o_side d = sd" "o_price d = p" "o_priority d = ?n + 1"
      "open_lots d = q" "o_filled d \<le> o_total d" "o_total d < 2 ^ 64"
      using q by (simp_all add: d_def open_lots_def)
    have wrap: "wrapping_add 64 ?n 1 = ?n + 1" using n by (simp add: wrapping_add_def)
    have bound: "live_order_count S ?b \<le> ?n" "length (?A sd' p') \<le> ?n" for sd' p'
      using live_bound [OF rep, of ?n] ids by blast+
    have full: "\<not> is_full S ?b"
      using bound(1) n cap by (simp add: is_full_def live_order_count_def)
    have new: "book_lookup S ?b (o_id d) = None"
      using ids [of "?n + 1"] by (cases "book_lookup S ?b (?n + 1)") (auto simp: d)
    have room: "\<not> level_overflows (btm_get (bk_levels ?b (o_side d)) (o_price d)) (open_lots d)"
      using l q n bound(2) [of sd p]
      by (auto simp: overflow_rep [OF rep] d lots_bound_def not_le dest!: spec [of _ sd] spec [of _ p])
    obtain b' where b': "book_insert S ?b d = Some (Inr b')" "book_ok S b'"
      "book_lookup S b' = (book_lookup S ?b)(o_id d \<mapsto> d)"
      "book_queue S b' = upd_queue (o_side d) (o_price d) (\<lambda>q. q @ [d]) ?A"
      "bk_capacity b' = bk_capacity ?b"
      by (rule book_insert_ok [OF rep full d(6,7) new room])
    define st' where "st' = st\<lparr>ms_book := b', ms_ref := ref_insert sd p (ref_of d) (ms_ref st),
      ms_live := ms_live st @ [?n + 1], ms_next_id := ?n + 1, ms_next_priority := ?n + 1\<rparr>"
    have pr: "\<forall>e \<in> set (?A sd p). o_priority e < o_priority d"
      using ids queue_mem [OF rep] by (auto simp: d less_Suc_eq_le)
    have "lots_bound (t + q) (book_queue S b')"
      using l by (auto simp: lots_bound_def b'(4) d upd_queue_apply lots_of_def trans_le_add1)
    then have inv': "model_inv S cap (t + q) st'"
      using b' cap below ref_insert_ok [OF sim] fifo_snoc [OF f _ pr] crosses_uncrossed [OF rep u False] q(1)
      by (auto simp: model_inv_def st'_def d ids_below_def le_SucI)
    have "model_command S (CmdInsert sd p q) st = model_checks S st'"
      using False b'(1) wrap prio
      by (simp add: Let_def d_def [symmetric, simplified] st'_def ref_of_def) (simp add: d_def)
    then show ?thesis using model_checks_ok [OF inv'] inv' by (auto simp: st'_def)
  qed
qed

lemma model_cancel:
  assumes inv: "model_inv S cap t st"
  shows "\<exists>st'. model_command S (CmdCancel w) st = Some (True, st') \<and> model_inv S cap t st' \<and>
    ms_next_id st' = ms_next_id st"
proof (cases "ms_live st = []")
  case True
  then show ?thesis using inv by simp
next
  case False
  let ?b = "ms_book st" and ?A = "book_queue S (ms_book st)"
  obtain Q where rep: "book_rep S ?b Q" and cap: "bk_capacity ?b = cap"
    and sim: "ref_sim ?A (ms_ref st)" and f: "fifo ?A" and u: "uncrossed ?A" and l: "lots_bound t ?A"
    and below: "ids_below (ms_next_id st) (book_lookup S ?b)"
    and prio: "ms_next_priority st = ms_next_id st"
    using inv by (rule model_invE)
  define i where "i = w mod length (ms_live st)"
  define live where "live = take i (ms_live st) @ drop (Suc i) (ms_live st)"
  let ?oid = "ms_live st ! i"
  show ?thesis
  proof (cases "book_lookup S ?b ?oid")
    case None
    then have "model_inv S cap t (st\<lparr>ms_live := live\<rparr>)" using inv by (simp add: model_inv_def)
    from model_checks_ok [OF this] this show ?thesis
      using False book_remove_absent [OF rep None] ref_remove_absent [OF sim book_view [OF rep] None]
      by (auto simp: Let_def live_def i_def)
  next
    case (Some d)
    obtain nd b' where b': "book_remove S ?b ?oid = Some (Some nd, b')" "order_of nd = d" "book_ok S b'"
      "book_lookup S b' = (book_lookup S ?b)(?oid := None)"
      "book_queue S b' = upd_queue (o_side d) (o_price d) (drop_order ?oid) ?A"
      "bk_capacity b' = bk_capacity ?b"
      by (rule book_remove_ok [OF rep Some])
    obtain r' where r': "ref_remove ?oid (ms_ref st) = (Some (o_side d, o_price d, ref_of d), r')"
      "ref_sim (book_queue S b') r'"
      using ref_remove_ok [OF sim book_view [OF rep] Some] unfolding b'(5) by blast
    have "uncrossed (book_queue S b')"
      by (rule uncrossed_mono [OF u]) (auto simp: b'(5) upd_queue_apply drop_order_def split: if_splits)
    moreover have "lots_bound t (book_queue S b')"
      using l by (auto simp: b'(5) lots_bound_def upd_queue_apply intro: order_trans [OF drop_order_lots])
    moreover have "fifo (book_queue S b')" unfolding b'(5) by (rule drop_order_kept [OF f])
    ultimately have "model_inv S cap t (st\<lparr>ms_book := b', ms_ref := r', ms_live := live\<rparr>)"
      using b'(3,4,6) r'(2) cap below prio by (simp add: model_inv_def ids_below_def)
    from model_checks_ok [OF this] this show ?thesis
      using False b'(1) r'(1) by (auto simp: Let_def live_def i_def)
  qed
qed

lemma model_reduce:
  assumes inv: "model_inv S cap t st"
  shows "\<exists>st'. model_command S (CmdReduce w q) st = Some (True, st') \<and> model_inv S cap t st' \<and>
    ms_next_id st' = ms_next_id st"
proof (cases "ms_live st = []")
  case True
  then show ?thesis using inv by simp
next
  case False
  let ?b = "ms_book st" and ?A = "book_queue S (ms_book st)"
  obtain Q where rep: "book_rep S ?b Q" and cap: "bk_capacity ?b = cap"
    and sim: "ref_sim ?A (ms_ref st)" and f: "fifo ?A" and u: "uncrossed ?A" and l: "lots_bound t ?A"
    and below: "ids_below (ms_next_id st) (book_lookup S ?b)"
    and prio: "ms_next_priority st = ms_next_id st"
    using inv by (rule model_invE)
  let ?oid = "ms_live st ! (w mod length (ms_live st))"
  obtain found where found: "book_get S ?b ?oid = Some found"
    "map_option order_of found = book_lookup S ?b ?oid"
    using book_get_ok [OF rep] by blast
  show ?thesis
  proof (cases "\<exists>node. found = Some node \<and> o_filled node < q \<and> q < o_total node")
    case no: False
    then have "model_command S (CmdReduce w q) st = Some (True, st)"
      using False found(1) by (auto simp: Let_def not_less split: option.splits)
    then show ?thesis using inv by simp
  next
    case True
    then obtain nd where nd: "found = Some nd" "o_filled nd < q" "q < o_total nd" by blast
    define d where "d = order_of nd"
    have d: "book_lookup S ?b ?oid = Some d" "o_filled d < q" "q < o_total d"
      using found nd by (auto simp: d_def)
    obtain b' where b': "reduce_total S ?b ?oid q = Some b'" "book_ok S b'"
      "book_lookup S b' = (book_lookup S ?b)(?oid \<mapsto> d\<lparr>o_total := q\<rparr>)"
      "book_queue S b' = upd_queue (o_side d) (o_price d) (upd_order ?oid (\<lambda>_. d\<lparr>o_total := q\<rparr>)) ?A"
      "bk_capacity b' = bk_capacity ?b"
      using d by (auto intro: reduce_total_ok [OF rep d(1), of q])
    have same: "e = d" if "e \<in> set (?A sd p)" "o_id e = ?oid" for e sd p
      using that d(1) by (simp add: queue_mem [OF rep])
    have "uncrossed (book_queue S b')"
      by (rule uncrossed_mono [OF u]) (auto simp: b'(4) upd_queue_apply upd_order_def split: if_splits)
    moreover have "lots_of (upd_order ?oid (\<lambda>_. d\<lparr>o_total := q\<rparr>) (?A sd p)) \<le> lots_of (?A sd p)" for sd p
      using same d(3) by (intro upd_order_lots) (auto simp: open_lots_def)
    then have "lots_bound t (book_queue S b')"
      using l by (simp add: b'(4) lots_bound_def upd_queue_apply) (meson order_trans)
    moreover have "fifo (book_queue S b')"
      unfolding b'(4) using same d(2) by (intro fifo_upd_order [OF f]) (auto simp: open_lots_def)
    moreover have "ref_sim (book_queue S b') (ref_reduce_total ?oid q (ms_ref st))"
      unfolding b'(4) by (rule ref_reduce_ok [OF sim book_view [OF rep] d(1)])
    ultimately have "model_inv S cap t
        (st\<lparr>ms_book := b', ms_ref := ref_reduce_total ?oid q (ms_ref st)\<rparr>)"
      using b'(2,3,5) cap below prio d(1) by (auto simp: model_inv_def ids_below_def)
    from model_checks_ok [OF this] this show ?thesis
      using False found(1) nd b'(1) by (auto simp: Let_def)
  qed
qed

lemma retain_live_ok: "book_rep S b Q \<Longrightarrow> \<exists>live. retain_live S b ids = Some live"
proof (induction ids)
  case (Cons oid ids)
  then show ?case using book_get_ok [of b Q oid] by auto
qed simp

lemma fold_apply_fill_ids:
  "ids_below n L \<Longrightarrow> ids_below n (fold apply_fill fs L)"
proof (induction fs arbitrary: L)
  case (Cons f fs)
  have "ids_below n (apply_fill f L)"
    using Cons.prems by (auto simp: ids_below_def apply_fill_def)
  then show ?case using Cons.IH by simp
qed simp

lemma model_match:
  assumes inv: "model_inv S cap t st"
  shows "\<exists>st'. model_command S (CmdMatch sd l q) st = Some (True, st') \<and> model_inv S cap t st' \<and>
    ms_next_id st' = ms_next_id st"
proof -
  let ?b = "ms_book st" and ?A = "book_queue S (ms_book st)"
  obtain Q where rep: "book_rep S ?b Q" and cap: "bk_capacity ?b = cap"
    and sim: "ref_sim ?A (ms_ref st)" and f: "fifo ?A" and u: "uncrossed ?A" and l: "lots_bound t ?A"
    and below: "ids_below (ms_next_id st) (book_lookup S ?b)"
    and prio: "ms_next_priority st = ms_next_id st"
    using inv by (rule model_invE)
  have ok: "book_ok S ?b" using rep by (auto simp: book_ok_def)
  obtain fs A r b' where
    sw: "sweep (opposite sd) (eligible_prices ?A (opposite sd) l) q ?A = (fs, A, r)"
    and b': "match_order S ?b sd l q [] = Some (q - r, b', [] @ fs)" "book_ok S b'" "book_queue S b' = A"
      "book_lookup S b' = fold apply_fill fs (book_lookup S ?b)"
      "fills_valid (opposite sd) (book_lookup S ?b) fs" "bk_capacity b' = bk_capacity ?b"
    by (rule match_order_ok [OF ok])
  have dist: "distinct (eligible_prices ?A (opposite sd) l)" by (rule eligible_prices_distinct)
  obtain r' where r': "ref_match_loop (opposite sd) l (ms_ref st) q [] = Some (r', r, map ref_fill_of fs)"
    "ref_sim A r'"
    using ref_match_loop_ok [OF sim view_ok_sound [OF book_view [OF rep]] refl sw, of "[]"] by auto
  obtain live where live: "retain_live S b' (ms_live st) = Some live"
    using retain_live_ok b'(2) by (metis book_ok_def)
  have "lots_bound t A"
    using l sweep_suffix(2) [OF sw dist] unfolding lots_bound_def by (meson order_trans)
  then have "model_inv S cap t (st\<lparr>ms_book := b', ms_ref := r', ms_live := live\<rparr>)"
    using b'(2,3,4,6) r'(2) cap prio fold_apply_fill_ids [OF below] sweep_fifo [OF sw dist f]
      sweep_uncrossed [OF sw dist u]
    by (simp add: model_inv_def)
  from model_checks_ok [OF this] this show ?thesis
    using b'(1) r'(1) live by (auto simp: ref_match_order_def fills_agree_map)
qed

lemma model_run_ok:
  assumes "model_inv S cap t st" "cap < 2 ^ 32" "ms_next_id st + length cs \<le> cap"
    "t + (\<Sum>c\<leftarrow>cs. inserted c) < 2 ^ 64" "\<forall>c \<in> set cs. inserts_lots c"
  shows "model_run S cs st = Some True"
  using assms
proof (induction cs arbitrary: t st)
  case (Cons c cs)
  have "\<exists>st'. model_command S c st = Some (True, st') \<and> model_inv S cap (t + inserted c) st' \<and>
      ms_next_id st' \<le> ms_next_id st + 1"
  proof (cases c)
    case (CmdInsert sd p q)
    then show ?thesis
      using model_insert [OF Cons.prems(1), of q sd p] Cons.prems(2-5) by simp
  next
    case (CmdCancel w)
    then show ?thesis using model_cancel [OF Cons.prems(1), of w] by auto
  next
    case (CmdReduce w q)
    then show ?thesis using model_reduce [OF Cons.prems(1), of w q] by auto
  next
    case (CmdMatch sd l q)
    then show ?thesis using model_match [OF Cons.prems(1), of sd l q] by auto
  qed
  then obtain st' where st': "model_command S c st = Some (True, st')"
    "model_inv S cap (t + inserted c) st'" "ms_next_id st' \<le> ms_next_id st + 1"
    by blast
  have "model_run S cs st' = Some True"
    using Cons.prems st'(3) by (intro Cons.IH [OF st'(2)]) auto
  then show ?case using st'(1) by simp
qed simp

lemma model_test_ok:
  assumes "length cs \<le> cap" "cap < 2 ^ 32" "(\<Sum>c\<leftarrow>cs. inserted c) < 2 ^ 64"
    "\<forall>c \<in> set cs. inserts_lots c"
  shows "model_test S cap cs = Some True"
proof -
  have rep: "book_rep S (book_with_capacity S cap) (\<lambda>_ _. [])"
    and L: "book_lookup S (book_with_capacity S cap) = Map.empty"
    by (rule book_with_capacity_ok)+
  have A: "book_queue S (book_with_capacity S cap) = (\<lambda>_ _. [])"
    by (intro ext) (simp add: book_queue_rep [OF rep])
  have "rb_levels ref_new sd = []" for sd by (cases sd) (simp_all add: ref_new_def)
  then have "model_inv S cap 0
      \<lparr>ms_book = book_with_capacity S cap, ms_ref = ref_new, ms_live = [], ms_next_id = 0,
       ms_next_priority = 0\<rparr>"
    using rep by (auto simp: model_inv_def book_ok_def A L ref_sim_def ref_level_def fifo_def
        uncrossed_def lots_bound_def lots_of_def ids_below_def)
      (simp add: book_with_capacity_def)
  from model_run_ok [OF this assms(2)] show ?thesis
    using assms by (simp add: model_test_def)
qed

end

end
