(* ===== verification/Book_Properties.thy ===== *)
theory Book_Properties
  imports Model_Test
begin

text \<open>
  The properties of the books: the operations of the indexed book refine the map of FIFO queues for
  every slab with the documented behaviour, matching follows price-time priority and conserves
  quantity, and the indexed book and the reference book cannot be told apart by the model-based test.
  The witnesses run the operations on the vector slab of \<open>Book_Contract\<close>.
\<close>

section \<open>A sample book\<close>

definition sample_order :: "order_id \<Rightarrow> side \<Rightarrow> price_ticks \<Rightarrow> quantity_lots \<Rightarrow> new_order" where
  "sample_order oid sd p q =
     \<lparr>o_id = oid, o_account = 1, o_client = oid, o_side = sd, o_price = p, o_total = q,
      o_filled = 0, o_priority = oid\<rparr>"

definition insert_or_keep ::
  "'s slab_ops \<Rightarrow> new_order \<Rightarrow> 's order_book \<Rightarrow> 's order_book" where
  "insert_or_keep S d b = (case book_insert S b d of Some (Inr b') \<Rightarrow> b' | _ \<Rightarrow> b)"

definition sample_book :: "order_node option list order_book" where
  "sample_book =
     fold (insert_or_keep vec_slab)
       [sample_order 1 Sell 101 5, sample_order 2 Sell 100 4, sample_order 3 Sell 100 3,
        sample_order 4 Buy 98 7]
       (book_with_capacity vec_slab 8)"

lemma insert_or_keep_ok:
  assumes "book_ok vec_slab b" "o_total d < 2 ^ 64" "book_lookup vec_slab b (o_id d) = None"
  shows "book_ok vec_slab (insert_or_keep vec_slab d b)"
    "oid \<noteq> o_id d \<Longrightarrow>
     book_lookup vec_slab (insert_or_keep vec_slab d b) oid = book_lookup vec_slab b oid"
proof -
  obtain Q where rep: "book_rep vec_slab b Q" using assms(1) by (auto simp: book_ok_def)
  have "insert_or_keep vec_slab d b = b \<or> book_ok vec_slab (insert_or_keep vec_slab d b) \<and>
      book_lookup vec_slab (insert_or_keep vec_slab d b) = (book_lookup vec_slab b)(o_id d \<mapsto> d)"
  proof (cases "is_full vec_slab b \<or> o_total d < o_filled d \<or>
      level_overflows (btm_get (bk_levels b (o_side d)) (o_price d)) (open_lots d)")
    case True
    then show ?thesis using vec.book_insert_full [OF rep] by (simp add: insert_or_keep_def)
  next
    case False
    then obtain b' where "book_insert vec_slab b d = Some (Inr b')" "book_ok vec_slab b'"
      "book_lookup vec_slab b' = (book_lookup vec_slab b)(o_id d \<mapsto> d)"
      using vec.book_insert_ok [OF rep _ _ assms(2,3)] by (metis not_less)
    then show ?thesis by (simp add: insert_or_keep_def)
  qed
  then show "book_ok vec_slab (insert_or_keep vec_slab d b)"
    "oid \<noteq> o_id d \<Longrightarrow>
     book_lookup vec_slab (insert_or_keep vec_slab d b) oid = book_lookup vec_slab b oid"
    using assms(1) by auto
qed

lemmas sample_defs = sample_order_def insert_or_keep_def book_insert_def book_with_capacity_def
  is_full_def vec_slab_def vec_get_def level_overflows_def link_tail_def slab_modify_def node_of_def
  btm_get_def btm_insert_def empty_level_def wrapping_add_def checked_sub_def checked_add_def Let_def

lemma sample_book_eval:
  "sample_book =
    \<lparr>bk_bids = [(98, \<lparr>pl_head = Some 3, pl_tail = Some 3, pl_count = 1, pl_total = 7\<rparr>)],
     bk_asks = [(100, \<lparr>pl_head = Some 1, pl_tail = Some 2, pl_count = 2, pl_total = 7\<rparr>),
                (101, \<lparr>pl_head = Some 0, pl_tail = Some 0, pl_count = 1, pl_total = 5\<rparr>)],
     bk_orders =
       [Some \<lparr>o_id = 1, o_account = 1, o_client = 1, o_side = Sell, o_price = 101, o_total = 5,
              o_filled = 0, o_priority = 1, n_prev = None, n_next = None\<rparr>,
        Some \<lparr>o_id = 2, o_account = 1, o_client = 2, o_side = Sell, o_price = 100, o_total = 4,
              o_filled = 0, o_priority = 2, n_prev = None, n_next = Some 2\<rparr>,
        Some \<lparr>o_id = 3, o_account = 1, o_client = 3, o_side = Sell, o_price = 100, o_total = 3,
              o_filled = 0, o_priority = 3, n_prev = Some 1, n_next = None\<rparr>,
        Some \<lparr>o_id = 4, o_account = 1, o_client = 4, o_side = Buy, o_price = 98, o_total = 7,
              o_filled = 0, o_priority = 4, n_prev = None, n_next = None\<rparr>],
     bk_index = [1 \<mapsto> 0, 2 \<mapsto> 1, 3 \<mapsto> 2, 4 \<mapsto> 3],
     bk_capacity = 8\<rparr>"
  by (simp add: sample_book_def sample_defs) (simp add: numeral_2_eq_2 numeral_3_eq_3)

lemma insert_all_ok:
  "book_ok vec_slab b \<Longrightarrow> \<forall>d \<in> set ds. o_total d < 2 ^ 64 \<and> book_lookup vec_slab b (o_id d) = None \<Longrightarrow>
   distinct (map o_id ds) \<Longrightarrow> book_ok vec_slab (fold (insert_or_keep vec_slab) ds b)"
proof (induction ds arbitrary: b)
  case (Cons d ds)
  have d: "o_total d < 2 ^ 64" "book_lookup vec_slab b (o_id d) = None" using Cons.prems(2) by simp_all
  have "book_ok vec_slab (fold (insert_or_keep vec_slab) ds (insert_or_keep vec_slab d b))"
  proof (rule Cons.IH [OF insert_or_keep_ok(1) [OF Cons.prems(1) d]])
    show "\<forall>e \<in> set ds. o_total e < 2 ^ 64 \<and>
        book_lookup vec_slab (insert_or_keep vec_slab d b) (o_id e) = None"
      using Cons.prems(2,3) insert_or_keep_ok(2) [OF Cons.prems(1) d] by (auto simp: image_iff)
  qed (use Cons.prems(3) in simp)
  then show ?case by simp
qed simp

lemma sample_book_ok: "book_ok vec_slab sample_book"
  unfolding sample_book_def
proof (rule insert_all_ok)
  show "book_ok vec_slab (book_with_capacity vec_slab 8)"
    using vec.book_with_capacity_ok(1) [of 8] by (auto simp: book_ok_def)
qed (simp_all add: sample_order_def vec.book_with_capacity_ok(2))

section \<open>The contract, for every slab\<close>

context slab_store
begin

lemma match_price_time:
  assumes ok: "book_ok S b"
  shows "\<exists>fs b'. match_order S b tk l q [] = Some (\<Sum>f\<leftarrow>fs. f_qty f, b', fs) \<and> book_ok S b' \<and>
    (\<Sum>f\<leftarrow>fs. f_qty f) \<le> q \<and>
    prefix (map f_maker fs) (map o_id (makers (book_queue S b) (opposite tk) l)) \<and>
    (\<forall>f \<in> set (butlast fs). f_rest f = 0) \<and>
    fills_valid (opposite tk) (book_lookup S b) fs \<and> book_lookup S b' = fold apply_fill fs (book_lookup S b) \<and>
    (\<forall>p. suffix (map o_priority (book_queue S b' (opposite tk) p)) (map o_priority (book_queue S b (opposite tk) p))) \<and>
    ((\<Sum>f\<leftarrow>fs. f_qty f) < q \<longrightarrow>
       (\<forall>p. eligible (opposite tk) l p \<longrightarrow> book_queue S b' (opposite tk) p = [])) \<and>
    book_queue S b' tk = book_queue S b tk"
proof -
  let ?A = "book_queue S b" and ?ps = "eligible_prices (book_queue S b) (opposite tk) l"
  from ok obtain Q where rep: "book_rep S b Q" by (auto simp: book_ok_def)
  obtain fs A r b' where sw: "sweep (opposite tk) ?ps q ?A = (fs, A, r)"
    and b': "match_order S b tk l q [] = Some (q - r, b', [] @ fs)" "book_ok S b'" "book_queue S b' = A"
      "book_lookup S b' = fold apply_fill fs (book_lookup S b)"
      "fills_valid (opposite tk) (book_lookup S b) fs" "bk_capacity b' = bk_capacity b"
    by (rule match_order_ok [OF ok])
  have dist: "distinct ?ps" by (rule eligible_prices_distinct)
  have sum: "(\<Sum>f\<leftarrow>fs. f_qty f) + r = q" by (rule sweep_sum [OF sw])
  have "A tk = ?A tk" using sweep_other [OF sw, of tk] by (cases tk) auto
  moreover have "prefix (map f_maker fs) (map o_id (makers ?A (opposite tk) l))"
    unfolding makers_def by (rule sweep_exhausts(1) [OF sw dist])
  moreover have "\<forall>f \<in> set (butlast fs). f_rest f = 0" by (rule sweep_exhausts(2) [OF sw dist])
  moreover have "\<forall>p. eligible (opposite tk) l p \<longrightarrow> A (opposite tk) p = []" if "0 < r"
    using sweep_clears [OF sw that finite_prices [OF rep]] by blast
  moreover have "q - r = (\<Sum>f\<leftarrow>fs. f_qty f)" "(\<Sum>f\<leftarrow>fs. f_qty f) \<le> q"
    "(\<Sum>f\<leftarrow>fs. f_qty f) < q \<Longrightarrow> 0 < r"
    using sum by linarith+
  moreover have "\<forall>p. suffix (map o_priority (A (opposite tk) p)) (map o_priority (?A (opposite tk) p))"
    using sweep_suffix(1) [OF sw dist] by blast
  ultimately show ?thesis
    using b'(1-5) by (intro exI [of _ fs] exI [of _ b'] conjI impI) simp_all
qed

lemma insert_refines:
  assumes ok: "book_ok S b" and d: "o_total d < 2 ^ 64" and new: "book_lookup S b (o_id d) = None"
  shows "if bk_capacity b \<le> card (dom (book_lookup S b)) \<or> o_total d < o_filled d \<or>
      (book_queue S b (o_side d) (o_price d) \<noteq> [] \<and>
        (2 ^ 64 \<le> lots_of (book_queue S b (o_side d) (o_price d)) + open_lots d \<or>
         2 ^ 32 \<le> length (book_queue S b (o_side d) (o_price d)) + 1))
    then book_insert S b d = Some (Inl CapacityExhausted)
    else \<exists>b'. book_insert S b d = Some (Inr b') \<and> book_ok S b' \<and>
      book_lookup S b' = (book_lookup S b)(o_id d \<mapsto> d) \<and>
      book_queue S b' = upd_queue (o_side d) (o_price d) (\<lambda>q. q @ [d]) (book_queue S b)"
proof -
  from ok obtain Q where rep: "book_rep S b Q" by (auto simp: book_ok_def)
  have full: "is_full S b \<longleftrightarrow> bk_capacity b \<le> card (dom (book_lookup S b))"
    using lookup_card(2) [OF rep] by (simp add: is_full_def live_order_count_def)
  show ?thesis
    unfolding full [symmetric] overflow_rep [OF rep, symmetric]
  proof (cases "is_full S b \<or> o_total d < o_filled d \<or>
      level_overflows (btm_get (bk_levels b (o_side d)) (o_price d)) (open_lots d)")
    case True
    from book_insert_full [OF rep True]
    show "if is_full S b \<or> o_total d < o_filled d \<or>
        level_overflows (btm_get (bk_levels b (o_side d)) (o_price d)) (open_lots d)
      then book_insert S b d = Some (Inl CapacityExhausted)
      else \<exists>b'. book_insert S b d = Some (Inr b') \<and> book_ok S b' \<and>
        book_lookup S b' = (book_lookup S b)(o_id d \<mapsto> d) \<and>
        book_queue S b' = upd_queue (o_side d) (o_price d) (\<lambda>q. q @ [d]) (book_queue S b)"
      by (simp only: True if_True)
  next
    case False
    then have "\<exists>b'. book_insert S b d = Some (Inr b') \<and> book_ok S b' \<and>
        book_lookup S b' = (book_lookup S b)(o_id d \<mapsto> d) \<and>
        book_queue S b' = upd_queue (o_side d) (o_price d) (\<lambda>q. q @ [d]) (book_queue S b)"
      using book_insert_ok [OF rep _ _ d new] by (metis not_less)
    then show "if is_full S b \<or> o_total d < o_filled d \<or>
        level_overflows (btm_get (bk_levels b (o_side d)) (o_price d)) (open_lots d)
      then book_insert S b d = Some (Inl CapacityExhausted)
      else \<exists>b'. book_insert S b d = Some (Inr b') \<and> book_ok S b' \<and>
        book_lookup S b' = (book_lookup S b)(o_id d \<mapsto> d) \<and>
        book_queue S b' = upd_queue (o_side d) (o_price d) (\<lambda>q. q @ [d]) (book_queue S b)"
      by (simp only: False if_False)
  qed
qed

lemma remove_refines:
  assumes ok: "book_ok S b"
  shows "case book_lookup S b oid of
      None \<Rightarrow> book_remove S b oid = Some (None, b)
    | Some d \<Rightarrow> \<exists>n b'. book_remove S b oid = Some (Some n, b') \<and> order_of n = d \<and> book_ok S b' \<and>
        book_lookup S b' = (book_lookup S b)(oid := None) \<and>
        book_queue S b' = upd_queue (o_side d) (o_price d) (drop_order oid) (book_queue S b)"
proof -
  from ok obtain Q where rep: "book_rep S b Q" by (auto simp: book_ok_def)
  show ?thesis
  proof (cases "book_lookup S b oid")
    case None
    then show ?thesis using book_remove_absent [OF rep] by simp
  next
    case (Some d)
    then show ?thesis by (auto elim: book_remove_ok [OF rep])
  qed
qed

lemma reduce_refines:
  assumes ok: "book_ok S b" and d: "book_lookup S b oid = Some d" "o_filled d \<le> n" "n \<le> o_total d"
  shows "\<exists>b'. reduce_total S b oid n = Some b' \<and> book_ok S b' \<and>
    book_lookup S b' = (book_lookup S b)(oid \<mapsto> d\<lparr>o_total := n\<rparr>) \<and>
    book_queue S b' = upd_queue (o_side d) (o_price d) (upd_order oid (\<lambda>_. d\<lparr>o_total := n\<rparr>)) (book_queue S b)"
proof -
  from ok obtain Q where rep: "book_rep S b Q" by (auto simp: book_ok_def)
  show ?thesis using reduce_total_ok [OF rep d] by metis
qed

end

section \<open>Properties\<close>

text \<open>C2. Matching follows price-time priority and conserves quantity.  On a well-formed book
  \<open>match_order\<close> returns (no panic, both loops end); the fills hit a prefix of the eligible resting
  orders in best-price-first, first-in-first-out order and exhaust every maker but possibly the last;
  each fill names the resting order it hits, at that order's price, takes no more than its open lots and
  reports its totals after the fill; afterwards the resting orders are the old ones with exactly these
  fills applied, exhausted ones removed, and no queue changes its order; the returned quantity is the sum
  of the fills and never exceeds the request; an unfilled remainder means that no resting order at an
  eligible price is left; the other side of the book is untouched, and the book stays well-formed.\<close>

theorem match_order_price_time:
  assumes "slab_store S" "book_ok S b"
  shows "\<exists>fs b'. match_order S b tk l q [] = Some (\<Sum>f\<leftarrow>fs. f_qty f, b', fs) \<and> book_ok S b' \<and>
    (\<Sum>f\<leftarrow>fs. f_qty f) \<le> q \<and>
    prefix (map f_maker fs) (map o_id (makers (book_queue S b) (opposite tk) l)) \<and>
    (\<forall>f \<in> set (butlast fs). f_rest f = 0) \<and>
    fills_valid (opposite tk) (book_lookup S b) fs \<and> book_lookup S b' = fold apply_fill fs (book_lookup S b) \<and>
    (\<forall>p. suffix (map o_priority (book_queue S b' (opposite tk) p)) (map o_priority (book_queue S b (opposite tk) p))) \<and>
    ((\<Sum>f\<leftarrow>fs. f_qty f) < q \<longrightarrow>
       (\<forall>p. eligible (opposite tk) l p \<longrightarrow> book_queue S b' (opposite tk) p = [])) \<and>
    book_queue S b' tk = book_queue S b tk"
  by (rule slab_store.match_price_time [OF assms])

theorem match_order_price_time_witness:
  "slab_store vec_slab \<and> book_ok vec_slab sample_book \<and>
   (\<exists>fs b'. match_order vec_slab sample_book Buy 100 6 [] = Some (\<Sum>f\<leftarrow>fs. f_qty f, b', fs) \<and>
     prefix (map f_maker fs) (map o_id (makers (book_queue vec_slab sample_book) Sell 100)) \<and>
     fills_valid Sell (book_lookup vec_slab sample_book) fs \<and>
     book_lookup vec_slab b' = fold apply_fill fs (book_lookup vec_slab sample_book))"
  using match_order_price_time [OF vec.slab_store_axioms sample_book_ok, of Buy 100 6]
    vec.slab_store_axioms sample_book_ok by auto

text \<open>C14. Insertion refines appending to the FIFO queue.  On a well-formed book and for an order with
  a fresh id, \<open>insert\<close> returns the capacity error exactly when the book is full, more is filled than
  ordered, or the level's aggregate or count would overflow; otherwise the order is stored under its
  id and stands last in the queue of its side and price, every other order keeps its place, and the
  book stays well-formed.\<close>

theorem book_insert_refines:
  assumes "slab_store S" "book_ok S b" "o_total d < 2 ^ 64" "book_lookup S b (o_id d) = None"
  shows "if bk_capacity b \<le> card (dom (book_lookup S b)) \<or> o_total d < o_filled d \<or>
      (book_queue S b (o_side d) (o_price d) \<noteq> [] \<and>
        (2 ^ 64 \<le> lots_of (book_queue S b (o_side d) (o_price d)) + open_lots d \<or>
         2 ^ 32 \<le> length (book_queue S b (o_side d) (o_price d)) + 1))
    then book_insert S b d = Some (Inl CapacityExhausted)
    else \<exists>b'. book_insert S b d = Some (Inr b') \<and> book_ok S b' \<and>
      book_lookup S b' = (book_lookup S b)(o_id d \<mapsto> d) \<and>
      book_queue S b' = upd_queue (o_side d) (o_price d) (\<lambda>q. q @ [d]) (book_queue S b)"
  by (rule slab_store.insert_refines [OF assms])

lemma sample_lookup:
  "book_lookup vec_slab sample_book 9 = None"
  "book_lookup vec_slab sample_book 2 = Some (sample_order 2 Sell 100 4)"
  by (simp_all add: book_lookup_def sample_book_eval orders_of_def order_of_def vec_slab_def
      vec_get_def sample_order_def)

theorem book_insert_refines_witness:
  "(\<exists>r. book_insert vec_slab sample_book (sample_order 9 Buy 98 2) = Some r) \<and>
   book_ok vec_slab sample_book \<and> book_lookup vec_slab sample_book 9 = None"
  using book_insert_refines [OF vec.slab_store_axioms sample_book_ok, of "sample_order 9 Buy 98 2"]
    sample_book_ok sample_lookup(1)
  by (simp add: sample_order_def split: if_splits) blast+

text \<open>C15. Removal refines deleting from the FIFO queue.  On a well-formed book \<open>remove\<close> never panics:
  an unknown id changes nothing, and a known one returns the stored order, deletes it from the index
  and from the queue of its side and price (every other order keeps its place), and leaves the book
  well-formed.\<close>

theorem book_remove_refines:
  assumes "slab_store S" "book_ok S b"
  shows "case book_lookup S b oid of
      None \<Rightarrow> book_remove S b oid = Some (None, b)
    | Some d \<Rightarrow> \<exists>n b'. book_remove S b oid = Some (Some n, b') \<and> order_of n = d \<and> book_ok S b' \<and>
        book_lookup S b' = (book_lookup S b)(oid := None) \<and>
        book_queue S b' = upd_queue (o_side d) (o_price d) (drop_order oid) (book_queue S b)"
  by (rule slab_store.remove_refines [OF assms])

theorem book_remove_refines_witness:
  "\<exists>n b'. book_remove vec_slab sample_book 2 = Some (Some n, b') \<and> o_id n = 2 \<and> book_ok vec_slab b'"
  using book_remove_refines [OF vec.slab_store_axioms sample_book_ok, of 2]
  by (auto simp: sample_lookup) (metis order_of_simps(1) new_order.select_convs(1) sample_order_def)

text \<open>C16. Reducing the total of a resting order keeps its place.  On a well-formed book, lowering the
  total of a known order to a value not below what is filled changes that order's total and nothing
  else: it keeps its queue position, the level aggregate follows, and the book stays well-formed.\<close>

theorem reduce_total_refines:
  assumes "slab_store S" "book_ok S b" "book_lookup S b oid = Some d" "o_filled d \<le> n" "n \<le> o_total d"
  shows "\<exists>b'. reduce_total S b oid n = Some b' \<and> book_ok S b' \<and>
    book_lookup S b' = (book_lookup S b)(oid \<mapsto> d\<lparr>o_total := n\<rparr>) \<and>
    book_queue S b' = upd_queue (o_side d) (o_price d) (upd_order oid (\<lambda>_. d\<lparr>o_total := n\<rparr>)) (book_queue S b)"
  by (rule slab_store.reduce_refines [OF assms])

theorem reduce_total_refines_witness:
  "\<exists>b'. reduce_total vec_slab sample_book 2 3 = Some b' \<and> book_ok vec_slab b'"
  using reduce_total_refines [OF vec.slab_store_axioms sample_book_ok sample_lookup(2), of 3]
  by (auto simp: sample_order_def)

text \<open>C17. The model-based test of the two books passes on every input: for every command list that
  inserts positive quantities summing to less than 2^64 and is no longer than the capacity, the
  indexed book never panics, its fills and its filled quantity equal those of the reference book
  after every command, the canonical rows of both books are equal after every command, and the
  structural self check of the indexed book accepts every state.\<close>

theorem model_test_passes:
  assumes "slab_store S" "length cs \<le> cap" "cap < 2 ^ 32" "(\<Sum>c\<leftarrow>cs. inserted c) < 2 ^ 64"
    "\<forall>c \<in> set cs. inserts_lots c"
  shows "model_test S cap cs = Some True"
  by (rule slab_store.model_test_ok [OF assms])

theorem model_test_passes_witness:
  "model_test vec_slab 8
     [CmdInsert Sell 101 5, CmdInsert Sell 100 4, CmdInsert Buy 98 3, CmdMatch Buy 101 6,
      CmdReduce 0 2, CmdCancel 1, CmdMatch Sell 90 1] = Some True"
  by (rule model_test_passes [OF vec.slab_store_axioms]) simp_all

end
