(* ===== verification/Account.thy ===== *)
theory Account
  imports Types
begin

text \<open>
  Per-account risk state (\<open>trading-core/src/account.rs\<close>): positions with their working-order
  reservations, and the ring of recent request results that makes an exact retry idempotent.
\<close>

section \<open>Positions and reservations\<close>

record instrument_position =
  ip_position_lots :: int
  ip_open_buy_lots :: nat
  ip_open_sell_lots :: nat
  ip_open_buy_notional :: nat
  ip_open_sell_notional :: nat

definition flat_position :: instrument_position where
  "flat_position =
     \<lparr>ip_position_lots = 0, ip_open_buy_lots = 0, ip_open_sell_lots = 0, ip_open_buy_notional = 0,
      ip_open_sell_notional = 0\<rparr>"

fun ip_open_lots :: "instrument_position \<Rightarrow> side \<Rightarrow> nat" where
  "ip_open_lots ip Buy = ip_open_buy_lots ip"
| "ip_open_lots ip Sell = ip_open_sell_lots ip"

text \<open>\<open>reserve\<close> and \<open>release\<close> update in place and stop at the first overflow: the Boolean is whether
  they returned \<open>Some\<close>, and a failed notional leaves the lots already changed.\<close>

fun ip_reserve ::
  "side \<Rightarrow> quantity_lots \<Rightarrow> notional \<Rightarrow> instrument_position \<Rightarrow> bool \<times> instrument_position" where
  "ip_reserve Buy lots notional ip =
     (case checked_add 64 (ip_open_buy_lots ip) lots of
        None \<Rightarrow> (False, ip)
      | Some l \<Rightarrow>
          (let ip' = ip\<lparr>ip_open_buy_lots := l\<rparr> in
           case checked_add 128 (ip_open_buy_notional ip') notional of
             None \<Rightarrow> (False, ip')
           | Some v \<Rightarrow> (True, ip'\<lparr>ip_open_buy_notional := v\<rparr>)))"
| "ip_reserve Sell lots notional ip =
     (case checked_add 64 (ip_open_sell_lots ip) lots of
        None \<Rightarrow> (False, ip)
      | Some l \<Rightarrow>
          (let ip' = ip\<lparr>ip_open_sell_lots := l\<rparr> in
           case checked_add 128 (ip_open_sell_notional ip') notional of
             None \<Rightarrow> (False, ip')
           | Some v \<Rightarrow> (True, ip'\<lparr>ip_open_sell_notional := v\<rparr>)))"

fun ip_release ::
  "side \<Rightarrow> quantity_lots \<Rightarrow> notional \<Rightarrow> instrument_position \<Rightarrow> bool \<times> instrument_position" where
  "ip_release Buy lots notional ip =
     (case checked_sub (ip_open_buy_lots ip) lots of
        None \<Rightarrow> (False, ip)
      | Some l \<Rightarrow>
          (let ip' = ip\<lparr>ip_open_buy_lots := l\<rparr> in
           case checked_sub (ip_open_buy_notional ip') notional of
             None \<Rightarrow> (False, ip')
           | Some v \<Rightarrow> (True, ip'\<lparr>ip_open_buy_notional := v\<rparr>)))"
| "ip_release Sell lots notional ip =
     (case checked_sub (ip_open_sell_lots ip) lots of
        None \<Rightarrow> (False, ip)
      | Some l \<Rightarrow>
          (let ip' = ip\<lparr>ip_open_sell_lots := l\<rparr> in
           case checked_sub (ip_open_sell_notional ip') notional of
             None \<Rightarrow> (False, ip')
           | Some v \<Rightarrow> (True, ip'\<lparr>ip_open_sell_notional := v\<rparr>)))"

definition apply_fill_to_position ::
  "side \<Rightarrow> quantity_lots \<Rightarrow> instrument_position \<Rightarrow> bool \<times> instrument_position" where
  "apply_fill_to_position sd quantity ip =
     (case (do {
        signed \<leftarrow> try_signed 64 quantity;
        (case sd of
           Buy \<Rightarrow> checked_iadd 64 (ip_position_lots ip) signed
         | Sell \<Rightarrow> checked_isub 64 (ip_position_lots ip) signed)
      }) of
        None \<Rightarrow> (False, ip)
      | Some p \<Rightarrow> (True, ip\<lparr>ip_position_lots := p\<rparr>))"

definition instrument_exposure :: "instrument_position \<Rightarrow> price_ticks \<Rightarrow> notional option" where
  "instrument_exposure ip mark = do {
     value \<leftarrow> checked_mul 128 (unsigned_abs (ip_position_lots ip)) (unsigned_abs mark);
     gross \<leftarrow> checked_add 128 value (ip_open_buy_notional ip);
     checked_add 128 gross (ip_open_sell_notional ip)
   }"

section \<open>The request cache\<close>

record cached_request =
  cr_request_id :: request_id
  cr_fingerprint :: nat
  cr_outcome :: execution_report

record request_cache =
  rc_entries :: "cached_request option list"
  rc_index :: "request_id \<rightharpoonup> nat"
  rc_next :: nat

datatype cache_hit = Retry execution_report | Conflict

definition cache_new :: "nat \<Rightarrow> request_cache" where
  "cache_new capacity =
     \<lparr>rc_entries = replicate (max capacity 1) None, rc_index = Map.empty, rc_next = 0\<rparr>"

definition cache_lookup :: "request_cache \<Rightarrow> request_id \<Rightarrow> nat \<Rightarrow> cache_hit option" where
  "cache_lookup rc rid fingerprint = do {
     slot \<leftarrow> rc_index rc rid;
     entry \<leftarrow> Option.bind (idx (rc_entries rc) slot) id;
     if cr_request_id entry \<noteq> rid then None
     else Some (if cr_fingerprint entry = fingerprint then Retry (cr_outcome entry) else Conflict)
   }"

definition cache_record ::
  "request_cache \<Rightarrow> request_id \<Rightarrow> nat \<Rightarrow> execution_report \<Rightarrow> request_cache option" where
  "cache_record rc rid fingerprint outcome = do {
     old \<leftarrow> idx (rc_entries rc) (rc_next rc);
     let index =
       (case old of
          Some previous \<Rightarrow>
            if rc_index rc (cr_request_id previous) = Some (rc_next rc)
            then (rc_index rc)(cr_request_id previous := None) else rc_index rc
        | None \<Rightarrow> rc_index rc);
     Some
       \<lparr>rc_entries = (rc_entries rc)[rc_next rc :=
          Some \<lparr>cr_request_id = rid, cr_fingerprint = fingerprint, cr_outcome = outcome\<rparr>],
        rc_index = index(rid \<mapsto> rc_next rc),
        rc_next = (rc_next rc + 1) mod length (rc_entries rc)\<rparr>
   }"

definition canonical_entries :: "request_cache \<Rightarrow> (request_id \<times> nat \<times> execution_report) list" where
  "canonical_entries rc =
     (let len = length (rc_entries rc) in
      map (\<lambda>e. (cr_request_id e, cr_fingerprint e, cr_outcome e))
        (List.map_filter (\<lambda>offset. rc_entries rc ! ((rc_next rc + offset) mod len)) [0..<len]))"

section \<open>Accounts\<close>

record account_state =
  ac_id :: account_id
  ac_enabled :: bool
  ac_limits :: account_limits
  ac_last_client_seq :: nat
  ac_positions :: "instrument_position list"
  ac_cache :: request_cache

definition account_new ::
  "account_id \<Rightarrow> bool \<Rightarrow> account_limits \<Rightarrow> nat \<Rightarrow> nat \<Rightarrow> account_state" where
  "account_new aid enabled limits instruments dedup_window =
     \<lparr>ac_id = aid, ac_enabled = enabled, ac_limits = limits, ac_last_client_seq = 0,
      ac_positions = replicate instruments flat_position, ac_cache = cache_new dedup_window\<rparr>"

section \<open>The fingerprint\<close>

text \<open>FNV-1a over the little-endian bytes of the request's fields.\<close>

fun fnv_bytes :: "nat \<Rightarrow> nat \<Rightarrow> nat \<Rightarrow> nat" where
  "fnv_bytes 0 value hash = hash"
| "fnv_bytes (Suc n) value hash =
     fnv_bytes n (value div 256) ((xor hash (value mod 256) * 0x100000001b3) mod 2 ^ 64)"

definition fnv_mix :: "nat \<Rightarrow> nat \<Rightarrow> nat" where
  "fnv_mix value hash = fnv_bytes 8 value hash"

definition request_fingerprint :: "order_request \<Rightarrow> nat" where
  "request_fingerprint rq =
     fold fnv_mix
       [request_kind_wire (rq_kind rq), side_wire (rq_side rq), order_type_wire (rq_order_type rq),
        rq_account rq, rq_instrument rq, rq_client_order_id rq, rq_target_client_order_id rq,
        rq_client_seq rq, nat (rq_price rq mod 2 ^ 64), rq_quantity rq]
       0xcbf29ce484222325"

end
