(* ===== verification/Market.thy ===== *)
theory Market
  imports Types Ordered_Map
begin

text \<open>
  The external market view and its feed synchronization state machine
  (\<open>trading-core/src/market.rs\<close>): a bounded ladder of the best levels per side, replaced as a whole
  by a validated snapshot and updated level by level while the feed is live.
\<close>

section \<open>Data\<close>

record feed_counters =
  fc_applied :: nat
  fc_duplicates :: nat
  fc_gaps :: nat
  fc_resyncs :: nat
  fc_out_of_order :: nat
  fc_invalid_prices :: nat

record market_update =
  mu_previous_state :: feed_state
  mu_state :: feed_state
  mu_duplicate :: bool

definition state_changed :: "market_update \<Rightarrow> bool" where
  "state_changed u \<longleftrightarrow> mu_previous_state u \<noteq> mu_state u"

type_synonym ladder_map = "(price_ticks, nat) btm"

record market_view =
  mv_state :: feed_state
  mv_epoch :: nat
  mv_last_source_seq :: nat
  mv_bids :: ladder_map
  mv_asks :: ladder_map
  mv_scratch_bids :: ladder_map
  mv_scratch_asks :: ladder_map
  mv_scratch_levels :: nat
  mv_snapshot_seq :: nat
  mv_last_trade_price :: "price_ticks option"
  mv_last_update_time_ns :: nat
  mv_counters :: feed_counters
  mv_min_price :: int
  mv_max_price :: int
  mv_max_depth :: nat

definition market_new :: "int \<Rightarrow> int \<Rightarrow> nat \<Rightarrow> market_view" where
  "market_new min_price max_price max_depth =
     \<lparr>mv_state = Unsynchronized, mv_epoch = 0, mv_last_source_seq = 0, mv_bids = [], mv_asks = [],
      mv_scratch_bids = [], mv_scratch_asks = [], mv_scratch_levels = 0, mv_snapshot_seq = 0,
      mv_last_trade_price = None, mv_last_update_time_ns = 0,
      mv_counters = \<lparr>fc_applied = 0, fc_duplicates = 0, fc_gaps = 0, fc_resyncs = 0,
        fc_out_of_order = 0, fc_invalid_prices = 0\<rparr>,
      mv_min_price = min_price, mv_max_price = max_price, mv_max_depth = max max_depth 1\<rparr>"

section \<open>Readers\<close>

fun retained_levels :: "market_view \<Rightarrow> side \<Rightarrow> nat" where
  "retained_levels v Buy = length (mv_bids v)"
| "retained_levels v Sell = length (mv_asks v)"

definition mv_best_bid :: "market_view \<Rightarrow> price_ticks option" where
  "mv_best_bid v = map_option fst (btm_last (mv_bids v))"

definition mv_best_ask :: "market_view \<Rightarrow> price_ticks option" where
  "mv_best_ask v = map_option fst (btm_first (mv_asks v))"

definition mv_reference_price :: "market_view \<Rightarrow> price_ticks option" where
  "mv_reference_price v =
     (case (mv_best_bid v, mv_best_ask v) of
        (Some bid, Some ask) \<Rightarrow> if bid < ask then midpoint bid ask else mv_last_trade_price v
      | _ \<Rightarrow> mv_last_trade_price v)"

fun pending_levels :: "market_view \<Rightarrow> side \<Rightarrow> (price_ticks \<times> quantity_lots) list" where
  "pending_levels v Buy = mv_scratch_bids v"
| "pending_levels v Sell = mv_scratch_asks v"

fun mv_best :: "market_view \<Rightarrow> side \<Rightarrow> price_ticks option" where
  "mv_best v Buy = mv_best_bid v"
| "mv_best v Sell = mv_best_ask v"

fun mv_levels :: "market_view \<Rightarrow> side \<Rightarrow> (price_ticks \<times> quantity_lots) list" where
  "mv_levels v Buy = rev (mv_bids v)"
| "mv_levels v Sell = mv_asks v"

section \<open>Updates\<close>

datatype sequence_check = SeqOk | SeqDuplicate | SeqGap | SeqOutOfOrder

definition check_sequence :: "market_view \<Rightarrow> nat \<Rightarrow> sequence_check" where
  "check_sequence v source_seq =
     (case mv_state v of
        Unsynchronized \<Rightarrow> SeqOk
      | Gap \<Rightarrow> SeqOk
      | _ \<Rightarrow>
          if mv_last_source_seq v = 0 then SeqOk
          else if source_seq = mv_last_source_seq v then SeqDuplicate
          else if source_seq < mv_last_source_seq v then SeqOutOfOrder
          else if source_seq = wrapping_add 64 (mv_last_source_seq v) 1 then SeqOk
          else SeqGap)"

text \<open>\<open>while levels.len() > max_depth\<close> drops the worst level.\<close>

function trim :: "side \<Rightarrow> ladder_map \<Rightarrow> nat \<Rightarrow> ladder_map" where
  "trim sd m n =
     (if n < length m then trim sd (case sd of Buy \<Rightarrow> tl m | Sell \<Rightarrow> butlast m) n else m)"
  by pat_completeness auto

termination
  by (relation "measure (\<lambda>(sd, m, n). length m)") (auto split: side.splits)

declare trim.simps [simp del]

fun improves :: "side \<Rightarrow> price_ticks \<Rightarrow> ladder_map \<Rightarrow> bool" where
  "improves Buy p m = (case btm_first m of Some (worst, _) \<Rightarrow> worst < p | None \<Rightarrow> False)"
| "improves Sell p m = (case btm_last m of Some (worst, _) \<Rightarrow> p < worst | None \<Rightarrow> False)"

definition set_bounded :: "ladder_map \<Rightarrow> side \<Rightarrow> price_ticks \<Rightarrow> nat \<Rightarrow> nat \<Rightarrow> ladder_map" where
  "set_bounded m sd p q max_depth =
     (if btm_get m p \<noteq> None then btm_insert p q m
      else if max_depth \<le> length m \<and> \<not> improves sd p m then m
      else trim sd (btm_insert p q m) max_depth)"

definition enter_gap :: "market_view \<Rightarrow> market_view" where
  "enter_gap v =
     v\<lparr>mv_state := Gap, mv_scratch_bids := [], mv_scratch_asks := [], mv_scratch_levels := 0\<rparr>"

fun quoted_price :: "market_event_kind \<Rightarrow> price_ticks option" where
  "quoted_price (SnapshotLevel sd p q) = Some p"
| "quoted_price (LevelSet sd p q) = Some p"
| "quoted_price (Trade sd p q) = Some p"
| "quoted_price _ = None"

definition bump_counter :: "((nat \<Rightarrow> nat) \<Rightarrow> feed_counters \<Rightarrow> feed_counters) \<Rightarrow> market_view \<Rightarrow> market_view" where
  "bump_counter upd v = v\<lparr>mv_counters := upd (\<lambda>n. wrapping_add 64 n 1) (mv_counters v)\<rparr>"

text \<open>The \<open>match kind\<close> of \<open>apply\<close>, after the sequence, price and epoch checks.\<close>

fun apply_kind :: "market_event_kind \<Rightarrow> market_view \<Rightarrow> market_view" where
  "apply_kind (SnapshotBegin snapshot_seq) v =
     v\<lparr>mv_scratch_bids := [], mv_scratch_asks := [], mv_scratch_levels := 0,
       mv_snapshot_seq := snapshot_seq, mv_state := ApplyingSnapshot\<rparr>"
| "apply_kind (SnapshotLevel sd p q) v =
     (if mv_state v = ApplyingSnapshot \<and> q \<noteq> 0 then
        (case sd of
           Buy \<Rightarrow> v\<lparr>mv_scratch_bids := set_bounded (mv_scratch_bids v) sd p q (mv_max_depth v)\<rparr>
         | Sell \<Rightarrow> v\<lparr>mv_scratch_asks := set_bounded (mv_scratch_asks v) sd p q (mv_max_depth v)\<rparr>)
        \<lparr>mv_scratch_levels := wrapping_add 32 (mv_scratch_levels v) 1\<rparr>
      else v)"
| "apply_kind (SnapshotEnd snapshot_seq level_count) v =
     (let v' =
        (if mv_state v = ApplyingSnapshot \<and> snapshot_seq = mv_snapshot_seq v \<and>
            level_count = mv_scratch_levels v
         then bump_counter fc_resyncs_update
           (v\<lparr>mv_bids := trim Buy (mv_scratch_bids v) (mv_max_depth v),
              mv_asks := trim Sell (mv_scratch_asks v) (mv_max_depth v), mv_state := Live\<rparr>)
         else enter_gap v)
      in v'\<lparr>mv_scratch_bids := [], mv_scratch_asks := [], mv_scratch_levels := 0\<rparr>)"
| "apply_kind (LevelSet sd p q) v =
     (if mv_state v = Live then
        (case sd of
           Buy \<Rightarrow> v\<lparr>mv_bids := (if q = 0 then btm_remove p (mv_bids v)
                                else set_bounded (mv_bids v) sd p q (mv_max_depth v))\<rparr>
         | Sell \<Rightarrow> v\<lparr>mv_asks := (if q = 0 then btm_remove p (mv_asks v)
                                 else set_bounded (mv_asks v) sd p q (mv_max_depth v))\<rparr>)
      else v)"
| "apply_kind (Trade sd p q) v =
     (if mv_state v = Live then v\<lparr>mv_last_trade_price := Some p\<rparr> else v)"
| "apply_kind Heartbeat v = v"
| "apply_kind (FeedReset new_epoch) v =
     v\<lparr>mv_epoch := new_epoch, mv_last_source_seq := 0, mv_bids := [], mv_asks := [],
       mv_scratch_bids := [], mv_scratch_asks := [], mv_scratch_levels := 0,
       mv_last_trade_price := None, mv_state := Unsynchronized\<rparr>"

definition out_of_domain :: "market_view \<Rightarrow> market_event_kind \<Rightarrow> bool" where
  "out_of_domain v kind =
     (case quoted_price kind of
        Some p \<Rightarrow> p < mv_min_price v \<or> mv_max_price v < p
      | None \<Rightarrow> False)"

definition stale_reset :: "market_view \<Rightarrow> market_event_kind \<Rightarrow> bool" where
  "stale_reset v kind = (case kind of FeedReset new_epoch \<Rightarrow> new_epoch \<le> mv_epoch v | _ \<Rightarrow> False)"

definition market_result :: "feed_state \<Rightarrow> bool \<Rightarrow> market_view \<Rightarrow> market_update \<times> market_view" where
  "market_result previous dup v =
     (\<lparr>mu_previous_state = previous, mu_state = mv_state v, mu_duplicate = dup\<rparr>, v)"

text \<open>\<open>apply\<close> after the sequence check has let the message through.\<close>

definition apply_checked ::
  "feed_state \<Rightarrow> market_event_kind \<Rightarrow> nat \<Rightarrow> market_view \<Rightarrow> market_update \<times> market_view" where
  "apply_checked previous kind recv_time_ns v =
     (if out_of_domain v kind
      then market_result previous False (enter_gap (bump_counter fc_invalid_prices_update v))
      else if stale_reset v kind
      then market_result previous False (bump_counter fc_out_of_order_update v)
      else market_result previous False
        (apply_kind kind
          ((bump_counter fc_applied_update v)\<lparr>mv_last_update_time_ns := recv_time_ns\<rparr>)))"

definition market_apply ::
  "market_view \<Rightarrow> nat \<Rightarrow> market_event_kind \<Rightarrow> nat \<Rightarrow> market_update \<times> market_view" where
  "market_apply v source_seq kind recv_time_ns =
     (let previous = mv_state v in
      if source_seq \<noteq> 0 then
        (case check_sequence v source_seq of
           SeqDuplicate \<Rightarrow> market_result previous True (bump_counter fc_duplicates_update v)
         | SeqGap \<Rightarrow> market_result previous False (enter_gap (bump_counter fc_gaps_update v))
         | SeqOutOfOrder \<Rightarrow>
             market_result previous False (enter_gap (bump_counter fc_out_of_order_update v))
         | SeqOk \<Rightarrow>
             apply_checked previous kind recv_time_ns (v\<lparr>mv_last_source_seq := source_seq\<rparr>))
      else apply_checked previous kind recv_time_ns v)"

section \<open>The bounded ladder\<close>

text \<open>The best \<open>n\<close> levels of a full ladder.\<close>

fun top_n :: "side \<Rightarrow> nat \<Rightarrow> ladder_map \<Rightarrow> ladder_map" where
  "top_n Buy n m = drop (length m - n) m"
| "top_n Sell n m = take n m"

lemma trim_top_n: "trim sd m n = top_n sd n m"
proof (induction sd m n rule: trim.induct)
  case (1 sd m n)
  show ?case
  proof (cases "n < length m")
    case True
    then have "trim sd m n = top_n sd n (case sd of Buy \<Rightarrow> tl m | Sell \<Rightarrow> butlast m)"
      using 1 by (simp add: trim.simps [of sd m n])
    also have "\<dots> = top_n sd n m"
    proof (cases sd)
      case Buy
      have "drop (length (tl m) - n) (tl m) = drop (Suc (length m - 1 - n)) m"
        by (simp add: drop_Suc)
      also have "Suc (length m - 1 - n) = length m - n" using True by simp
      finally show ?thesis by (simp add: Buy)
    next
      case Sell
      have "n \<le> length m - 1" using True by simp
      then show ?thesis by (simp add: Sell butlast_conv_take take_take min_absorb1)
    qed
    finally show ?thesis .
  next
    case False
    then show ?thesis by (cases sd) (simp_all add: trim.simps [of _ m n])
  qed
qed

lemma btm_split:
  fixes p :: "'k::linorder"
  assumes "btm_ok m"
  shows "m = filter (\<lambda>e. fst e < p) m @ (case btm_get m p of None \<Rightarrow> [] | Some v \<Rightarrow> [(p, v)]) @
    filter (\<lambda>e. p < fst e) m"
  using assms
proof (induction m)
  case (Cons e m)
  obtain k v where e: "e = (k, v)" by (cases e)
  have ok: "btm_ok m" "\<forall>x \<in> set m. k < fst x" using Cons.prems by (auto simp: e btm_ok_Cons)
  consider "k < p" | "k = p" | "p < k" by (rule linorder_cases)
  then show ?case
  proof cases
    case 1
    then have "p \<noteq> k" "\<not> p < k" by auto
    then show ?thesis using Cons.IH [OF ok(1)] 1 by (simp add: e btm_get_Cons)
  next
    case 2
    then have "filter (\<lambda>e. fst e < p) m = []" "filter (\<lambda>e. p < fst e) m = m"
      using ok(2) by (auto simp: filter_empty_conv filter_id_conv)
    then show ?thesis using 2 by (simp add: e btm_get_Cons)
  next
    case 3
    then have "filter (\<lambda>e. fst e < p) m = []" "filter (\<lambda>e. p < fst e) m = m"
      using ok(2) by (auto simp: filter_empty_conv filter_id_conv)
    moreover have "btm_get m p = None"
      using ok(2) 3 btm_get_dom [of m p] by force
    moreover have "p \<noteq> k" "\<not> k < p" using 3 by auto
    ultimately show ?thesis using 3 by (simp add: e btm_get_Cons)
  qed
qed simp

text \<open>A bounded ladder behaves like the best levels of the unbounded one.\<close>

lemma btm_parts:
  fixes p :: "'k::linorder"
  assumes "\<forall>e \<in> set L. fst e < p" "\<forall>e \<in> set R. p < fst e"
  shows "btm_insert p q (L @ R) = L @ (p, q) # R" "btm_insert p q (L @ (p, v) # R) = L @ (p, q) # R"
    "btm_get (L @ R) p = None" "btm_get (L @ (p, v) # R) p = Some v"
proof -
  have f: "filter (\<lambda>e. fst e < p) L = L" "filter (\<lambda>e. p < fst e) L = []"
    "filter (\<lambda>e. p < fst e) R = R" "filter (\<lambda>e. fst e < p) R = []"
    using assms by (auto simp: filter_id_conv filter_empty_conv)
  then show "btm_insert p q (L @ R) = L @ (p, q) # R" "btm_insert p q (L @ (p, v) # R) = L @ (p, q) # R"
    by (simp_all add: btm_insert_def)
  have "map_of L p = None" "map_of R p = None" using assms by (auto simp: map_of_eq_None_iff)
  then show "btm_get (L @ R) p = None" "btm_get (L @ (p, v) # R) p = Some v"
    by (simp_all add: btm_get_def map_add_def)
qed

lemma set_bounded_sell:
  assumes L: "\<forall>e \<in> set L. fst e < p" and R: "\<forall>e \<in> set R. p < fst e"
    and n: "0 < n" and mid: "mid = [] \<or> (\<exists>v. mid = [(p, v)])"
  shows "set_bounded (take n (L @ mid @ R)) Sell p q n = take n (L @ (p, q) # R)"
proof (cases "n \<le> length L")
  case True
  have sub: "set (take n L) \<subseteq> set L" by (rule set_take_subset)
  have ne: "take n L \<noteq> []" using True n by auto
  then have "fst (last (take n L)) < p" using L sub last_in_set [OF ne] by blast
  then have "\<not> improves Sell p (take n L)"
    using ne by (simp add: btm_last_def split_beta)
  moreover have "btm_get (take n L) p = None"
    using btm_parts(3) [of "take n L" p "[]"] L sub by auto
  ultimately show ?thesis using True by (simp add: set_bounded_def)
next
  case False
  define k where "k = n - length L"
  have k: "0 < k" "take n (L @ ys) = L @ take k ys" for ys
    using False by (simp_all add: k_def)
  have Rt: "\<forall>e \<in> set (take j R). p < fst e" for j using R in_set_takeD by fastforce
  show ?thesis
  proof (cases "mid = []")
    case True
    have "improves Sell p (L @ take k R)" if "n \<le> length (L @ take k R)"
    proof -
      have ne: "take k R \<noteq> []" using that False by auto
      then have "p < fst (last (take k R))" using Rt last_in_set by blast
      then show ?thesis using ne by (simp add: btm_last_def split_beta)
    qed
    then have "set_bounded (L @ take k R) Sell p q n = take n (L @ (p, q) # take k R)"
      using btm_parts(1,3) [OF L Rt [of k]] by (auto simp: set_bounded_def trim_top_n simp del: improves.simps)
    also have "\<dots> = take n (L @ (p, q) # R)"
      by (simp only: k(2)) (simp add: k(1) take_Cons' min_def)
    finally show ?thesis by (simp only: True append_Nil k(2))
  next
    case False
    then obtain v where v: "mid = [(p, v)]" using mid by blast
    have t: "take k (mid @ R) = (p, v) # take (k - 1) R" using k(1) by (simp add: v take_Cons')
    have "set_bounded (L @ (p, v) # take (k - 1) R) Sell p q n = L @ (p, q) # take (k - 1) R"
      using btm_parts(2,4) [OF L Rt] by (simp add: set_bounded_def)
    also have "\<dots> = take n (L @ (p, q) # R)" using k(1) by (simp only: k(2)) (simp add: take_Cons')
    finally show ?thesis by (simp only: k(2) t)
  qed
qed

text \<open>The buy side is the sell side of the mirrored ladder.\<close>

definition mirror :: "ladder_map \<Rightarrow> ladder_map" where
  "mirror m = rev (map (\<lambda>(p, v). (- p, v)) m)"

lemma mirror_insert: "mirror (btm_insert p q m) = btm_insert (- p) q (mirror m)"
  by (simp add: mirror_def btm_insert_def rev_map rev_filter filter_map o_def split_beta)

lemma mirror_inj: "mirror a = mirror b \<Longrightarrow> a = b"
proof -
  assume "mirror a = mirror b"
  moreover have "inj (\<lambda>(p, v). (- p :: int, v :: nat))" by (auto simp: inj_on_def)
  ultimately show ?thesis by (simp add: mirror_def inj_map_eq_map)
qed

lemma mirror_get: "btm_ok m \<Longrightarrow> btm_get (mirror m) (- p) = btm_get m p"
proof -
  assume ok: "btm_ok m"
  have "map_of (map (\<lambda>(p, v). (- p, v)) m) (- p) = map_of m p"
    by (induction m) auto
  moreover have "distinct (map fst (map (\<lambda>(p, v). (- p :: int, v)) m))"
    using btm_ok_distinct [OF ok] by (simp add: o_def split_beta distinct_map comp_inj_on inj_on_def)
  then have "map_of (mirror m) k = Some v \<longleftrightarrow> map_of (map (\<lambda>(p, v). (- p, v)) m) k = Some v" for k v
    unfolding mirror_def by (subst map_of_eq_Some_iff) (simp_all add: rev_map [symmetric])
  ultimately show ?thesis unfolding btm_get_def by (metis not_Some_eq)
qed

lemma mirror_top_n: "mirror (top_n Buy n m) = top_n Sell n (mirror m)"
  by (simp add: mirror_def take_rev drop_map)

lemma mirror_improves: "improves Sell (- p) (mirror m) = improves Buy p m"
  by (cases m) (auto simp: mirror_def btm_last_def btm_first_def split_beta)

lemma mirror_set_bounded:
  assumes "btm_ok m"
  shows "mirror (set_bounded m Buy p q n) = set_bounded (mirror m) Sell (- p) q n"
proof -
  have "length (mirror m) = length m" by (simp add: mirror_def)
  then show ?thesis
    by (simp add: set_bounded_def mirror_get [OF assms] mirror_improves mirror_insert mirror_top_n
        trim_top_n del: top_n.simps improves.simps)
qed

lemma mirror_ok: "btm_ok m \<Longrightarrow> btm_ok (mirror m)"
  by (simp add: btm_ok_def mirror_def rev_map [symmetric] sorted_wrt_rev sorted_wrt_map split_beta o_def)

lemma btm_ok_top_n: "btm_ok m \<Longrightarrow> btm_ok (top_n sd n m)"
  by (cases sd) (auto simp: btm_ok_def take_map drop_map sorted_wrt_take sorted_wrt_drop
      simp flip: take_map drop_map)

lemma set_bounded_top_n:
  assumes ok: "btm_ok m" and n: "0 < n"
  shows "set_bounded (top_n sd n m) sd p q n = top_n sd n (btm_insert p q m)"
proof -
  have sell: "set_bounded (take n m') Sell p' q n = take n (btm_insert p' q m')" if "btm_ok m'" for m' p'
  proof -
    let ?mid = "case btm_get m' p' of None \<Rightarrow> [] | Some v \<Rightarrow> [(p', v)]"
    have "take n m' = take n (filter (\<lambda>e. fst e < p') m' @ ?mid @ filter (\<lambda>e. p' < fst e) m')"
      using btm_split [OF that, of p'] by simp
    then show ?thesis
      using set_bounded_sell [of "filter (\<lambda>e. fst e < p') m'" p' "filter (\<lambda>e. p' < fst e) m'" n ?mid q] n
      by (simp add: btm_insert_def split: option.splits)
  qed
  show ?thesis
  proof (cases sd)
    case Sell
    then show ?thesis using sell [OF ok] by simp
  next
    case Buy
    have "mirror (set_bounded (top_n Buy n m) Buy p q n) =
        set_bounded (take n (mirror m)) Sell (- p) q n"
      by (simp add: mirror_set_bounded [OF btm_ok_top_n [OF ok]] mirror_top_n del: top_n.simps(1))
    also have "\<dots> = mirror (top_n Buy n (btm_insert p q m))"
      by (simp add: sell [OF mirror_ok [OF ok]] mirror_insert mirror_top_n del: top_n.simps(1))
    finally show ?thesis using mirror_inj by (simp add: Buy)
  qed
qed

section \<open>The invariant of the view\<close>

definition ladder_ok :: "int \<Rightarrow> int \<Rightarrow> nat \<Rightarrow> ladder_map \<Rightarrow> bool" where
  "ladder_ok lo hi n m \<longleftrightarrow>
     btm_ok m \<and> length m \<le> n \<and> (\<forall>(p, q) \<in> set m. lo \<le> p \<and> p \<le> hi \<and> 0 < q)"

definition mv_ok :: "market_view \<Rightarrow> bool" where
  "mv_ok v \<longleftrightarrow>
     (let ok = ladder_ok (mv_min_price v) (mv_max_price v) (mv_max_depth v) in
      0 < mv_max_depth v \<and> ok (mv_bids v) \<and> ok (mv_asks v) \<and>
      ok (mv_scratch_bids v) \<and> ok (mv_scratch_asks v)) \<and>
     (mv_state v \<noteq> ApplyingSnapshot \<longrightarrow>
        mv_scratch_bids v = [] \<and> mv_scratch_asks v = [] \<and> mv_scratch_levels v = 0) \<and>
     (\<forall>p. mv_last_trade_price v = Some p \<longrightarrow> mv_min_price v \<le> p \<and> p \<le> mv_max_price v)"

lemma set_top_n: "set (top_n sd n m) \<subseteq> set m"
  by (cases sd) (auto dest: in_set_takeD in_set_dropD)

lemma length_top_n: "length (top_n sd n m) \<le> n"
  by (cases sd) simp_all

lemma ladder_ok_Nil [simp]: "ladder_ok lo hi n []"
  by (simp add: ladder_ok_def)

lemma ladder_ok_trim: "ladder_ok lo hi n m \<Longrightarrow> trim sd m n = m"
  by (cases sd) (simp_all add: trim_top_n ladder_ok_def)

lemma ladder_ok_remove: "ladder_ok lo hi n m \<Longrightarrow> ladder_ok lo hi n (btm_remove p m)"
  by (auto simp: ladder_ok_def btm_remove_def btm_ok_filter intro: le_trans [OF length_filter_le])

lemma btm_insert_replace:
  fixes p :: "'k::linorder"
  assumes "btm_ok m" "btm_get m p \<noteq> None"
  shows "length (btm_insert p q m) = length m"
proof -
  obtain v where v: "btm_get m p = Some v" using assms(2) by blast
  have "length m = length (filter (\<lambda>e. fst e < p) m @ [(p, v)] @ filter (\<lambda>e. p < fst e) m)"
    using btm_split [OF assms(1), of p] v by simp
  then show ?thesis by (simp add: btm_insert_def)
qed

lemma ladder_ok_set:
  assumes m: "ladder_ok lo hi n m" and n: "0 < n" and p: "lo \<le> p" "p \<le> hi" and q: "0 < q"
  shows "ladder_ok lo hi n (set_bounded m sd p q n)"
proof -
  have top: "top_n sd n m = m" using m by (cases sd) (simp_all add: ladder_ok_def)
  have ok: "btm_ok m" using m by (simp add: ladder_ok_def)
  have eq: "set_bounded m sd p q n = top_n sd n (btm_insert p q m)"
    using set_bounded_top_n [OF ok n, of sd p q] by (simp add: top)
  have "set (btm_insert p q m) \<subseteq> insert (p, q) (set m)" by (auto simp: btm_insert_def)
  then have "\<forall>(p, q) \<in> set (top_n sd n (btm_insert p q m)). lo \<le> p \<and> p \<le> hi \<and> 0 < q"
    using set_top_n [of sd n "btm_insert p q m"] m p q by (fastforce simp: ladder_ok_def)
  then show ?thesis
    unfolding eq ladder_ok_def using btm_ok_top_n [OF btm_ok_insert [OF ok]] length_top_n by blast
qed

lemma enter_gap_ok: "mv_ok v \<Longrightarrow> mv_ok (enter_gap v)"
  by (simp add: mv_ok_def enter_gap_def Let_def)

lemma bump_counter_fields [simp]:
  "mv_state (bump_counter u v) = mv_state v" "mv_epoch (bump_counter u v) = mv_epoch v"
  "mv_last_source_seq (bump_counter u v) = mv_last_source_seq v"
  "mv_bids (bump_counter u v) = mv_bids v" "mv_asks (bump_counter u v) = mv_asks v"
  "mv_scratch_bids (bump_counter u v) = mv_scratch_bids v"
  "mv_scratch_asks (bump_counter u v) = mv_scratch_asks v"
  "mv_scratch_levels (bump_counter u v) = mv_scratch_levels v"
  "mv_snapshot_seq (bump_counter u v) = mv_snapshot_seq v"
  "mv_last_trade_price (bump_counter u v) = mv_last_trade_price v"
  "mv_last_update_time_ns (bump_counter u v) = mv_last_update_time_ns v"
  "mv_min_price (bump_counter u v) = mv_min_price v" "mv_max_price (bump_counter u v) = mv_max_price v"
  "mv_max_depth (bump_counter u v) = mv_max_depth v"
  by (simp_all add: bump_counter_def)

lemma event_check_simps [simp]:
  "out_of_domain (bump_counter u v) k = out_of_domain v k"
  "out_of_domain (v\<lparr>mv_last_source_seq := n\<rparr>) k = out_of_domain v k"
  "out_of_domain (v\<lparr>mv_last_update_time_ns := n\<rparr>) k = out_of_domain v k"
  "stale_reset (bump_counter u v) k = stale_reset v k"
  "stale_reset (v\<lparr>mv_last_source_seq := n\<rparr>) k = stale_reset v k"
  "stale_reset (v\<lparr>mv_last_update_time_ns := n\<rparr>) k = stale_reset v k"
  by (cases k; simp add: out_of_domain_def stale_reset_def)+

lemma bump_counter_ok: "mv_ok v \<Longrightarrow> mv_ok (bump_counter u v)"
  by (simp add: mv_ok_def Let_def)

lemma apply_kind_ok:
  assumes "mv_ok v" "\<not> out_of_domain v k"
  shows "mv_ok (apply_kind k v)"
proof (cases k)
  case (SnapshotLevel sd p q)
  then have "mv_min_price v \<le> p" "p \<le> mv_max_price v"
    using assms(2) by (simp_all add: out_of_domain_def)
  then show ?thesis
    using assms(1) SnapshotLevel by (cases sd) (simp_all add: mv_ok_def Let_def ladder_ok_set)
next
  case (SnapshotEnd s c)
  then show ?thesis
    using assms(1) enter_gap_ok [OF assms(1)]
    by (auto simp: mv_ok_def Let_def ladder_ok_trim)
next
  case (LevelSet sd p q)
  then have "mv_min_price v \<le> p" "p \<le> mv_max_price v"
    using assms(2) by (simp_all add: out_of_domain_def)
  then show ?thesis
    using assms(1) LevelSet by (cases sd) (simp_all add: mv_ok_def Let_def ladder_ok_set ladder_ok_remove)
next
  case (Trade sd p q)
  then have "mv_min_price v \<le> p" "p \<le> mv_max_price v"
    using assms(2) by (simp_all add: out_of_domain_def)
  then show ?thesis using assms(1) Trade by (simp add: mv_ok_def Let_def)
qed (use assms in \<open>auto simp: mv_ok_def Let_def\<close>)

lemma market_apply_ok:
  assumes "mv_ok v"
  shows "mv_ok (snd (market_apply v sq k t))"
proof -
  have checked: "mv_ok (snd (apply_checked prev k t w))" if w: "mv_ok w" for prev w
  proof -
    have "mv_ok ((bump_counter fc_applied_update w)\<lparr>mv_last_update_time_ns := t\<rparr>)"
      using w by (simp add: mv_ok_def Let_def)
    then show ?thesis
      using apply_kind_ok enter_gap_ok bump_counter_ok w
      by (simp add: apply_checked_def market_result_def)
  qed
  have "mv_ok (v\<lparr>mv_last_source_seq := sq\<rparr>)" using assms by (simp add: mv_ok_def Let_def)
  then show ?thesis
    using checked assms enter_gap_ok bump_counter_ok
    by (auto simp: market_apply_def Let_def market_result_def split: sequence_check.splits)
qed

lemma market_new_ok: "mv_ok (market_new lo hi n)"
  by (simp add: market_new_def mv_ok_def)

section \<open>The feed state machine\<close>

text \<open>The transitions the synchronization protocol allows.\<close>

inductive feed_step :: "market_event_kind \<Rightarrow> feed_state \<Rightarrow> feed_state \<Rightarrow> bool" where
  stay: "feed_step k s s"
| lose: "feed_step k s Gap"
| begin_snapshot: "feed_step (SnapshotBegin n) s ApplyingSnapshot"
| end_snapshot: "feed_step (SnapshotEnd n c) ApplyingSnapshot Live"
| reset: "feed_step (FeedReset e) s Unsynchronized"

inductive_cases feed_step_LiveE: "feed_step k s Live"

inductive_simps feed_step_simps: "feed_step k s s'"

lemma apply_kind_step: "feed_step k (mv_state v) (mv_state (apply_kind k v))"
  by (cases k) (auto simp: feed_step_simps Let_def enter_gap_def split: side.splits)

lemma market_apply_step:
  "feed_step k (mv_state v) (mv_state (snd (market_apply v sq k t)))"
proof -
  have checked: "feed_step k (mv_state w) (mv_state (snd (apply_checked prev k t w)))" for prev w
    using apply_kind_step [of k "(bump_counter fc_applied_update w)\<lparr>mv_last_update_time_ns := t\<rparr>"]
    by (auto simp: apply_checked_def market_result_def enter_gap_def feed_step.stay feed_step.lose)
  show ?thesis
    using checked [of v] checked [of "v\<lparr>mv_last_source_seq := sq\<rparr>"]
    by (auto simp: market_apply_def Let_def market_result_def enter_gap_def feed_step.stay feed_step.lose
        split: sequence_check.splits)
qed

text \<open>The visible ladder changes only while live, when a snapshot completes, or on a reset.\<close>

definition visible :: "market_view \<Rightarrow> ladder_map \<times> ladder_map \<times> price_ticks option" where
  "visible v = (mv_bids v, mv_asks v, mv_last_trade_price v)"

lemma visible_simps [simp]:
  "visible (bump_counter u v) = visible v" "visible (enter_gap v) = visible v"
  "visible (v\<lparr>mv_last_source_seq := n\<rparr>) = visible v"
  "visible (v\<lparr>mv_last_update_time_ns := n\<rparr>) = visible v"
  by (simp_all add: visible_def enter_gap_def)

lemma enter_gap_epoch [simp]: "mv_epoch (enter_gap v) = mv_epoch v"
  by (simp add: enter_gap_def)

lemma apply_kind_visible:
  assumes "mv_state v \<noteq> Live" "mv_state (apply_kind k v) \<noteq> Live" "\<not> stale_reset v k"
  shows "visible (apply_kind k v) = (if mv_epoch (apply_kind k v) = mv_epoch v then visible v else ([], [], None))"
  using assms
  by (cases k) (auto simp: visible_def stale_reset_def Let_def enter_gap_def bump_counter_def split: side.splits if_splits)

lemma market_apply_visible:
  assumes "mv_state v \<noteq> Live" "mv_state (snd (market_apply v sq k t)) \<noteq> Live"
  shows "visible (snd (market_apply v sq k t)) =
    (if mv_epoch (snd (market_apply v sq k t)) = mv_epoch v then visible v else ([], [], None))"
proof -
  have checked: "visible (snd (apply_checked prev k t w)) =
      (if mv_epoch (snd (apply_checked prev k t w)) = mv_epoch w then visible w else ([], [], None))"
    if "mv_state w \<noteq> Live" "mv_state (snd (apply_checked prev k t w)) \<noteq> Live" for prev w
    using that apply_kind_visible [of "(bump_counter fc_applied_update w)\<lparr>mv_last_update_time_ns := t\<rparr>" k]
    by (auto simp: apply_checked_def market_result_def split: if_splits)
  show ?thesis
    using assms checked [of v] checked [of "v\<lparr>mv_last_source_seq := sq\<rparr>"]
    by (auto simp: market_apply_def Let_def market_result_def split: sequence_check.splits if_splits)
qed

section \<open>A complete snapshot\<close>

text \<open>One event after the other, with consecutive source sequences and one receive time each.\<close>

fun market_run :: "market_view \<Rightarrow> nat \<Rightarrow> (market_event_kind \<times> nat) list \<Rightarrow> market_view" where
  "market_run v sq [] = v"
| "market_run v sq ((k, t) # es) = market_run (snd (market_apply v sq k t)) (Suc sq) es"

fun snapshot_levels ::
  "side \<Rightarrow> ((side \<times> price_ticks \<times> nat) \<times> nat) list \<Rightarrow> ladder_map \<Rightarrow> ladder_map" where
  "snapshot_levels sd [] m = m"
| "snapshot_levels sd (((s, p, q), t) # ls) m =
     snapshot_levels sd ls (if s = sd then btm_insert p q m else m)"

definition level_events ::
  "((side \<times> price_ticks \<times> nat) \<times> nat) list \<Rightarrow> (market_event_kind \<times> nat) list" where
  "level_events ls = map (\<lambda>((s, p, q), t). (SnapshotLevel s p q, t)) ls"

lemma market_run_append:
  "market_run v sq (es @ fs) = market_run (market_run v sq es) (sq + length es) fs"
  by (induction es arbitrary: v sq) auto

lemma apply_in_sequence:
  assumes "mv_state v = ApplyingSnapshot" "mv_last_source_seq v = sq" "0 < sq" "Suc sq < 2 ^ 64"
    "\<not> out_of_domain v k" "\<not> stale_reset v k"
  shows "snd (market_apply v (Suc sq) k t) = apply_kind k
    ((bump_counter fc_applied_update (v\<lparr>mv_last_source_seq := Suc sq\<rparr>))\<lparr>mv_last_update_time_ns := t\<rparr>)"
  using assms
  by (simp add: market_apply_def check_sequence_def wrapping_add_def apply_checked_def market_result_def)

lemma snapshot_levels_run:
  assumes v: "mv_state v = ApplyingSnapshot" "mv_last_source_seq v = sq" "0 < sq" "sq + length ls < 2 ^ 64"
    and n: "0 < mv_max_depth v"
    and ls: "\<forall>((s, p, q), t) \<in> set ls. 0 < q \<and> mv_min_price v \<le> p \<and> p \<le> mv_max_price v"
    and cnt: "mv_scratch_levels v + length ls < 2 ^ 32"
    and full: "btm_ok mb" "btm_ok ma" "mv_scratch_bids v = top_n Buy (mv_max_depth v) mb"
      "mv_scratch_asks v = top_n Sell (mv_max_depth v) ma"
  defines "w \<equiv> market_run v (Suc sq) (level_events ls)"
  shows "mv_state w = ApplyingSnapshot \<and> mv_last_source_seq w = sq + length ls \<and>
    mv_scratch_levels w = mv_scratch_levels v + length ls \<and> mv_snapshot_seq w = mv_snapshot_seq v \<and>
    mv_max_depth w = mv_max_depth v \<and> mv_min_price w = mv_min_price v \<and> mv_max_price w = mv_max_price v \<and>
    visible w = visible v \<and>
    mv_scratch_bids w = top_n Buy (mv_max_depth v) (snapshot_levels Buy ls mb) \<and>
    mv_scratch_asks w = top_n Sell (mv_max_depth v) (snapshot_levels Sell ls ma)"
  using assms(1-11) unfolding w_def
proof (induction ls arbitrary: v sq mb ma)
  case Nil
  then show ?case by (simp add: level_events_def)
next
  case (Cons l ls)
  obtain s p q t where l: "l = ((s, p, q), t)" by (metis surj_pair)
  let ?v = "(bump_counter fc_applied_update (v\<lparr>mv_last_source_seq := Suc sq\<rparr>))\<lparr>mv_last_update_time_ns := t\<rparr>"
  let ?v' = "apply_kind (SnapshotLevel s p q) ?v"
  have pq: "0 < q" "mv_min_price v \<le> p" "p \<le> mv_max_price v" using Cons.prems(6) by (auto simp: l)
  have step: "snd (market_apply v (Suc sq) (SnapshotLevel s p q) t) = ?v'"
    using Cons.prems(1-4) pq
    by (intro apply_in_sequence) (auto simp: out_of_domain_def stale_reset_def)
  have w: "wrapping_add 32 (mv_scratch_levels v) 1 = Suc (mv_scratch_levels v)"
    using Cons.prems(7) by (simp add: wrapping_add_def)
  note top = set_bounded_top_n [OF Cons.prems(8) Cons.prems(5), of Buy]
    set_bounded_top_n [OF Cons.prems(9) Cons.prems(5), of Sell]
  define mb' where "mb' = (if s = Buy then btm_insert p q mb else mb)"
  define ma' where "ma' = (if s = Sell then btm_insert p q ma else ma)"
  have v': "mv_state ?v' = ApplyingSnapshot" "mv_last_source_seq ?v' = Suc sq"
    "mv_scratch_levels ?v' = Suc (mv_scratch_levels v)" "mv_snapshot_seq ?v' = mv_snapshot_seq v"
    "mv_max_depth ?v' = mv_max_depth v" "mv_min_price ?v' = mv_min_price v"
    "mv_max_price ?v' = mv_max_price v" "visible ?v' = visible v"
    "mv_scratch_bids ?v' = top_n Buy (mv_max_depth v) mb'"
    "mv_scratch_asks ?v' = top_n Sell (mv_max_depth v) ma'"
    using Cons.prems(1,10,11) pq(1) w top
    by (cases s; simp add: visible_def mb'_def ma'_def del: top_n.simps)+
  have "market_run v (Suc sq) (level_events (l # ls)) = market_run ?v' (Suc (Suc sq)) (level_events ls)"
    by (simp only: level_events_def l list.map market_run.simps split step)
  moreover have "btm_ok mb'" "btm_ok ma'" using Cons.prems(8,9) by (simp_all add: mb'_def ma'_def)
  ultimately show ?case
    using Cons.IH [of ?v' "Suc sq" mb' ma'] v' Cons.prems
    by (cases s) (simp_all add: l mb'_def ma'_def del: top_n.simps apply_kind.simps)
qed

lemma snapshot_installs:
  fixes n t0 t1 :: nat
  assumes v: "mv_state v = Unsynchronized \<or> mv_state v = Gap" "0 < mv_max_depth v"
    and sq: "0 < sq" "sq + length ls + 1 < 2 ^ 64" "length ls < 2 ^ 32"
    and ls: "\<forall>((s, p, q), t) \<in> set ls. 0 < q \<and> mv_min_price v \<le> p \<and> p \<le> mv_max_price v"
  defines "w \<equiv> market_run v sq ((SnapshotBegin n, t0) # level_events ls @ [(SnapshotEnd n (length ls), t1)])"
  shows "mv_state w = Live \<and> mv_bids w = top_n Buy (mv_max_depth v) (snapshot_levels Buy ls []) \<and>
    mv_asks w = top_n Sell (mv_max_depth v) (snapshot_levels Sell ls []) \<and>
    mv_last_source_seq w = sq + length ls + 1 \<and> mv_last_update_time_ns w = t1"
proof -
  let ?v = "snd (market_apply v sq (SnapshotBegin n) t0)"
  have v0: "mv_state ?v = ApplyingSnapshot" "mv_last_source_seq ?v = sq" "mv_scratch_bids ?v = []"
    "mv_scratch_asks ?v = []" "mv_scratch_levels ?v = 0" "mv_snapshot_seq ?v = n"
    "mv_max_depth ?v = mv_max_depth v" "mv_min_price ?v = mv_min_price v" "mv_max_price ?v = mv_max_price v"
    using v(1) sq(1)
    by (auto simp: market_apply_def check_sequence_def apply_checked_def market_result_def
        out_of_domain_def stale_reset_def)
  let ?u = "market_run ?v (Suc sq) (level_events ls)"
  have u: "mv_state ?u = ApplyingSnapshot \<and> mv_last_source_seq ?u = sq + length ls \<and>
    mv_scratch_levels ?u = mv_scratch_levels ?v + length ls \<and> mv_snapshot_seq ?u = mv_snapshot_seq ?v \<and>
    mv_max_depth ?u = mv_max_depth ?v \<and> mv_min_price ?u = mv_min_price ?v \<and>
    mv_max_price ?u = mv_max_price ?v \<and> visible ?u = visible ?v \<and>
    mv_scratch_bids ?u = top_n Buy (mv_max_depth ?v) (snapshot_levels Buy ls []) \<and>
    mv_scratch_asks ?u = top_n Sell (mv_max_depth ?v) (snapshot_levels Sell ls [])"
    using v0 v(2) sq ls by (intro snapshot_levels_run) auto
  have "w = snd (market_apply ?u (Suc (sq + length ls)) (SnapshotEnd n (length ls)) t1)"
    by (simp add: w_def market_run_append level_events_def)
  also have "\<dots> = apply_kind (SnapshotEnd n (length ls)) ((bump_counter fc_applied_update
      (?u\<lparr>mv_last_source_seq := Suc (sq + length ls)\<rparr>))\<lparr>mv_last_update_time_ns := t1\<rparr>)"
    using u sq by (intro apply_in_sequence) (auto simp: out_of_domain_def stale_reset_def)
  finally have w: "w = apply_kind (SnapshotEnd n (length ls)) ((bump_counter fc_applied_update
      (?u\<lparr>mv_last_source_seq := Suc (sq + length ls)\<rparr>))\<lparr>mv_last_update_time_ns := t1\<rparr>)" .
  have idem: "trim sd (top_n sd k m) k = top_n sd k m" for sd k m
    by (cases sd) (simp_all add: trim_top_n)
  show ?thesis
    unfolding w using u v0 by (simp add: idem del: top_n.simps)
qed

lemma goes_live:
  assumes "mv_state v \<noteq> Live" "mv_state (snd (market_apply v sq k t)) = Live"
  shows "mv_state v = ApplyingSnapshot \<and> k = SnapshotEnd (mv_snapshot_seq v) (mv_scratch_levels v)"
proof -
  have kind: "mv_state w = ApplyingSnapshot \<and> k = SnapshotEnd (mv_snapshot_seq w) (mv_scratch_levels w)"
    if "mv_state w \<noteq> Live" "mv_state (apply_kind k w) = Live" for w
    using that by (cases k) (auto simp: Let_def enter_gap_def split: if_splits side.splits)
  have checked: "mv_state w = ApplyingSnapshot \<and> k = SnapshotEnd (mv_snapshot_seq w) (mv_scratch_levels w)"
    if "mv_state w \<noteq> Live" "mv_state (snd (apply_checked prev k t w)) = Live" for prev w
    using that kind [of "(bump_counter fc_applied_update w)\<lparr>mv_last_update_time_ns := t\<rparr>"]
    by (auto simp: apply_checked_def market_result_def enter_gap_def split: if_splits)
  show ?thesis
    using assms checked [of v] checked [of "v\<lparr>mv_last_source_seq := sq\<rparr>"]
    by (auto simp: market_apply_def Let_def market_result_def enter_gap_def
        split: if_splits sequence_check.splits)
qed

lemma epoch_mono: "mv_epoch v \<le> mv_epoch (snd (market_apply v sq k t))"
proof -
  have kind: "mv_epoch w \<le> mv_epoch (apply_kind k w)" if "\<not> stale_reset w k" for w
    using that by (cases k) (auto simp: Let_def stale_reset_def enter_gap_def split: side.splits)
  have checked: "mv_epoch w \<le> mv_epoch (snd (apply_checked prev k t w))" for prev w
    using kind [of "(bump_counter fc_applied_update w)\<lparr>mv_last_update_time_ns := t\<rparr>"]
    by (auto simp: apply_checked_def market_result_def enter_gap_def)
  show ?thesis
    using checked [of v] checked [of "v\<lparr>mv_last_source_seq := sq\<rparr>"]
    by (auto simp: market_apply_def Let_def market_result_def enter_gap_def split: sequence_check.splits)
qed

section \<open>Properties\<close>

text \<open>C24. The market view stays well-formed under every event: both visible ladders and both pending
  ladders are in strict price order, hold at most \<open>max_depth\<close> levels with positive quantities at
  prices inside the instrument's domain, nothing is pending outside a snapshot, and the last trade
  price lies in the domain.\<close>

theorem market_view_well_formed:
  assumes "mv_ok v"
  shows "mv_ok (snd (market_apply v sq k t))"
  by (rule market_apply_ok [OF assms])

theorem market_view_well_formed_witness:
  "mv_ok (snd (market_apply (market_new 1 1000 2) 5 (LevelSet Buy 99 4) 7))"
  by (rule market_view_well_formed [OF market_new_ok])

text \<open>C25. A complete snapshot installs the best levels.  From an unsynchronized or gapped feed, a
  begin message, any levels in consecutive sequence with positive quantities in the price domain, and
  an end message with the right sequence and level count make the feed live; the visible ladder of
  each side is then exactly the best \<open>max_depth\<close> levels of that side, the last quantity winning for a
  price sent twice, and the last source sequence is that of the end message.\<close>

theorem snapshot_installs_best_levels:
  assumes "mv_state v = Unsynchronized \<or> mv_state v = Gap" "0 < mv_max_depth v"
    "0 < sq" "sq + length ls + 1 < 2 ^ 64" "length ls < 2 ^ 32"
    "\<forall>((s, p, q), t) \<in> set ls. 0 < q \<and> mv_min_price v \<le> p \<and> p \<le> mv_max_price v"
  shows "let w = market_run v sq ((SnapshotBegin n, t0) # level_events ls @ [(SnapshotEnd n (length ls), t1)])
    in mv_state w = Live \<and> mv_bids w = top_n Buy (mv_max_depth v) (snapshot_levels Buy ls []) \<and>
       mv_asks w = top_n Sell (mv_max_depth v) (snapshot_levels Sell ls []) \<and>
       mv_last_source_seq w = sq + length ls + 1"
  using snapshot_installs [OF assms, of n t0 t1] by (simp add: Let_def del: market_run.simps top_n.simps)

theorem snapshot_installs_best_levels_witness:
  "mv_state (market_run (market_new 1 1000 2) 5
     ((SnapshotBegin 1, 9) # level_events [((Buy, 98, 4), 9), ((Buy, 99, 2), 9), ((Buy, 97, 1), 9)] @
      [(SnapshotEnd 1 3, 9)])) = Live"
  using snapshot_installs_best_levels
    [of "market_new 1 1000 2" 5 "[((Buy, 98, 4), 9), ((Buy, 99, 2), 9), ((Buy, 97, 1), 9)]" 1 9 9]
  by (simp add: market_new_def Let_def numeral_3_eq_3 del: market_run.simps)

text \<open>C26. The feed goes live only through a validated snapshot: every event moves the state along the
  synchronization protocol (stay, lose to a gap, begin a snapshot, end it, reset), and a feed that was
  not live becomes live only on the end message of the snapshot in progress, with its sequence number
  and with the number of levels received.\<close>

theorem feed_goes_live_only_after_snapshot:
  "feed_step k (mv_state v) (mv_state (snd (market_apply v sq k t))) \<and>
   (mv_state v \<noteq> Live \<and> mv_state (snd (market_apply v sq k t)) = Live \<longrightarrow>
      mv_state v = ApplyingSnapshot \<and> k = SnapshotEnd (mv_snapshot_seq v) (mv_scratch_levels v))"
  using market_apply_step goes_live by blast

theorem feed_goes_live_only_after_snapshot_witness:
  "let v = snd (market_apply (market_new 1 1000 2) 5 (SnapshotBegin 3) 7);
       w = snd (market_apply v 6 (SnapshotEnd 3 0) 8)
   in mv_state v = ApplyingSnapshot \<and> mv_state w = Live"
  using feed_goes_live_only_after_snapshot [of "SnapshotEnd 3 0"
      "snd (market_apply (market_new 1 1000 2) 5 (SnapshotBegin 3) 7)" 6 8]
  by (simp add: market_new_def market_apply_def check_sequence_def apply_checked_def market_result_def
      out_of_domain_def stale_reset_def bump_counter_def wrapping_add_def Let_def)

text \<open>C27. Pending or untrusted data is never visible: while the feed is not live before and after an event, the
  bids, the asks and the last trade price that risk reads stay as they were, unless the event moved the feed to
  a newer epoch, which clears all three; and the epoch never moves backwards.\<close>

theorem untrusted_data_invisible:
  "(mv_state v \<noteq> Live \<and> mv_state (snd (market_apply v sq k t)) \<noteq> Live \<longrightarrow>
      visible (snd (market_apply v sq k t)) =
        (if mv_epoch (snd (market_apply v sq k t)) = mv_epoch v then visible v else ([], [], None))) \<and>
   mv_epoch v \<le> mv_epoch (snd (market_apply v sq k t))"
  using market_apply_visible epoch_mono by blast

theorem untrusted_data_invisible_witness:
  "let v = snd (market_apply (market_new 1 1000 2) 5 (SnapshotBegin 3) 7)
   in visible (snd (market_apply v 6 (SnapshotLevel Buy 99 4) 8)) = visible v"
  using untrusted_data_invisible [of "snd (market_apply (market_new 1 1000 2) 5 (SnapshotBegin 3) 7)" 6
      "SnapshotLevel Buy 99 4" 8]
  by (simp add: market_new_def market_apply_def check_sequence_def apply_checked_def market_result_def
      out_of_domain_def stale_reset_def bump_counter_def wrapping_add_def Let_def)

end
