(* ===== verification/Core_State.thy ===== *)
theory Core_State
  imports Account Market Matching
begin

text \<open>
  The configuration (\<open>trading-core/src/config.rs\<close>) and the state of the deterministic engine
  (\<open>trading-core/src/core.rs\<close>): instruments with their market view and matching book, accounts,
  the live-order maps, the sequence counters and the fault flag.  The model is parametric in the slab
  of the books, as \<open>Book\<close> is.
\<close>

section \<open>Configuration\<close>

record instrument_config =
  ic_id :: instrument_id
  ic_symbol :: string
  ic_tick_size :: int
  ic_lot_size :: nat
  ic_min_price_ticks :: int
  ic_max_price_ticks :: int

definition instrument_config_new :: "nat \<Rightarrow> string \<Rightarrow> instrument_config" where
  "instrument_config_new i symbol =
     \<lparr>ic_id = i, ic_symbol = symbol, ic_tick_size = 1, ic_lot_size = 1, ic_min_price_ticks = 1,
      ic_max_price_ticks = 10000000\<rparr>"

record account_config =
  acf_id :: account_id
  acf_enabled :: bool
  acf_limits :: account_limits

definition account_config_new :: "nat \<Rightarrow> account_config" where
  "account_config_new i =
     \<lparr>acf_id = i, acf_enabled = True,
      acf_limits = \<lparr>lim_max_order_quantity = 10000, lim_max_order_notional = 1000000000,
        lim_max_position_lots = 100000, lim_max_gross_exposure = 10000000000,
        lim_price_collar_ticks = 5000\<rparr>\<rparr>"

record engine_config =
  ec_run_id :: nat
  ec_instruments :: "instrument_config list"
  ec_accounts :: "account_config list"
  ec_max_live_orders :: nat
  ec_max_market_age_ns :: nat
  ec_market_protection_ticks :: int
  ec_dedup_window :: nat
  ec_max_market_depth :: nat

definition single_instrument :: "nat \<Rightarrow> engine_config" where
  "single_instrument run_id =
     \<lparr>ec_run_id = run_id, ec_instruments = [instrument_config_new 1 ''LAB-USD''],
      ec_accounts = [account_config_new 1, account_config_new 2], ec_max_live_orders = 4096,
      ec_max_market_age_ns = 1000000000, ec_market_protection_ticks = 50, ec_dedup_window = 256,
      ec_max_market_depth = 256\<rparr>"

section \<open>State\<close>

record 's instrument_runtime =
  ir_config :: instrument_config
  ir_market :: market_view
  ir_book :: "'s order_book"

record live_order =
  lo_account_index :: nat
  lo_instrument_index :: nat

record engine_metrics =
  em_inputs_applied :: nat
  em_requests_accepted :: nat
  em_requests_rejected :: nat
  em_reports_emitted :: nat
  em_trades :: nat
  em_market_events :: nat
  em_control_events :: nat

datatype engine_fault = SequenceExhausted | Accounting

record 's trading_core =
  tc_config :: engine_config
  tc_instruments :: "'s instrument_runtime list"
  tc_instrument_index :: "instrument_id \<rightharpoonup> nat"
  tc_accounts :: "account_state list"
  tc_account_index :: "account_id \<rightharpoonup> nat"
  tc_live_orders :: "order_id \<rightharpoonup> live_order"
  tc_client_orders :: "account_id \<times> client_order_id \<rightharpoonup> order_id"
  tc_global_kill :: bool
  tc_engine_seq :: nat
  tc_output_seq :: nat
  tc_next_order_id :: order_id
  tc_next_trade_id :: trade_id
  tc_next_priority :: nat
  tc_engine_time_ns :: nat
  tc_fills :: "fill list"
  tc_metrics :: engine_metrics
  tc_fault :: "engine_fault option"

text \<open>\<open>enumerate().map(|(i, x)| (id, i)).collect()\<close>: the last index wins for a repeated id.\<close>

definition index_map :: "'k list \<Rightarrow> 'k \<rightharpoonup> nat" where
  "index_map ks = map_of (rev (zip ks [0..<length ks]))"

definition core_new :: "'s slab_ops \<Rightarrow> engine_config \<Rightarrow> 's trading_core" where
  "core_new S config =
     (let instruments = map (\<lambda>ic.
            \<lparr>ir_config = ic,
             ir_market = market_new (ic_min_price_ticks ic) (ic_max_price_ticks ic)
               (ec_max_market_depth config),
             ir_book = book_with_capacity S (ec_max_live_orders config)\<rparr>) (ec_instruments config);
          accounts = map (\<lambda>a. account_new (acf_id a) (acf_enabled a) (acf_limits a)
            (length instruments) (ec_dedup_window config)) (ec_accounts config)
      in \<lparr>tc_config = config, tc_instruments = instruments,
          tc_instrument_index = index_map (map (\<lambda>r. ic_id (ir_config r)) instruments),
          tc_accounts = accounts, tc_account_index = index_map (map ac_id accounts),
          tc_live_orders = Map.empty, tc_client_orders = Map.empty, tc_global_kill = False,
          tc_engine_seq = 0, tc_output_seq = 0, tc_next_order_id = 0, tc_next_trade_id = 0,
          tc_next_priority = 0, tc_engine_time_ns = 0, tc_fills = [],
          tc_metrics = \<lparr>em_inputs_applied = 0, em_requests_accepted = 0, em_requests_rejected = 0,
            em_reports_emitted = 0, em_trades = 0, em_market_events = 0, em_control_events = 0\<rparr>,
          tc_fault = None\<rparr>)"

section \<open>Readers\<close>

definition tc_live_order_count :: "'s trading_core \<Rightarrow> nat" where
  "tc_live_order_count c = card (dom (tc_live_orders c))"

definition tc_instrument :: "'s trading_core \<Rightarrow> instrument_id \<Rightarrow> 's instrument_runtime option option" where
  "tc_instrument c i =
     (case tc_instrument_index c i of
        None \<Rightarrow> Some None
      | Some k \<Rightarrow> do { r \<leftarrow> idx (tc_instruments c) k; Some (Some r) })"

definition tc_next_ids :: "'s trading_core \<Rightarrow> order_id \<times> trade_id \<times> nat" where
  "tc_next_ids c = (tc_next_order_id c, tc_next_trade_id c, tc_next_priority c)"

definition tc_position :: "'s trading_core \<Rightarrow> nat \<Rightarrow> nat \<Rightarrow> instrument_position option" where
  "tc_position c ai ii = do { a \<leftarrow> idx (tc_accounts c) ai; idx (ac_positions a) ii }"

definition client_order_lookup :: "'s trading_core \<Rightarrow> account_id \<Rightarrow> client_order_id \<Rightarrow> order_id option" where
  "client_order_lookup c a cid = tc_client_orders c (a, cid)"

section \<open>Field updates\<close>

definition set_fault :: "engine_fault \<Rightarrow> 's trading_core \<Rightarrow> 's trading_core" where
  "set_fault f c = c\<lparr>tc_fault := Some f\<rparr>"

text \<open>\<open>&mut self.accounts[ai].positions[ii]\<close> passed to an operation that reports success.\<close>

definition update_position ::
  "nat \<Rightarrow> nat \<Rightarrow> (instrument_position \<Rightarrow> bool \<times> instrument_position) \<Rightarrow> 's trading_core \<Rightarrow>
   (bool \<times> 's trading_core) option" where
  "update_position ai ii f c = do {
     a \<leftarrow> idx (tc_accounts c) ai;
     ip \<leftarrow> idx (ac_positions a) ii;
     (let (ok, ip') = f ip in
      Some (ok, c\<lparr>tc_accounts := (tc_accounts c)[ai := a\<lparr>ac_positions := (ac_positions a)[ii := ip']\<rparr>]\<rparr>))
   }"

definition set_book :: "nat \<Rightarrow> 's order_book \<Rightarrow> 's trading_core \<Rightarrow> 's trading_core" where
  "set_book ii b c =
     c\<lparr>tc_instruments := (tc_instruments c)[ii := (tc_instruments c ! ii)\<lparr>ir_book := b\<rparr>]\<rparr>"

definition bump_metric ::
  "((nat \<Rightarrow> nat) \<Rightarrow> engine_metrics \<Rightarrow> engine_metrics) \<Rightarrow> 's trading_core \<Rightarrow> 's trading_core" where
  "bump_metric upd c = c\<lparr>tc_metrics := upd (\<lambda>n. wrapping_add 64 n 1) (tc_metrics c)\<rparr>"

end
