(* ===== verification/Risk.thy ===== *)
theory Risk
  imports Core_State
begin

text \<open>
  Pre-trade risk (\<open>trading-core/src/risk.rs\<close>).  The checks run in the order of the code, so the first
  failing one is the reject reason; \<open>None\<close> is a panic (an index out of range or a zero tick or lot
  size).  Nothing here changes the state.
\<close>

section \<open>Arithmetic of the checks\<close>

definition tick_distance :: "price_ticks \<Rightarrow> price_ticks \<Rightarrow> nat" where
  "tick_distance l r = nat \<bar>l - r\<bar>"

definition collar_ticks :: "account_limits \<Rightarrow> nat" where
  "collar_ticks lim = (case try_unsigned 64 (lim_price_collar_ticks lim) of Some n \<Rightarrow> n | None \<Rightarrow> 0)"

fun worst_case_position :: "instrument_position \<Rightarrow> side \<Rightarrow> nat option" where
  "worst_case_position ip Buy = do {
     open \<leftarrow> try_signed 64 (ip_open_buy_lots ip);
     signed \<leftarrow> checked_iadd 64 (ip_position_lots ip) open;
     Some (unsigned_abs signed)
   }"
| "worst_case_position ip Sell = do {
     open \<leftarrow> try_signed 64 (ip_open_sell_lots ip);
     signed \<leftarrow> checked_isub 64 (ip_position_lots ip) open;
     Some (unsigned_abs signed)
   }"

definition protection_price :: "price_ticks \<Rightarrow> side \<Rightarrow> int \<Rightarrow> reject_reason + price_ticks" where
  "protection_price reference sd ticks =
     ok_or (case sd of
              Buy \<Rightarrow> checked_add_ticks reference ticks
            | Sell \<Rightarrow> checked_sub_ticks reference ticks) ArithmeticOverflow"

section \<open>Single checks\<close>

definition check_quantity :: "'s trading_core \<Rightarrow> nat \<Rightarrow> quantity_lots \<Rightarrow> (reject_reason + unit) option" where
  "check_quantity c ii quantity =
     (if quantity = 0 then Some (Inl InvalidQuantity)
      else do {
        r \<leftarrow> idx (tc_instruments c) ii;
        m \<leftarrow> rem_unsigned quantity (ic_lot_size (ir_config r));
        Some (guard_err (m \<noteq> 0) QuantityNotAligned)
      })"

definition check_price :: "'s trading_core \<Rightarrow> nat \<Rightarrow> price_ticks \<Rightarrow> (reject_reason + unit) option" where
  "check_price c ii price = do {
     r \<leftarrow> idx (tc_instruments c) ii;
     (let ic = ir_config r in
      if price < ic_min_price_ticks ic \<or> ic_max_price_ticks ic < price then Some (Inl InvalidPrice)
      else do {
        m \<leftarrow> rem_signed price (ic_tick_size ic);
        Some (guard_err (m \<noteq> 0) PriceNotAligned)
      })
   }"

definition check_trading_permitted :: "'s trading_core \<Rightarrow> nat \<Rightarrow> (reject_reason + unit) option" where
  "check_trading_permitted c ai =
     (if tc_global_kill c then Some (Inl GlobalKillActive)
      else do {
        a \<leftarrow> idx (tc_accounts c) ai;
        Some (guard_err (\<not> ac_enabled a) AccountDisabled)
      })"

definition check_client_sequence :: "'s trading_core \<Rightarrow> nat \<Rightarrow> nat \<Rightarrow> (reject_reason + unit) option" where
  "check_client_sequence c ai client_seq =
     (if client_seq = 0 then Some (Inl MalformedRequest)
      else do {
        a \<leftarrow> idx (tc_accounts c) ai;
        Some (guard_err (client_seq \<le> ac_last_client_seq a) SequenceTooOld)
      })"

definition check_reference_price :: "'s trading_core \<Rightarrow> nat \<Rightarrow> (reject_reason + price_ticks) option" where
  "check_reference_price c ii = do {
     r \<leftarrow> idx (tc_instruments c) ii;
     (let market = ir_market r in
      if mv_state market \<noteq> Live then Some (Inl MarketDataUnsynchronized)
      else if ec_max_market_age_ns (tc_config c) < tc_engine_time_ns c - mv_last_update_time_ns market
      then Some (Inl MarketDataStale)
      else Some (ok_or (mv_reference_price market) NoReferencePrice))
   }"

section \<open>Exposure\<close>

text \<open>The position as it would be with the order working and the replaced one released.\<close>

definition projected_position ::
  "instrument_position \<Rightarrow> side \<Rightarrow> quantity_lots \<Rightarrow> price_ticks \<Rightarrow> quantity_lots \<Rightarrow> price_ticks \<Rightarrow>
   instrument_position option" where
  "projected_position ip sd added_lots added_price replaced_lots replaced_price = do {
     released \<leftarrow> checked_notional replaced_lots replaced_price;
     added \<leftarrow> checked_notional added_lots added_price;
     (case sd of
        Buy \<Rightarrow> do {
          l \<leftarrow> checked_sub (ip_open_buy_lots ip) replaced_lots;
          lots \<leftarrow> checked_add 64 l added_lots;
          v \<leftarrow> checked_sub (ip_open_buy_notional ip) released;
          value \<leftarrow> checked_add 128 v added;
          Some (ip\<lparr>ip_open_buy_lots := lots, ip_open_buy_notional := value\<rparr>)
        }
      | Sell \<Rightarrow> do {
          l \<leftarrow> checked_sub (ip_open_sell_lots ip) replaced_lots;
          lots \<leftarrow> checked_add 64 l added_lots;
          v \<leftarrow> checked_sub (ip_open_sell_notional ip) released;
          value \<leftarrow> checked_add 128 v added;
          Some (ip\<lparr>ip_open_sell_lots := lots, ip_open_sell_notional := value\<rparr>)
        })
   }"

text \<open>The loop over all instruments: the exposure at the mark of each, the projected position for the
  one traded.\<close>

fun gross_exposure ::
  "'s trading_core \<Rightarrow> nat \<Rightarrow> nat \<Rightarrow> instrument_position \<Rightarrow> (nat \<times> 's instrument_runtime) list \<Rightarrow>
   notional \<Rightarrow> (reject_reason + notional) option" where
  "gross_exposure c ai ii projected [] gross = Some (Inr gross)"
| "gross_exposure c ai ii projected ((i, r) # rest) gross = do {
     ip \<leftarrow> (if i = ii then Some projected else tc_position c ai i);
     if ip_position_lots ip = 0 \<and> ip_open_buy_notional ip = 0 \<and> ip_open_sell_notional ip = 0
     then gross_exposure c ai ii projected rest gross
     else
       (case (case mv_reference_price (ir_market r) of
                Some mark \<Rightarrow> Some mark
              | None \<Rightarrow> if ip_position_lots ip = 0 then Some 0 else None) of
          None \<Rightarrow> Some (Inl NoReferencePrice)
        | Some mark \<Rightarrow>
            (case instrument_exposure ip mark of
               None \<Rightarrow> Some (Inl ArithmeticOverflow)
             | Some exposure \<Rightarrow>
                 (case checked_add 128 gross exposure of
                    None \<Rightarrow> Some (Inl ArithmeticOverflow)
                  | Some gross' \<Rightarrow> gross_exposure c ai ii projected rest gross')))
   }"

definition check_exposure ::
  "'s trading_core \<Rightarrow> nat \<Rightarrow> nat \<Rightarrow> side \<Rightarrow> quantity_lots \<Rightarrow> price_ticks \<Rightarrow> quantity_lots \<Rightarrow>
   price_ticks \<Rightarrow> (reject_reason + unit) option" where
  "check_exposure c ai ii sd added_lots added_price replaced_lots replaced_price = do {
     a \<leftarrow> idx (tc_accounts c) ai;
     current \<leftarrow> tc_position c ai ii;
     try_else
       (Some (ok_or (projected_position current sd added_lots added_price replaced_lots replaced_price)
          ArithmeticOverflow)) (\<lambda>projected.
     try_else (Some (ok_or (worst_case_position projected sd) ArithmeticOverflow)) (\<lambda>worst.
     try_else (Some (guard_err (lim_max_position_lots (ac_limits a) < worst) MaxPosition)) (\<lambda>_.
     try_else (gross_exposure c ai ii projected
         (zip [0..<length (tc_instruments c)] (tc_instruments c)) 0) (\<lambda>gross.
     Some (guard_err (lim_max_gross_exposure (ac_limits a) < gross) MaxGrossExposure)))))
   }"

section \<open>Whole requests\<close>

record checked_new_order =
  cn_account_index :: nat
  cn_instrument_index :: nat
  cn_execution_limit :: price_ticks

record checked_replace =
  ck_account_index :: nat
  ck_instrument_index :: nat
  ck_order_id :: order_id
  ck_existing :: order_node

definition check_new_order ::
  "'s slab_ops \<Rightarrow> 's trading_core \<Rightarrow> order_request \<Rightarrow> (reject_reason + checked_new_order) option" where
  "check_new_order S c rq =
     try_else (Some (guard_err (rq_kind rq \<noteq> New) MalformedRequest)) (\<lambda>_.
     try_else (Some (ok_or (tc_account_index c (rq_account rq)) UnknownAccount)) (\<lambda>ai.
     try_else (Some (ok_or (tc_instrument_index c (rq_instrument rq)) UnknownInstrument)) (\<lambda>ii.
     try_else (check_quantity c ii (rq_quantity rq)) (\<lambda>_.
     try_else (if rq_order_type rq = Limit then check_price c ii (rq_price rq) else Some (Inr ())) (\<lambda>_.
     try_else (Some (guard_err (client_order_lookup c (rq_account rq) (rq_client_order_id rq) \<noteq> None)
       DuplicateClientOrderId)) (\<lambda>_.
     try_else (check_trading_permitted c ai) (\<lambda>_.
     try_else (check_client_sequence c ai (rq_client_seq rq)) (\<lambda>_.
     try_else (check_reference_price c ii) (\<lambda>reference.
     do {
       a \<leftarrow> idx (tc_accounts c) ai;
       try_else (Some (guard_err (lim_max_order_quantity (ac_limits a) < rq_quantity rq)
         MaxOrderQuantity)) (\<lambda>_.
       try_else
         (case rq_order_type rq of
            Limit \<Rightarrow> Some (Inr (rq_price rq))
          | Market \<Rightarrow> Some (protection_price reference (rq_side rq)
              (ec_market_protection_ticks (tc_config c)))) (\<lambda>execution_limit.
       try_else (Some (guard_err (collar_ticks (ac_limits a) < tick_distance execution_limit reference)
         PriceCollar)) (\<lambda>_.
       try_else (Some (ok_or (checked_notional (rq_quantity rq) execution_limit) ArithmeticOverflow)) (\<lambda>notional.
       try_else (Some (guard_err (lim_max_order_notional (ac_limits a) < notional) MaxOrderNotional)) (\<lambda>_.
       try_else (check_exposure c ai ii (rq_side rq) (rq_quantity rq) execution_limit 0 execution_limit) (\<lambda>_.
       do {
         r \<leftarrow> idx (tc_instruments c) ii;
         if is_full S (ir_book r) then Some (Inl reject_reason.CapacityExhausted)
         else Some (Inr \<lparr>cn_account_index = ai, cn_instrument_index = ii,
                         cn_execution_limit = execution_limit\<rparr>)
       }))))))
     })))))))))"

definition check_replace ::
  "'s slab_ops \<Rightarrow> 's trading_core \<Rightarrow> order_request \<Rightarrow> (reject_reason + checked_replace) option" where
  "check_replace S c rq =
     try_else (Some (ok_or (tc_account_index c (rq_account rq)) UnknownAccount)) (\<lambda>ai.
     try_else (Some (ok_or (tc_instrument_index c (rq_instrument rq)) UnknownInstrument)) (\<lambda>ii.
     try_else (Some (ok_or (client_order_lookup c (rq_account rq) (rq_target_client_order_id rq))
       UnknownOrder)) (\<lambda>oid.
     do {
       r \<leftarrow> idx (tc_instruments c) ii;
       found \<leftarrow> book_get S (ir_book r) oid;
       try_else (Some (ok_or found OrderAlreadyTerminal)) (\<lambda>existing.
       try_else (Some (guard_err (rq_side rq \<noteq> o_side existing \<or> rq_order_type rq \<noteq> Limit)
         MalformedRequest)) (\<lambda>_.
       try_else (check_price c ii (rq_price rq)) (\<lambda>_.
       try_else (Some (guard_err (rq_quantity rq = 0) InvalidQuantity)) (\<lambda>_.
       do {
         m \<leftarrow> rem_unsigned (rq_quantity rq) (ic_lot_size (ir_config r));
         try_else (Some (guard_err (m \<noteq> 0) QuantityNotAligned)) (\<lambda>_.
         try_else (Some (guard_err (rq_quantity rq < o_filled existing) InvalidReplaceQuantity)) (\<lambda>_.
         try_else (check_trading_permitted c ai) (\<lambda>_.
         try_else (check_client_sequence c ai (rq_client_seq rq)) (\<lambda>_.
         try_else (check_reference_price c ii) (\<lambda>reference.
         do {
           a \<leftarrow> idx (tc_accounts c) ai;
           let new_remaining = rq_quantity rq - o_filled existing;
           try_else (Some (guard_err (lim_max_order_quantity (ac_limits a) < new_remaining)
             MaxOrderQuantity)) (\<lambda>_.
           try_else (Some (guard_err (collar_ticks (ac_limits a) < tick_distance (rq_price rq) reference)
             PriceCollar)) (\<lambda>_.
           try_else (Some (ok_or (checked_notional new_remaining (rq_price rq)) ArithmeticOverflow)) (\<lambda>notional.
           try_else (Some (guard_err (lim_max_order_notional (ac_limits a) < notional) MaxOrderNotional)) (\<lambda>_.
           do {
             rest \<leftarrow> remaining existing;
             try_else (check_exposure c ai ii (o_side existing) new_remaining (rq_price rq) rest
               (o_price existing)) (\<lambda>_.
             Some (Inr \<lparr>ck_account_index = ai, ck_instrument_index = ii, ck_order_id = oid,
                        ck_existing = existing\<rparr>))
           }))))
         })))))
       }))))
     })))"

end
