(* ===== verification/Core.thy ===== *)
theory Core
  imports Risk
begin

text \<open>
  The deterministic engine \<open>TradingCore\<close> (\<open>trading-core/src/core.rs\<close>): every method that changes
  state, as a function on the state.  A method that takes \<open>&mut Vec<OutputEvent>\<close> takes the list and
  returns it extended.  The result is in \<open>option\<close>, with \<open>None\<close> for a panic.
\<close>

section \<open>Sequences and reports\<close>

definition take_output_seq :: "'s trading_core \<Rightarrow> nat \<times> 's trading_core" where
  "take_output_seq c =
     (case counter_next (tc_output_seq c) of
        Some n \<Rightarrow> (n, c\<lparr>tc_output_seq := n\<rparr>)
      | None \<Rightarrow> (tc_output_seq c, set_fault SequenceExhausted c))"

definition push_state ::
  "engine_state_event \<Rightarrow> 's trading_core \<Rightarrow> output_event list \<Rightarrow> 's trading_core \<times> output_event list" where
  "push_state event c out =
     (let (sq, c') = take_output_seq c
      in (c', out @ [OutState \<lparr>se_output_seq = sq, se_engine_seq = tc_engine_seq c',
            se_engine_time_ns = tc_engine_time_ns c', se_event = event\<rparr>]))"

definition base_report ::
  "order_request \<Rightarrow> order_id \<Rightarrow> 's trading_core \<Rightarrow> execution_report \<times> 's trading_core" where
  "base_report rq oid c =
     (let (sq, c') = take_output_seq c
      in (\<lparr>er_output_seq = sq, er_engine_seq = tc_engine_seq c',
           er_engine_time_ns = tc_engine_time_ns c', er_account = rq_account rq,
           er_instrument = rq_instrument rq, er_request_id = rq_request_id rq,
           er_client_order_id = rq_client_order_id rq, er_order_id = oid, er_kind = RepAccepted,
           er_state = StWorking, er_side = rq_side rq, er_order_type = rq_order_type rq,
           er_price = rq_price rq, er_total_quantity = rq_quantity rq, er_cumulative_filled = 0,
           er_remaining = rq_quantity rq, er_last_fill_quantity = 0, er_last_fill_price = 0,
           er_reject_reason = None\<rparr>, c'))"

definition reject_report ::
  "order_request \<Rightarrow> reject_reason \<Rightarrow> 's trading_core \<Rightarrow> execution_report \<times> 's trading_core" where
  "reject_report rq reason c =
     (let (r, c') = base_report rq 0 c
      in (r\<lparr>er_kind := RepRejected, er_state := StCancelled, er_remaining := 0,
            er_reject_reason := Some reason\<rparr>, c'))"

definition terminal_report ::
  "order_request \<Rightarrow> order_id \<Rightarrow> report_kind \<Rightarrow> quantity_lots \<Rightarrow> 's trading_core \<Rightarrow>
   execution_report \<times> 's trading_core" where
  "terminal_report rq oid kind filled c =
     (let (r, c') = base_report rq oid c
      in (r\<lparr>er_kind := kind, er_state := StFilled, er_cumulative_filled := filled, er_remaining := 0\<rparr>, c'))"

definition cancelled_report ::
  "order_request \<Rightarrow> order_id \<Rightarrow> quantity_lots \<Rightarrow> quantity_lots \<Rightarrow> 's trading_core \<Rightarrow>
   execution_report \<times> 's trading_core" where
  "cancelled_report rq oid total_lots filled c =
     (let (r, c') = base_report rq oid c
      in (r\<lparr>er_kind := RepCancelled, er_state := StCancelled, er_total_quantity := total_lots,
            er_cumulative_filled := filled, er_remaining := 0\<rparr>, c'))"

definition replace_cancelled_report ::
  "order_request \<Rightarrow> order_id \<Rightarrow> order_node \<Rightarrow> 's trading_core \<Rightarrow> execution_report \<times> 's trading_core" where
  "replace_cancelled_report rq oid existing c =
     (let (r, c') = base_report rq oid c
      in (r\<lparr>er_kind := RepCancelled, er_state := StCancelled, er_client_order_id := o_client existing,
            er_side := o_side existing, er_cumulative_filled := o_filled existing, er_remaining := 0\<rparr>, c'))"

section \<open>Reservations and settlement\<close>

definition core_reserve ::
  "nat \<Rightarrow> nat \<Rightarrow> side \<Rightarrow> quantity_lots \<Rightarrow> price_ticks \<Rightarrow> 's trading_core \<Rightarrow> 's trading_core option" where
  "core_reserve ai ii sd lots price c =
     (case checked_notional lots price of
        None \<Rightarrow> Some (set_fault Accounting c)
      | Some notional \<Rightarrow> do {
          (ok, c') \<leftarrow> update_position ai ii (ip_reserve sd lots notional) c;
          Some (if ok then c' else set_fault Accounting c')
        })"

definition release_reservation ::
  "nat \<Rightarrow> nat \<Rightarrow> side \<Rightarrow> quantity_lots \<Rightarrow> price_ticks \<Rightarrow> 's trading_core \<Rightarrow> 's trading_core option" where
  "release_reservation ai ii sd lots price c =
     (if lots = 0 then Some c
      else
        (case checked_notional lots price of
           None \<Rightarrow> Some (set_fault Accounting c)
         | Some notional \<Rightarrow> do {
             (ok, c') \<leftarrow> update_position ai ii (ip_release sd lots notional) c;
             Some (if ok then c' else set_fault Accounting c')
           }))"

definition settle_taker ::
  "nat \<Rightarrow> nat \<Rightarrow> side \<Rightarrow> quantity_lots \<Rightarrow> 's trading_core \<Rightarrow> 's trading_core option" where
  "settle_taker ai ii sd quantity c = do {
     (ok, c') \<leftarrow> update_position ai ii (apply_fill_to_position sd quantity) c;
     Some (if ok then c' else set_fault Accounting c')
   }"

definition settle_fill ::
  "nat \<Rightarrow> nat \<Rightarrow> fill \<Rightarrow> side \<Rightarrow> 's trading_core \<Rightarrow> 's trading_core option" where
  "settle_fill mai ii f aggressor c = do {
     c1 \<leftarrow> release_reservation mai ii (opposite aggressor) (f_qty f) (f_price f) c;
     (ok, c2) \<leftarrow> update_position mai ii (apply_fill_to_position (opposite aggressor) (f_qty f)) c1;
     Some (if ok then c2 else set_fault Accounting c2)
   }"

section \<open>Execution\<close>

text \<open>The trade, the maker report and the taker report of one fill.\<close>

definition trade_event_of ::
  "nat \<Rightarrow> 's trading_core \<Rightarrow> trade_id \<Rightarrow> instrument_id \<Rightarrow> fill \<Rightarrow> order_request \<Rightarrow> order_id \<Rightarrow> side \<Rightarrow>
   trade_event" where
  "trade_event_of sq c tid instrument f rq oid sd =
     \<lparr>te_output_seq = sq, te_engine_seq = tc_engine_seq c, te_engine_time_ns = tc_engine_time_ns c,
      te_trade_id = tid, te_instrument = instrument, te_maker_order_id = f_maker f,
      te_taker_order_id = oid, te_maker_account = f_account f, te_taker_account = rq_account rq,
      te_aggressor = sd, te_price = f_price f, te_quantity = f_qty f\<rparr>"

definition maker_report_of ::
  "nat \<Rightarrow> 's trading_core \<Rightarrow> instrument_id \<Rightarrow> fill \<Rightarrow> side \<Rightarrow> execution_report" where
  "maker_report_of sq c instrument f sd =
     \<lparr>er_output_seq = sq, er_engine_seq = tc_engine_seq c, er_engine_time_ns = tc_engine_time_ns c,
      er_account = f_account f, er_instrument = instrument, er_request_id = 0,
      er_client_order_id = f_client f, er_order_id = f_maker f,
      er_kind = (if maker_is_filled f then RepFilled else RepPartiallyFilled),
      er_state = (if maker_is_filled f then StFilled else StPartiallyFilled),
      er_side = opposite sd, er_order_type = Limit, er_price = f_price f,
      er_total_quantity = f_total f, er_cumulative_filled = f_cum f, er_remaining = f_rest f,
      er_last_fill_quantity = f_qty f, er_last_fill_price = f_price f, er_reject_reason = None\<rparr>"

definition taker_report_of ::
  "execution_report \<Rightarrow> side \<Rightarrow> quantity_lots \<Rightarrow> quantity_lots \<Rightarrow> quantity_lots \<Rightarrow> fill \<Rightarrow> execution_report" where
  "taker_report_of base sd quantity cum rest f =
     base\<lparr>er_side := sd,
          er_kind := (if cum = quantity then RepFilled else RepPartiallyFilled),
          er_state := (if cum = quantity then StFilled else StPartiallyFilled),
          er_cumulative_filled := cum, er_remaining := rest,
          er_last_fill_quantity := f_qty f, er_last_fill_price := f_price f\<rparr>"

definition drop_live :: "fill \<Rightarrow> 's trading_core \<Rightarrow> 's trading_core" where
  "drop_live f c =
     (if maker_is_filled f
      then c\<lparr>tc_live_orders := (tc_live_orders c)(f_maker f := None),
             tc_client_orders := (tc_client_orders c)((f_account f, f_client f) := None)\<rparr>
      else c)"

text \<open>The loop over the fills.  An exhausted counter ends it early, with the fault set.\<close>

fun execute_fills ::
  "nat \<Rightarrow> nat \<Rightarrow> order_request \<Rightarrow> order_id \<Rightarrow> side \<Rightarrow> quantity_lots \<Rightarrow> instrument_id \<Rightarrow> fill list \<Rightarrow>
   quantity_lots \<Rightarrow> 's trading_core \<Rightarrow> output_event list \<Rightarrow>
   ('s trading_core \<times> output_event list) option" where
  "execute_fills ii ai rq oid sd quantity instrument [] cum c out = Some (c, out)"
| "execute_fills ii ai rq oid sd quantity instrument (f # fs) cum c out =
     (case checked_add 64 cum (f_qty f) of
        None \<Rightarrow> Some (set_fault Accounting c, out)
      | Some cum' \<Rightarrow>
          (case counter_next (tc_next_trade_id c) of
             None \<Rightarrow> Some (set_fault SequenceExhausted c, out)
           | Some tid \<Rightarrow> do {
               let c1 = bump_metric em_trades_update (c\<lparr>tc_next_trade_id := tid\<rparr>);
               mai \<leftarrow> tc_account_index c1 (f_account f);
               c2 \<leftarrow> settle_fill mai ii f sd c1;
               c3 \<leftarrow> settle_taker ai ii sd (f_qty f) c2;
               let (sq, c4) = take_output_seq c3;
               let trade = trade_event_of sq c4 tid instrument f rq oid sd;
               let (sq', c5) = take_output_seq c4;
               let maker = maker_report_of sq' c5 instrument f sd;
               let c6 = drop_live f c5;
               let (base, c7) = base_report rq oid c6;
               let (rest, c8) =
                 (case checked_sub quantity cum' of
                    Some r \<Rightarrow> (r, c7)
                  | None \<Rightarrow> (0, set_fault Accounting c7));
               execute_fills ii ai rq oid sd quantity instrument fs cum' c8
                 (out @ [OutTrade trade, OutReport maker,
                         OutReport (taker_report_of base sd quantity cum' rest f)])
             }))"

definition execute ::
  "'s slab_ops \<Rightarrow> nat \<Rightarrow> nat \<Rightarrow> order_request \<Rightarrow> order_id \<Rightarrow> side \<Rightarrow> price_ticks \<Rightarrow> quantity_lots \<Rightarrow>
   's trading_core \<Rightarrow> output_event list \<Rightarrow>
   (quantity_lots \<times> 's trading_core \<times> output_event list) option" where
  "execute S ii ai rq oid sd limit quantity c out = do {
     r \<leftarrow> idx (tc_instruments c) ii;
     (filled, b, fs) \<leftarrow> match_order S (ir_book r) sd limit quantity [];
     let c1 = (set_book ii b c)\<lparr>tc_fills := fs\<rparr>;
     if filled = 0 then Some (filled, c1, out)
     else do {
       (c2, out') \<leftarrow> execute_fills ii ai rq oid sd quantity (ic_id (ir_config r)) fs 0 c1 out;
       Some (filled, c2, out')
     }
   }"

section \<open>Resting orders\<close>

definition rest_order_with ::
  "'s slab_ops \<Rightarrow> nat \<Rightarrow> nat \<Rightarrow> client_order_id \<Rightarrow> side \<Rightarrow> price_ticks \<Rightarrow> quantity_lots \<Rightarrow>
   quantity_lots \<Rightarrow> order_id \<Rightarrow> 's trading_core \<Rightarrow> 's trading_core option" where
  "rest_order_with S ii ai cid sd price total_lots filled oid c =
     (case counter_next (tc_next_priority c) of
        None \<Rightarrow> Some (set_fault SequenceExhausted c)
      | Some priority \<Rightarrow> do {
          let c1 = c\<lparr>tc_next_priority := priority\<rparr>;
          a \<leftarrow> idx (tc_accounts c1) ai;
          r \<leftarrow> idx (tc_instruments c1) ii;
          inserted \<leftarrow> book_insert S (ir_book r)
            \<lparr>o_id = oid, o_account = ac_id a, o_client = cid, o_side = sd, o_price = price,
             o_total = total_lots, o_filled = filled, o_priority = priority\<rparr>;
          (case inserted of
             Inl _ \<Rightarrow> Some c1
           | Inr b \<Rightarrow>
               (let c2 = set_book ii b c1 in
                case checked_sub total_lots filled of
                  None \<Rightarrow> Some (set_fault Accounting c2)
                | Some rest \<Rightarrow> do {
                    c3 \<leftarrow> core_reserve ai ii sd rest price c2;
                    Some (c3\<lparr>tc_live_orders := (tc_live_orders c3)(oid \<mapsto>
                              \<lparr>lo_account_index = ai, lo_instrument_index = ii\<rparr>),
                            tc_client_orders := (tc_client_orders c3)((ac_id a, cid) \<mapsto> oid)\<rparr>)
                  }))
        })"

definition rest_order ::
  "'s slab_ops \<Rightarrow> nat \<Rightarrow> nat \<Rightarrow> order_request \<Rightarrow> order_id \<Rightarrow> quantity_lots \<Rightarrow> quantity_lots \<Rightarrow>
   's trading_core \<Rightarrow> 's trading_core option" where
  "rest_order S ii ai rq oid total_lots filled c =
     rest_order_with S ii ai (rq_client_order_id rq) (rq_side rq) (rq_price rq) total_lots filled oid c"

section \<open>Requests\<close>

definition working_state :: "quantity_lots \<Rightarrow> order_state" where
  "working_state filled = (if filled = 0 then StWorking else StPartiallyFilled)"

definition handle_new ::
  "'s slab_ops \<Rightarrow> order_request \<Rightarrow> 's trading_core \<Rightarrow> output_event list \<Rightarrow>
   (execution_report \<times> 's trading_core \<times> output_event list) option" where
  "handle_new S rq c out = do {
     checked \<leftarrow> check_new_order S c rq;
     (case checked of
        Inl reason \<Rightarrow> (let (r, c') = reject_report rq reason c in Some (r, c', out))
      | Inr ck \<Rightarrow>
          (case counter_next (tc_next_order_id c) of
             None \<Rightarrow>
               (let (r, c') = reject_report rq reject_reason.CapacityExhausted
                  (set_fault SequenceExhausted c)
                in Some (r, c', out))
           | Some oid \<Rightarrow> do {
               (filled, c1, out1) \<leftarrow> execute S (cn_instrument_index ck) (cn_account_index ck) rq oid
                 (rq_side rq) (cn_execution_limit ck) (rq_quantity rq)
                 (c\<lparr>tc_next_order_id := oid\<rparr>) out;
               (case checked_sub (rq_quantity rq) filled of
                  None \<Rightarrow>
                    (let (r, c') = reject_report rq ArithmeticOverflow (set_fault Accounting c1)
                     in Some (r, c', out1))
                | Some rest \<Rightarrow>
                    if rest = 0 then
                      (let (r, c') = terminal_report rq oid RepFilled filled c1 in Some (r, c', out1))
                    else if rq_order_type rq = Market then
                      (let (r, c') = cancelled_report rq oid (rq_quantity rq) filled c1
                       in Some (r, c', out1))
                    else do {
                      c2 \<leftarrow> rest_order S (cn_instrument_index ck) (cn_account_index ck) rq oid
                        (rq_quantity rq) filled c1;
                      (let (r, c3) = base_report rq oid c2
                       in Some (r\<lparr>er_kind := RepAccepted, er_state := working_state filled,
                                  er_cumulative_filled := filled, er_remaining := rest\<rparr>, c3, out1))
                    })
             }))
   }"

definition drop_order_entry :: "order_id \<Rightarrow> account_id \<times> client_order_id \<Rightarrow> 's trading_core \<Rightarrow> 's trading_core" where
  "drop_order_entry oid key c =
     c\<lparr>tc_live_orders := (tc_live_orders c)(oid := None),
       tc_client_orders := (tc_client_orders c)(key := None)\<rparr>"

definition handle_cancel ::
  "'s slab_ops \<Rightarrow> order_request \<Rightarrow> 's trading_core \<Rightarrow> (execution_report \<times> 's trading_core) option" where
  "handle_cancel S rq c =
     (if tc_account_index c (rq_account rq) = None then Some (reject_report rq UnknownAccount c)
      else
        (let key = (rq_account rq, rq_target_client_order_id rq) in
         case tc_client_orders c key of
           None \<Rightarrow> Some (reject_report rq UnknownOrder c)
         | Some oid \<Rightarrow>
             (case tc_live_orders c oid of
                None \<Rightarrow> Some (reject_report rq OrderAlreadyTerminal c)
              | Some live \<Rightarrow> do {
                  r \<leftarrow> idx (tc_instruments c) (lo_instrument_index live);
                  (removed, b) \<leftarrow> book_remove S (ir_book r) oid;
                  node \<leftarrow> removed;
                  rest \<leftarrow> remaining node;
                  c1 \<leftarrow> release_reservation (lo_account_index live) (lo_instrument_index live)
                    (o_side node) rest (o_price node) (set_book (lo_instrument_index live) b c);
                  (let (rep, c2) = base_report rq oid (drop_order_entry oid key c1)
                   in Some (rep\<lparr>er_kind := RepCancelled, er_state := StCancelled,
                       er_client_order_id := o_client node, er_side := o_side node,
                       er_price := o_price node, er_total_quantity := o_total node,
                       er_cumulative_filled := o_filled node, er_remaining := 0\<rparr>, c2))
                })))"

text \<open>A replace at the same price with a lower total keeps the queue position.\<close>

definition replace_in_place ::
  "'s slab_ops \<Rightarrow> order_request \<Rightarrow> nat \<Rightarrow> nat \<Rightarrow> order_id \<Rightarrow> order_node \<Rightarrow> 's trading_core \<Rightarrow>
   (execution_report \<times> 's trading_core) option" where
  "replace_in_place S rq ai ii oid existing c =
     (case checked_sub (o_total existing) (rq_quantity rq) of
        None \<Rightarrow> Some (reject_report rq ArithmeticOverflow (set_fault Accounting c))
      | Some released \<Rightarrow> do {
          c1 \<leftarrow> release_reservation ai ii (o_side existing) released (o_price existing) c;
          r \<leftarrow> idx (tc_instruments c1) ii;
          b \<leftarrow> reduce_total S (ir_book r) oid (rq_quantity rq);
          let c2 = set_book ii b c1;
          if rq_quantity rq = o_filled existing then do {
            (_, b') \<leftarrow> book_remove S b oid;
            Some (replace_cancelled_report rq oid existing
              (drop_order_entry oid (rq_account rq, o_client existing) (set_book ii b' c2)))
          }
          else
            (let (rep, c3) = base_report rq oid c2 in
             case checked_sub (rq_quantity rq) (o_filled existing) of
               Some lots \<Rightarrow>
                 Some (rep\<lparr>er_kind := RepReplaced, er_client_order_id := o_client existing,
                           er_side := o_side existing, er_state := working_state (o_filled existing),
                           er_cumulative_filled := o_filled existing, er_remaining := lots\<rparr>, c3)
             | None \<Rightarrow> Some (reject_report rq ArithmeticOverflow (set_fault Accounting c3)))
        })"

text \<open>Any other replace leaves the queue, executes again and rests with a new priority.\<close>

definition replace_requeue ::
  "'s slab_ops \<Rightarrow> order_request \<Rightarrow> nat \<Rightarrow> nat \<Rightarrow> order_id \<Rightarrow> order_node \<Rightarrow> 's trading_core \<Rightarrow>
   output_event list \<Rightarrow> (execution_report \<times> 's trading_core \<times> output_event list) option" where
  "replace_requeue S rq ai ii oid existing c out = do {
     r \<leftarrow> idx (tc_instruments c) ii;
     (_, b) \<leftarrow> book_remove S (ir_book r) oid;
     rest \<leftarrow> remaining existing;
     c1 \<leftarrow> release_reservation ai ii (o_side existing) rest (o_price existing) (set_book ii b c);
     let c2 = drop_order_entry oid (rq_account rq, o_client existing) c1;
     if rq_quantity rq = o_filled existing
     then (let (rep, c3) = replace_cancelled_report rq oid existing c2 in Some (rep, c3, out))
     else
       (case checked_sub (rq_quantity rq) (o_filled existing) of
          None \<Rightarrow>
            (let (rep, c3) = reject_report rq ArithmeticOverflow (set_fault Accounting c2)
             in Some (rep, c3, out))
        | Some target \<Rightarrow> do {
            (filled, c3, out1) \<leftarrow> execute S ii ai rq oid (o_side existing) (rq_price rq) target c2 out;
            (case checked_add 64 (o_filled existing) filled of
               None \<Rightarrow>
                 (let (rep, c4) = reject_report rq ArithmeticOverflow (set_fault Accounting c3)
                  in Some (rep, c4, out1))
             | Some cumulative \<Rightarrow>
                 if cumulative = rq_quantity rq then
                   (let (rep, c4) = base_report rq oid c3
                    in Some (rep\<lparr>er_kind := RepFilled, er_state := StFilled,
                         er_client_order_id := o_client existing, er_side := o_side existing,
                         er_cumulative_filled := cumulative, er_remaining := 0\<rparr>, c4, out1))
                 else do {
                   c4 \<leftarrow> rest_order_with S ii ai (o_client existing) (o_side existing) (rq_price rq)
                     (rq_quantity rq) cumulative oid c3;
                   (let (rep, c5) = base_report rq oid c4;
                        (lots, c6) =
                          (case checked_sub (rq_quantity rq) cumulative of
                             Some l \<Rightarrow> (l, c5)
                           | None \<Rightarrow> (0, set_fault Accounting c5))
                    in Some (rep\<lparr>er_kind := RepReplaced, er_client_order_id := o_client existing,
                         er_side := o_side existing, er_state := working_state cumulative,
                         er_cumulative_filled := cumulative, er_remaining := lots\<rparr>, c6, out1))
                 })
          })
   }"

definition handle_replace ::
  "'s slab_ops \<Rightarrow> order_request \<Rightarrow> 's trading_core \<Rightarrow> output_event list \<Rightarrow>
   (execution_report \<times> 's trading_core \<times> output_event list) option" where
  "handle_replace S rq c out = do {
     checked \<leftarrow> check_replace S c rq;
     (case checked of
        Inl reason \<Rightarrow> (let (r, c') = reject_report rq reason c in Some (r, c', out))
      | Inr ck \<Rightarrow>
          (let existing = ck_existing ck in
           if rq_price rq = o_price existing \<and> rq_quantity rq < o_total existing
           then do {
             (r, c') \<leftarrow> replace_in_place S rq (ck_account_index ck) (ck_instrument_index ck)
               (ck_order_id ck) existing c;
             Some (r, c', out)
           }
           else replace_requeue S rq (ck_account_index ck) (ck_instrument_index ck)
             (ck_order_id ck) existing c out))
   }"

section \<open>Inputs\<close>

definition record_outcome ::
  "nat \<Rightarrow> order_request \<Rightarrow> nat \<Rightarrow> execution_report \<Rightarrow> 's trading_core \<Rightarrow> 's trading_core option" where
  "record_outcome ai rq fingerprint report c = do {
     a \<leftarrow> idx (tc_accounts c) ai;
     cache \<leftarrow> cache_record (ac_cache a) (rq_request_id rq) fingerprint report;
     let a' = a\<lparr>ac_cache := cache\<rparr>;
     let a'' = (if er_reject_reason report = None \<and> 0 < rq_client_seq rq
                then a'\<lparr>ac_last_client_seq := rq_client_seq rq\<rparr> else a');
     Some (c\<lparr>tc_accounts := (tc_accounts c)[ai := a'']\<rparr>)
   }"

text \<open>The part of \<open>apply_request\<close> after the cache lookup: the handler, the metrics, the cache entry.\<close>

definition apply_fresh_request ::
  "'s slab_ops \<Rightarrow> order_request \<Rightarrow> 's trading_core \<Rightarrow> output_event list \<Rightarrow>
   ('s trading_core \<times> output_event list) option" where
  "apply_fresh_request S rq c out = do {
     (outcome, c1, out1) \<leftarrow>
       (case rq_kind rq of
          New \<Rightarrow> handle_new S rq c out
        | Cancel \<Rightarrow> do { (r, c') \<leftarrow> handle_cancel S rq c; Some (r, c', out) }
        | Replace \<Rightarrow> handle_replace S rq c out);
     let c2 = (if er_reject_reason outcome \<noteq> None then bump_metric em_requests_rejected_update c1
               else bump_metric em_requests_accepted_update c1);
     c3 \<leftarrow>
       (case tc_account_index c2 (rq_account rq) of
          Some ai \<Rightarrow> record_outcome ai rq (request_fingerprint rq) outcome c2
        | None \<Rightarrow> Some c2);
     Some (c3, out1 @ [OutReport outcome])
   }"

definition apply_request ::
  "'s slab_ops \<Rightarrow> order_request \<Rightarrow> 's trading_core \<Rightarrow> output_event list \<Rightarrow>
   ('s trading_core \<times> output_event list) option" where
  "apply_request S rq c out =
     (case tc_account_index c (rq_account rq) of
        None \<Rightarrow> apply_fresh_request S rq c out
      | Some ai \<Rightarrow> do {
          a \<leftarrow> idx (tc_accounts c) ai;
          (case cache_lookup (ac_cache a) (rq_request_id rq) (request_fingerprint rq) of
             Some (Retry previous) \<Rightarrow>
               (let (sq, c') = take_output_seq c
                in Some (c', out @ [OutReport (previous\<lparr>er_output_seq := sq,
                     er_engine_seq := tc_engine_seq c', er_engine_time_ns := tc_engine_time_ns c'\<rparr>)]))
           | Some Conflict \<Rightarrow>
               (let (report, c') = reject_report rq DuplicateRequestConflict c in do {
                  c'' \<leftarrow> record_outcome ai rq (request_fingerprint rq) report c';
                  Some (c'', out @ [OutReport report])
                })
           | None \<Rightarrow> apply_fresh_request S rq c out)
        })"

fun apply_control ::
  "control_command \<Rightarrow> 's trading_core \<Rightarrow> output_event list \<Rightarrow>
   ('s trading_core \<times> output_event list) option" where
  "apply_control (SetGlobalKill engaged) c out =
     (let c1 = bump_metric em_control_events_update c in
      if tc_global_kill c1 = engaged then Some (c1, out)
      else Some (push_state (if engaged then KillSwitchEngaged else KillSwitchReleased)
        (c1\<lparr>tc_global_kill := engaged\<rparr>) out))"
| "apply_control (SetAccountEnabled account enabled) c out =
     (let c1 = bump_metric em_control_events_update c in
      case tc_account_index c1 account of
        None \<Rightarrow> Some (c1, out)
      | Some ai \<Rightarrow> do {
          a \<leftarrow> idx (tc_accounts c1) ai;
          if ac_enabled a = enabled then Some (c1, out)
          else Some (push_state (AccountEnabledChanged account enabled)
            (c1\<lparr>tc_accounts := (tc_accounts c1)[ai := a\<lparr>ac_enabled := enabled\<rparr>]\<rparr>) out)
        })"
| "apply_control (SetAccountLimits account limits) c out =
     (let c1 = bump_metric em_control_events_update c in
      case tc_account_index c1 account of
        None \<Rightarrow> Some (c1, out)
      | Some ai \<Rightarrow> do {
          a \<leftarrow> idx (tc_accounts c1) ai;
          Some (push_state (AccountLimitsChanged account)
            (c1\<lparr>tc_accounts := (tc_accounts c1)[ai := a\<lparr>ac_limits := limits\<rparr>]\<rparr>) out)
        })"

definition apply_market ::
  "market_event \<Rightarrow> 's trading_core \<Rightarrow> output_event list \<Rightarrow> ('s trading_core \<times> output_event list) option" where
  "apply_market event c out =
     (let c1 = bump_metric em_market_events_update c in
      case tc_instrument_index c1 (me_instrument event) of
        None \<Rightarrow> Some (c1, out)
      | Some ii \<Rightarrow> do {
          r \<leftarrow> idx (tc_instruments c1) ii;
          (let (update, market) = market_apply (ir_market r) (me_source_seq event) (me_kind event)
             (tc_engine_time_ns c1);
               c2 = c1\<lparr>tc_instruments := (tc_instruments c1)[ii := r\<lparr>ir_market := market\<rparr>]\<rparr>
           in Some (if state_changed update
                    then push_state (FeedStateChanged (me_instrument event) (mu_state update)) c2 out
                    else (c2, out)))
        })"

definition count_reports :: "output_event list \<Rightarrow> nat" where
  "count_reports out = length (filter (\<lambda>e. case e of OutReport _ \<Rightarrow> True | _ \<Rightarrow> False) out)"

definition core_apply ::
  "'s slab_ops \<Rightarrow> engine_input \<Rightarrow> 's trading_core \<Rightarrow> ('s trading_core \<times> output_event list) option" where
  "core_apply S input c =
     (if tc_fault c \<noteq> None then Some (c, [])
      else
        (case counter_next (tc_engine_seq c) of
           None \<Rightarrow> Some (set_fault SequenceExhausted c, [])
         | Some next \<Rightarrow>
             (let c1 = bump_metric em_inputs_applied_update
                (c\<lparr>tc_engine_seq := next, tc_engine_time_ns := in_recv_time_ns input\<rparr>)
              in do {
                (c2, out) \<leftarrow>
                  (case in_event input of
                     MarketInput event \<Rightarrow> apply_market event c1 []
                   | OrderInput rq \<Rightarrow> apply_request S rq c1 []
                   | ControlInput command \<Rightarrow> apply_control command c1 []);
                Some (c2\<lparr>tc_metrics := (tc_metrics c2)\<lparr>em_reports_emitted :=
                  wrapping_add 64 (em_reports_emitted (tc_metrics c2)) (count_reports out)\<rparr>\<rparr>, out)
              })))"

fun core_run ::
  "'s slab_ops \<Rightarrow> engine_input list \<Rightarrow> 's trading_core \<Rightarrow> ('s trading_core \<times> output_event list) option" where
  "core_run S [] c = Some (c, [])"
| "core_run S (i # is) c = do {
     (c1, out) \<leftarrow> core_apply S i c;
     (c2, outs) \<leftarrow> core_run S is c1;
     Some (c2, out @ outs)
   }"

end
