(* ===== verification/Ledger.thy ===== *)
theory Ledger
  imports Core Book_Views Matching_Spec
begin

text \<open>
  The accounting invariant of the engine.  A \<^emph>\<open>ledger\<close> relates the accounts and the live-order
  tables to a map \<open>L i\<close> of the resting orders of instrument \<open>i\<close>: the reservations of an account are
  the sums over its resting orders, the live-order tables list exactly the resting orders, positions
  net to zero over the accounts, and position plus reservation stays below a cap on each side.  The
  lemmas show that reserving, releasing and settling move the ledger as the book moves.
\<close>

section \<open>Positions by side\<close>

fun ip_open_notional :: "instrument_position \<Rightarrow> side \<Rightarrow> nat" where
  "ip_open_notional ip Buy = ip_open_buy_notional ip"
| "ip_open_notional ip Sell = ip_open_sell_notional ip"

text \<open>A position seen from a side: what the side adds to counts positive.\<close>

fun directed :: "side \<Rightarrow> int \<Rightarrow> int" where
  "directed Buy x = x"
| "directed Sell x = - x"

definition exposed :: "side \<Rightarrow> instrument_position \<Rightarrow> int" where
  "exposed sd ip = directed sd (ip_position_lots ip) + int (ip_open_lots ip sd)"

fun room :: "side \<Rightarrow> int" where
  "room Buy = 2 ^ 63 - 1"
| "room Sell = 2 ^ 63"

fun release_pos :: "side \<Rightarrow> nat \<Rightarrow> nat \<Rightarrow> instrument_position \<Rightarrow> instrument_position" where
  "release_pos Buy l v ip = ip\<lparr>ip_open_buy_lots := ip_open_buy_lots ip - l,
     ip_open_buy_notional := ip_open_buy_notional ip - v\<rparr>"
| "release_pos Sell l v ip = ip\<lparr>ip_open_sell_lots := ip_open_sell_lots ip - l,
     ip_open_sell_notional := ip_open_sell_notional ip - v\<rparr>"

fun reserve_pos :: "side \<Rightarrow> nat \<Rightarrow> nat \<Rightarrow> instrument_position \<Rightarrow> instrument_position" where
  "reserve_pos Buy l v ip = ip\<lparr>ip_open_buy_lots := ip_open_buy_lots ip + l,
     ip_open_buy_notional := ip_open_buy_notional ip + v\<rparr>"
| "reserve_pos Sell l v ip = ip\<lparr>ip_open_sell_lots := ip_open_sell_lots ip + l,
     ip_open_sell_notional := ip_open_sell_notional ip + v\<rparr>"

definition fill_pos :: "side \<Rightarrow> nat \<Rightarrow> instrument_position \<Rightarrow> instrument_position" where
  "fill_pos sd q ip = ip\<lparr>ip_position_lots := ip_position_lots ip + directed sd (int q)\<rparr>"

lemma not_side: "s \<noteq> sd \<longleftrightarrow> s = opposite sd"
  by (cases s; cases sd) auto

lemma directed_simps [simp]:
  "directed sd (directed sd x) = x" "directed (opposite sd) x = - directed sd x"
  "directed sd (x + y) = directed sd x + directed sd y" "directed sd (- x) = - directed sd x"
  "directed sd 0 = 0"
  by (cases sd; simp)+

lemma release_pos_view [simp]:
  "ip_position_lots (release_pos sd l v ip) = ip_position_lots ip"
  "ip_open_lots (release_pos sd l v ip) s = (if s = sd then ip_open_lots ip s - l else ip_open_lots ip s)"
  "ip_open_notional (release_pos sd l v ip) s =
     (if s = sd then ip_open_notional ip s - v else ip_open_notional ip s)"
  by (cases sd; cases s; simp)+

lemma reserve_pos_view [simp]:
  "ip_position_lots (reserve_pos sd l v ip) = ip_position_lots ip"
  "ip_open_lots (reserve_pos sd l v ip) s = (if s = sd then ip_open_lots ip s + l else ip_open_lots ip s)"
  "ip_open_notional (reserve_pos sd l v ip) s =
     (if s = sd then ip_open_notional ip s + v else ip_open_notional ip s)"
  by (cases sd; cases s; simp)+

lemma fill_pos_view [simp]:
  "ip_position_lots (fill_pos sd q ip) = ip_position_lots ip + directed sd (int q)"
  "ip_open_lots (fill_pos sd q ip) s = ip_open_lots ip s"
  "ip_open_notional (fill_pos sd q ip) s = ip_open_notional ip s"
  by (cases s; simp add: fill_pos_def)+

lemma exposed_fill_pos:
  "exposed s (fill_pos sd q ip) = (if s = sd then exposed s ip + int q else exposed s ip - int q)"
  by (cases "s = sd") (auto simp: exposed_def not_side)

lemma release_pos_zero [simp]: "release_pos sd 0 0 ip = ip"
  by (cases sd) simp_all

lemma ip_release_ok:
  "l \<le> ip_open_lots ip sd \<Longrightarrow> v \<le> ip_open_notional ip sd \<Longrightarrow>
   ip_release sd l v ip = (True, release_pos sd l v ip)"
  by (cases sd) (simp_all add: checked_sub_def Let_def)

lemma ip_reserve_ok:
  "ip_open_lots ip sd + l < 2 ^ 64 \<Longrightarrow> ip_open_notional ip sd + v < 2 ^ 128 \<Longrightarrow>
   ip_reserve sd l v ip = (True, reserve_pos sd l v ip)"
  by (cases sd) (simp_all add: checked_add_def Let_def)

lemma apply_fill_to_position_ok:
  "q < 2 ^ 63 \<Longrightarrow> in_signed 64 (ip_position_lots ip + directed sd (int q)) \<Longrightarrow>
   apply_fill_to_position sd q ip = (True, fill_pos sd q ip)"
  by (cases sd) (simp_all add: apply_fill_to_position_def try_signed_def checked_iadd_def
      checked_isub_def fill_pos_def in_signed_def)

lemma position_in_range:
  assumes "exposed Buy ip \<le> room Buy" "exposed Sell ip \<le> room Sell"
  shows "- (2 ^ 63) \<le> ip_position_lots ip" "ip_position_lots ip < 2 ^ 63"
  using assms by (simp_all add: exposed_def)

lemma fill_in_range:
  assumes "\<And>s. exposed s ip \<le> room s" "exposed sd ip - int (ip_open_lots ip sd) + int q \<le> room sd"
  shows "in_signed 64 (ip_position_lots ip + directed sd (int q))"
  using position_in_range [OF assms(1,1)] assms(2)
  by (cases sd) (simp_all add: in_signed_def exposed_def)

section \<open>Positions in the engine\<close>

definition pos_at :: "'s trading_core \<Rightarrow> nat \<Rightarrow> nat \<Rightarrow> instrument_position" where
  "pos_at c ai ii = ac_positions (tc_accounts c ! ai) ! ii"

definition set_pos :: "nat \<Rightarrow> nat \<Rightarrow> instrument_position \<Rightarrow> 's trading_core \<Rightarrow> 's trading_core" where
  "set_pos ai ii ip c =
     c\<lparr>tc_accounts := (tc_accounts c)[ai := (tc_accounts c ! ai)
         \<lparr>ac_positions := (ac_positions (tc_accounts c ! ai))[ii := ip]\<rparr>]\<rparr>"

definition in_range :: "nat \<Rightarrow> nat \<Rightarrow> 's trading_core \<Rightarrow> bool" where
  "in_range ai ii c \<longleftrightarrow> ai < length (tc_accounts c) \<and> ii < length (ac_positions (tc_accounts c ! ai))"

lemma update_position_eq:
  "in_range ai ii c \<Longrightarrow> update_position ai ii f c =
     Some (fst (f (pos_at c ai ii)), set_pos ai ii (snd (f (pos_at c ai ii))) c)"
  by (simp add: update_position_def in_range_def idx_def pos_at_def set_pos_def split_beta Let_def)

lemma set_pos_fields [simp]:
  "tc_config (set_pos ai ii ip c) = tc_config c"
  "tc_instruments (set_pos ai ii ip c) = tc_instruments c"
  "tc_instrument_index (set_pos ai ii ip c) = tc_instrument_index c"
  "length (tc_accounts (set_pos ai ii ip c)) = length (tc_accounts c)"
  "tc_account_index (set_pos ai ii ip c) = tc_account_index c"
  "tc_live_orders (set_pos ai ii ip c) = tc_live_orders c"
  "tc_client_orders (set_pos ai ii ip c) = tc_client_orders c"
  "tc_global_kill (set_pos ai ii ip c) = tc_global_kill c"
  "tc_engine_seq (set_pos ai ii ip c) = tc_engine_seq c"
  "tc_output_seq (set_pos ai ii ip c) = tc_output_seq c"
  "tc_next_order_id (set_pos ai ii ip c) = tc_next_order_id c"
  "tc_next_trade_id (set_pos ai ii ip c) = tc_next_trade_id c"
  "tc_next_priority (set_pos ai ii ip c) = tc_next_priority c"
  "tc_engine_time_ns (set_pos ai ii ip c) = tc_engine_time_ns c"
  "tc_fills (set_pos ai ii ip c) = tc_fills c"
  "tc_metrics (set_pos ai ii ip c) = tc_metrics c"
  "tc_fault (set_pos ai ii ip c) = tc_fault c"
  by (simp_all add: set_pos_def)

lemma set_pos_account [simp]:
  "k < length (tc_accounts c) \<Longrightarrow> ac_id (tc_accounts (set_pos ai ii ip c) ! k) = ac_id (tc_accounts c ! k)"
  "k < length (tc_accounts c) \<Longrightarrow>
   ac_limits (tc_accounts (set_pos ai ii ip c) ! k) = ac_limits (tc_accounts c ! k)"
  "k < length (tc_accounts c) \<Longrightarrow>
   ac_cache (tc_accounts (set_pos ai ii ip c) ! k) = ac_cache (tc_accounts c ! k)"
  "k < length (tc_accounts c) \<Longrightarrow>
   length (ac_positions (tc_accounts (set_pos ai ii ip c) ! k)) = length (ac_positions (tc_accounts c ! k))"
  by (cases "k = ai"; simp add: set_pos_def)+

lemma in_range_set_pos [simp]: "in_range k j (set_pos ai ii ip c) = in_range k j c"
  by (auto simp: in_range_def)

lemma pos_at_set_pos:
  "in_range ai ii c \<Longrightarrow> k < length (tc_accounts c) \<Longrightarrow>
   pos_at (set_pos ai ii ip c) k j = (if k = ai \<and> j = ii then ip else pos_at c k j)"
  by (cases "k = ai"; cases "j = ii"; simp add: pos_at_def set_pos_def in_range_def)

lemma set_pos_twice [simp]:
  "in_range ai ii c \<Longrightarrow> set_pos ai ii y (set_pos ai ii x c) = set_pos ai ii y c"
  by (simp add: set_pos_def in_range_def)

lemma set_pos_same: "in_range ai ii c \<Longrightarrow> set_pos ai ii (pos_at c ai ii) c = c"
  by (simp add: set_pos_def pos_at_def in_range_def)

section \<open>The invariant\<close>

definition lots_at :: "account_id \<Rightarrow> side \<Rightarrow> new_order \<Rightarrow> nat" where
  "lots_at a sd d = (if o_account d = a \<and> o_side d = sd then open_lots d else 0)"

definition value_at :: "account_id \<Rightarrow> side \<Rightarrow> new_order \<Rightarrow> nat" where
  "value_at a sd d =
     (if o_account d = a \<and> o_side d = sd then open_lots d * unsigned_abs (o_price d) else 0)"

text \<open>\<open>R a sd\<close> bounds what account \<open>a\<close> may hold on a side with all its working orders filled: at
  most the range of the position counter, and the position limit where that is constant.\<close>

type_synonym caps = "account_id \<Rightarrow> side \<Rightarrow> int"

definition pos_ok :: "caps \<Rightarrow> (order_id \<rightharpoonup> new_order) \<Rightarrow> account_id \<Rightarrow> instrument_position \<Rightarrow> bool" where
  "pos_ok R L a ip \<longleftrightarrow>
     (\<forall>sd. ip_open_lots ip sd = msum (lots_at a sd) L \<and>
        ip_open_notional ip sd = msum (value_at a sd) L \<and>
        ip_open_lots ip sd < 2 ^ 63 \<and> ip_open_notional ip sd < 2 ^ 128 \<and> exposed sd ip \<le> R a sd)"

lemma pos_okD:
  assumes "pos_ok R L a ip"
  shows "ip_open_lots ip sd = msum (lots_at a sd) L" "ip_open_notional ip sd = msum (value_at a sd) L"
    "ip_open_lots ip sd < 2 ^ 63" "ip_open_notional ip sd < 2 ^ 128" "exposed sd ip \<le> R a sd"
  using assms unfolding pos_ok_def by blast+

lemma pos_okI:
  assumes "\<And>sd. ip_open_lots ip sd = msum (lots_at a sd) L"
    "\<And>sd. ip_open_notional ip sd = msum (value_at a sd) L"
    "\<And>sd. ip_open_lots ip sd < 2 ^ 63" "\<And>sd. ip_open_notional ip sd < 2 ^ 128"
    "\<And>sd. exposed sd ip \<le> R a sd"
  shows "pos_ok R L a ip"
  using assms unfolding pos_ok_def by blast

type_synonym resting = "nat \<Rightarrow> order_id \<rightharpoonup> new_order"

definition order_ok :: "'s trading_core \<Rightarrow> nat \<Rightarrow> order_id \<Rightarrow> new_order \<Rightarrow> bool" where
  "order_ok c i oid d \<longleftrightarrow>
     i < length (tc_instruments c) \<and> o_id d = oid \<and> o_filled d < o_total d \<and> o_total d < 2 ^ 64 \<and>
     in_signed 64 (o_price d) \<and> tc_account_index c (o_account d) \<noteq> None \<and>
     oid \<le> tc_next_order_id c \<and> o_priority d \<le> tc_next_priority c"

definition orders_ok :: "'s trading_core \<Rightarrow> resting \<Rightarrow> bool" where
  "orders_ok c L \<longleftrightarrow> (\<forall>i. finite (dom (L i))) \<and> (\<forall>i oid d. L i oid = Some d \<longrightarrow> order_ok c i oid d)"

definition live_ok :: "'s trading_core \<Rightarrow> resting \<Rightarrow> bool" where
  "live_ok c L \<longleftrightarrow>
     (\<forall>oid lo. tc_live_orders c oid = Some lo \<longleftrightarrow>
        (\<exists>d. L (lo_instrument_index lo) oid = Some d \<and>
           tc_account_index c (o_account d) = Some (lo_account_index lo)))"

definition clients_ok :: "'s trading_core \<Rightarrow> resting \<Rightarrow> bool" where
  "clients_ok c L \<longleftrightarrow>
     (\<forall>a cid oid. tc_client_orders c (a, cid) = Some oid \<longleftrightarrow>
        (\<exists>i d. L i oid = Some d \<and> o_account d = a \<and> o_client d = cid))"

definition net_position :: "'s trading_core \<Rightarrow> nat \<Rightarrow> int" where
  "net_position c ii = (\<Sum>ai < length (tc_accounts c). ip_position_lots (pos_at c ai ii))"

definition positions_ok :: "caps \<Rightarrow> 's trading_core \<Rightarrow> resting \<Rightarrow> bool" where
  "positions_ok R c L \<longleftrightarrow>
     (\<forall>a ai ii. tc_account_index c a = Some ai \<longrightarrow> ii < length (tc_instruments c) \<longrightarrow>
        pos_ok R (L ii) a (pos_at c ai ii))"

definition ledger :: "caps \<Rightarrow> 's trading_core \<Rightarrow> resting \<Rightarrow> bool" where
  "ledger R c L \<longleftrightarrow>
     orders_ok c L \<and> live_ok c L \<and> clients_ok c L \<and> positions_ok R c L \<and>
     (\<forall>ii < length (tc_instruments c). net_position c ii = 0) \<and> (\<forall>a sd. R a sd \<le> room sd)"

definition cache_ok :: "request_cache \<Rightarrow> bool" where
  "cache_ok rc \<longleftrightarrow> rc_next rc < length (rc_entries rc)"

text \<open>What never changes its form: the index maps, the lengths and the configured divisors.\<close>

definition shape :: "'s trading_core \<Rightarrow> bool" where
  "shape c \<longleftrightarrow>
     (\<forall>a \<in> set (tc_accounts c). length (ac_positions a) = length (tc_instruments c) \<and> cache_ok (ac_cache a)) \<and>
     (\<forall>a i. tc_account_index c a = Some i \<longrightarrow> i < length (tc_accounts c) \<and> ac_id (tc_accounts c ! i) = a) \<and>
     (\<forall>x i. tc_instrument_index c x = Some i \<longrightarrow>
        i < length (tc_instruments c) \<and> ic_id (ir_config (tc_instruments c ! i)) = x) \<and>
     (\<forall>r \<in> set (tc_instruments c). 0 < ic_tick_size (ir_config r) \<and> 0 < ic_lot_size (ir_config r))"

lemma shape_account:
  assumes "shape c" "tc_account_index c a = Some ai"
  shows "ai < length (tc_accounts c)" "ac_id (tc_accounts c ! ai) = a"
    "ii < length (tc_instruments c) \<Longrightarrow> in_range ai ii c"
proof -
  show "ai < length (tc_accounts c)" "ac_id (tc_accounts c ! ai) = a"
    using assms unfolding shape_def by blast+
  then show "in_range ai ii c" if "ii < length (tc_instruments c)"
    using that assms(1) by (auto simp: shape_def in_range_def)
qed

lemma account_index_inj:
  "shape c \<Longrightarrow> tc_account_index c a = Some ai \<Longrightarrow> tc_account_index c b = Some ai \<Longrightarrow> a = b"
  using shape_account(2) by metis

lemma shape_instrument:
  assumes "shape c" "tc_instrument_index c x = Some ii"
  shows "ii < length (tc_instruments c)"
  using assms unfolding shape_def by blast

lemma shapeD:
  assumes "shape c" "k < length (tc_accounts c)"
  shows "length (ac_positions (tc_accounts c ! k)) = length (tc_instruments c)"
    "cache_ok (ac_cache (tc_accounts c ! k))"
  using assms nth_mem [OF assms(2)] unfolding shape_def by blast+

text \<open>A state that differs from a well-shaped one in its accounts only.\<close>

lemma shape_accounts:
  assumes c: "shape c"
    and same: "tc_instruments c' = tc_instruments c" "tc_instrument_index c' = tc_instrument_index c"
      "tc_account_index c' = tc_account_index c" "length (tc_accounts c') = length (tc_accounts c)"
    and accounts: "\<And>k. k < length (tc_accounts c) \<Longrightarrow> ac_id (tc_accounts c' ! k) = ac_id (tc_accounts c ! k)"
      "\<And>k. k < length (tc_accounts c) \<Longrightarrow>
         length (ac_positions (tc_accounts c' ! k)) = length (ac_positions (tc_accounts c ! k))"
      "\<And>k. k < length (tc_accounts c) \<Longrightarrow> cache_ok (ac_cache (tc_accounts c' ! k))"
  shows "shape c'"
proof -
  have "length (ac_positions a) = length (tc_instruments c) \<and> cache_ok (ac_cache a)"
    if a: "a \<in> set (tc_accounts c')" for a
  proof -
    obtain k where "k < length (tc_accounts c)" "a = tc_accounts c' ! k"
      using a same(4) by (metis in_set_conv_nth)
    then show ?thesis using accounts(2,3) shapeD(1) [OF c] by metis
  qed
  moreover have "i < length (tc_accounts c') \<and> ac_id (tc_accounts c' ! i) = a"
    if "tc_account_index c' a = Some i" for a i
    using that shape_account(1,2) [OF c, of a i] accounts(1) same by simp
  ultimately show ?thesis using c unfolding shape_def same by blast
qed

lemma shape_set_pos: "shape c \<Longrightarrow> shape (set_pos ai ii ip c)"
  by (rule shape_accounts [of c]) (simp_all add: shapeD)

section \<open>Positions under changes of the resting orders\<close>

text \<open>A part of a resting order leaves: \<open>l\<close> lots of it are released.\<close>

definition shrinks :: "new_order \<Rightarrow> nat \<Rightarrow> new_order option \<Rightarrow> bool" where
  "shrinks d l v \<longleftrightarrow> l \<le> open_lots d \<and>
     (case v of None \<Rightarrow> l = open_lots d
      | Some e \<Rightarrow> o_id e = o_id d \<and> o_account e = o_account d \<and> o_client e = o_client d \<and>
          o_side e = o_side d \<and> o_price e = o_price d \<and> o_priority e = o_priority d \<and>
          o_filled e < o_total e \<and> o_total e \<le> o_total d \<and> open_lots e + l = open_lots d)"

definition order_value :: "new_order \<Rightarrow> nat \<Rightarrow> nat" where
  "order_value d l = l * unsigned_abs (o_price d)"

lemma msum_shrink:
  assumes fin: "finite (dom L)" and d: "L oid = Some d" and v: "shrinks d l v"
  shows "msum (lots_at a sd) L =
      msum (lots_at a sd) (L(oid := v)) + (if o_account d = a \<and> o_side d = sd then l else 0)"
    "msum (value_at a sd) L =
      msum (value_at a sd) (L(oid := v)) + (if o_account d = a \<and> o_side d = sd then order_value d l else 0)"
proof -
  have mul: "open_lots d * u = open_lots e * u + l * u" if "open_lots e + l = open_lots d" for e :: new_order and u
    using that [symmetric] by (simp add: add_mult_distrib)
  have "lots_at a sd d = at_key (lots_at a sd) v + (if o_account d = a \<and> o_side d = sd then l else 0)"
    using v by (cases v) (auto simp: shrinks_def lots_at_def)
  then show "msum (lots_at a sd) L =
      msum (lots_at a sd) (L(oid := v)) + (if o_account d = a \<and> o_side d = sd then l else 0)"
    using msum_upd [OF fin, of "lots_at a sd" oid v] d by simp
  have "value_at a sd d = at_key (value_at a sd) v + (if o_account d = a \<and> o_side d = sd then order_value d l else 0)"
    using v mul by (cases v) (auto simp: shrinks_def value_at_def order_value_def)
  then show "msum (value_at a sd) L =
      msum (value_at a sd) (L(oid := v)) + (if o_account d = a \<and> o_side d = sd then order_value d l else 0)"
    using msum_upd [OF fin, of "value_at a sd" oid v] d by simp
qed

lemma exposed_release_pos:
  "l \<le> ip_open_lots ip sd \<Longrightarrow>
   exposed s (release_pos sd l v ip) = (if s = sd then exposed s ip - int l else exposed s ip)"
  by (simp add: exposed_def of_nat_diff)

lemma exposed_reserve_pos:
  "exposed s (reserve_pos sd l v ip) = (if s = sd then exposed s ip + int l else exposed s ip)"
  by (simp add: exposed_def)

lemma pos_ok_release:
  assumes ok: "pos_ok R L (o_account d) ip" and fin: "finite (dom L)" and d: "L oid = Some d"
    and v: "shrinks d l v"
  shows "l \<le> ip_open_lots ip (o_side d)" "order_value d l \<le> ip_open_notional ip (o_side d)"
    "pos_ok R (L(oid := v)) (o_account d) (release_pos (o_side d) l (order_value d l) ip)"
proof -
  note lots = msum_shrink(1) [OF fin d v] and val = msum_shrink(2) [OF fin d v]
  show le: "l \<le> ip_open_lots ip (o_side d)" "order_value d l \<le> ip_open_notional ip (o_side d)"
    using pos_okD(1,2) [OF ok, of "o_side d"] lots [of "o_account d" "o_side d"]
      val [of "o_account d" "o_side d"] by simp_all
  show "pos_ok R (L(oid := v)) (o_account d) (release_pos (o_side d) l (order_value d l) ip)"
    (is "pos_ok R _ _ ?ip")
  proof (rule pos_okI)
    fix sd
    note o = pos_okD [OF ok, of sd]
    show "ip_open_lots ?ip sd = msum (lots_at (o_account d) sd) (L(oid := v))"
      using o(1) lots [of "o_account d" sd] by auto
    show "ip_open_notional ?ip sd = msum (value_at (o_account d) sd) (L(oid := v))"
      using o(2) val [of "o_account d" sd] by auto
    show "ip_open_lots ?ip sd < 2 ^ 63" "ip_open_notional ?ip sd < 2 ^ 128" "exposed sd ?ip \<le> R (o_account d) sd"
      using o(3-5) le(1) by (auto simp: exposed_release_pos)
  qed
qed

lemma pos_ok_reserve:
  assumes ok: "pos_ok R L (o_account d) ip" and fin: "finite (dom L)" and new: "L oid = None"
    and lots: "ip_open_lots ip (o_side d) + open_lots d < 2 ^ 63"
    and val: "ip_open_notional ip (o_side d) + order_value d (open_lots d) < 2 ^ 128"
    and cap: "exposed (o_side d) ip + int (open_lots d) \<le> R (o_account d) (o_side d)"
  shows "pos_ok R (L(oid \<mapsto> d)) (o_account d)
    (reserve_pos (o_side d) (open_lots d) (order_value d (open_lots d)) ip)" (is "pos_ok R _ _ ?ip")
proof (rule pos_okI)
  fix sd
  note o = pos_okD [OF ok, of sd]
  show "ip_open_lots ?ip sd = msum (lots_at (o_account d) sd) (L(oid \<mapsto> d))"
    using o(1) msum_upd [OF fin, of "lots_at (o_account d) sd" oid "Some d"] new
    by (auto simp: lots_at_def)
  show "ip_open_notional ?ip sd = msum (value_at (o_account d) sd) (L(oid \<mapsto> d))"
    using o(2) msum_upd [OF fin, of "value_at (o_account d) sd" oid "Some d"] new
    by (auto simp: value_at_def order_value_def)
  show "ip_open_lots ?ip sd < 2 ^ 63" "ip_open_notional ?ip sd < 2 ^ 128" "exposed sd ?ip \<le> R (o_account d) sd"
    using o(3-5) lots val cap by (auto simp: exposed_reserve_pos)
qed

lemma pos_ok_other:
  assumes fin: "finite (dom L)" and old: "at_key (lots_at a Buy) (L oid) + at_key (lots_at a Sell) (L oid) = 0"
      "at_key (value_at a Buy) (L oid) + at_key (value_at a Sell) (L oid) = 0"
    and new: "at_key (lots_at a Buy) v + at_key (lots_at a Sell) v = 0"
      "at_key (value_at a Buy) v + at_key (value_at a Sell) v = 0"
    and ok: "pos_ok R L a ip"
  shows "pos_ok R (L(oid := v)) a ip"
proof (rule pos_okI)
  fix sd
  note o = pos_okD [OF ok, of sd]
  have "msum (lots_at a sd) (L(oid := v)) = msum (lots_at a sd) L"
    using msum_upd [OF fin, of "lots_at a sd" oid v] old(1) new(1) by (cases sd) simp_all
  then show "ip_open_lots ip sd = msum (lots_at a sd) (L(oid := v))" using o(1) by simp
  have "msum (value_at a sd) (L(oid := v)) = msum (value_at a sd) L"
    using msum_upd [OF fin, of "value_at a sd" oid v] old(2) new(2) by (cases sd) simp_all
  then show "ip_open_notional ip sd = msum (value_at a sd) (L(oid := v))" using o(2) by simp
  show "ip_open_lots ip sd < 2 ^ 63" "ip_open_notional ip sd < 2 ^ 128" "exposed sd ip \<le> R a sd"
    using o(3-5) by simp_all
qed

lemma pos_ok_stranger:
  assumes "finite (dom L)" "pos_ok R L a ip" "\<forall>d. L oid = Some d \<longrightarrow> o_account d \<noteq> a"
    "\<forall>d. v = Some d \<longrightarrow> o_account d \<noteq> a"
  shows "pos_ok R (L(oid := v)) a ip"
  by (rule pos_ok_other [OF assms(1) _ _ _ _ assms(2)])
    (use assms(3,4) in \<open>cases "L oid"; cases v; simp add: lots_at_def value_at_def\<close>)+

lemma pos_ok_fill:
  assumes ok: "pos_ok R L a ip" and le: "exposed sd ip + int q \<le> R a sd"
  shows "pos_ok R L a (fill_pos sd q ip)"
proof (rule pos_okI)
  fix s
  note o = pos_okD [OF ok, of s]
  show "exposed s (fill_pos sd q ip) \<le> R a s"
    using o(5) le by (auto simp: exposed_fill_pos)
qed (use pos_okD [OF ok] in simp_all)

end
