(* ===== verification/Ledger_Steps.thy ===== *)
theory Ledger_Steps
  imports Ledger
begin

text \<open>
  Steps of the ledger.  \<open>put ii oid v L\<close> changes one resting order; the lemmas say what the tables
  and the positions of the engine have to do for the ledger to follow, and that the code of
  \<open>release_reservation\<close>, \<open>reserve\<close>, \<open>settle_fill\<close> and \<open>settle_taker\<close> does exactly that, without
  panic and without an accounting fault.
\<close>

section \<open>Changing one resting order\<close>

definition put :: "nat \<Rightarrow> order_id \<Rightarrow> new_order option \<Rightarrow> resting \<Rightarrow> resting" where
  "put ii oid v L = L(ii := (L ii)(oid := v))"

lemma put_apply: "put ii oid v L i = (if i = ii then (L ii)(oid := v) else L i)"
  by (simp add: put_def)

lemma put_Some:
  "put ii oid v L i k = Some d \<longleftrightarrow>
     i = ii \<and> k = oid \<and> v = Some d \<or> (i \<noteq> ii \<or> k \<noteq> oid) \<and> L i k = Some d"
  by (auto simp: put_def)

lemma orders_okD:
  assumes "orders_ok c L"
  shows "finite (dom (L i))" "L i oid = Some d \<Longrightarrow> order_ok c i oid d"
  using assms unfolding orders_ok_def by blast+

lemma resting_unique:
  assumes "orders_ok c L" "live_ok c L" "L i oid = Some d" "L j oid = Some e"
  shows "i = j" "d = e"
proof -
  obtain x y where "tc_account_index c (o_account d) = Some x" "tc_account_index c (o_account e) = Some y"
    using orders_okD(2) [OF assms(1,3)] orders_okD(2) [OF assms(1,4)] by (auto simp: order_ok_def)
  then have "tc_live_orders c oid = Some \<lparr>lo_account_index = x, lo_instrument_index = i\<rparr>"
    "tc_live_orders c oid = Some \<lparr>lo_account_index = y, lo_instrument_index = j\<rparr>"
    using assms(2-4) unfolding live_ok_def by fastforce+
  then show "i = j" by simp
  with assms(3,4) show "d = e" by simp
qed

lemma liveD:
  "live_ok c L \<Longrightarrow> tc_live_orders c oid = Some lo \<longleftrightarrow>
     (\<exists>d. L (lo_instrument_index lo) oid = Some d \<and>
        tc_account_index c (o_account d) = Some (lo_account_index lo))"
  by (simp add: live_ok_def)

lemma clientD:
  "clients_ok c L \<Longrightarrow> tc_client_orders c (a, cid) = Some oid \<longleftrightarrow>
     (\<exists>i d. L i oid = Some d \<and> o_account d = a \<and> o_client d = cid)"
  by (simp add: clients_ok_def)

lemma client_unique:
  assumes "clients_ok c L" "L i k = Some d" "L j m = Some e" "o_account d = o_account e" "o_client d = o_client e"
  shows "k = m"
proof -
  have "tc_client_orders c (o_account d, o_client d) = Some k"
    using assms(2) clientD [OF assms(1)] by blast
  moreover have "tc_client_orders c (o_account d, o_client d) = Some m"
    unfolding clientD [OF assms(1)] using assms(3-5) by metis
  ultimately show ?thesis by simp
qed

subsection \<open>The tables\<close>

lemma live_ok_drop:
  assumes "orders_ok c L" "live_ok c L" "L ii oid = Some d"
    "tc_live_orders c' = (tc_live_orders c)(oid := None)" "tc_account_index c' = tc_account_index c"
  shows "live_ok c' (put ii oid None L)"
  using assms(2) resting_unique(1) [OF assms(1-3)] unfolding live_ok_def
  by (auto simp: assms(4,5) put_Some)

lemma live_ok_keep:
  assumes ok: "live_ok c L" and d: "L ii oid = Some d" "o_account e = o_account d"
    and c': "tc_live_orders c' = tc_live_orders c" "tc_account_index c' = tc_account_index c"
  shows "live_ok c' (put ii oid (Some e) L)"
  unfolding live_ok_def c' liveD [OF ok]
proof (intro allI)
  fix k lo
  show "(\<exists>d. L (lo_instrument_index lo) k = Some d \<and>
        tc_account_index c (o_account d) = Some (lo_account_index lo)) =
      (\<exists>d. put ii oid (Some e) L (lo_instrument_index lo) k = Some d \<and>
        tc_account_index c (o_account d) = Some (lo_account_index lo))"
    using d by (cases "lo_instrument_index lo = ii \<and> k = oid") (auto simp: put_Some)
qed

lemma live_ok_add:
  assumes "live_ok c L" "\<And>i. L i oid = None" "tc_account_index c (o_account e) = Some ai"
    "tc_live_orders c' = (tc_live_orders c)(oid \<mapsto> \<lparr>lo_account_index = ai, lo_instrument_index = ii\<rparr>)"
    "tc_account_index c' = tc_account_index c"
  shows "live_ok c' (put ii oid (Some e) L)"
  unfolding live_ok_def
proof (intro allI)
  fix k lo
  show "(tc_live_orders c' k = Some lo) =
      (\<exists>d. put ii oid (Some e) L (lo_instrument_index lo) k = Some d \<and>
        tc_account_index c' (o_account d) = Some (lo_account_index lo))"
  proof (cases "k = oid")
    case True
    then show ?thesis using assms(2,3) by (cases lo) (auto simp: assms(4,5) put_Some)
  next
    case False
    then show ?thesis using assms(1) unfolding live_ok_def by (simp add: assms(4,5) put_Some)
  qed
qed

lemma clients_ok_drop:
  assumes "orders_ok c L" "live_ok c L" "clients_ok c L" "L ii oid = Some d"
    "tc_client_orders c' = (tc_client_orders c)((o_account d, o_client d) := None)"
  shows "clients_ok c' (put ii oid None L)"
  unfolding clients_ok_def
proof (intro allI)
  fix a cid k
  show "(tc_client_orders c' (a, cid) = Some k) =
      (\<exists>i e. put ii oid None L i k = Some e \<and> o_account e = a \<and> o_client e = cid)"
  proof (cases "(a, cid) = (o_account d, o_client d)")
    case True
    have "i = ii \<and> k = oid" if x: "L i k = Some e" "o_account e = a" "o_client e = cid" for i e
    proof -
      have "oid = k" by (rule client_unique [OF assms(3,4) x(1)]) (use True x in simp_all)
      then show ?thesis using resting_unique(1) [OF assms(1,2,4), of i e] x(1) by blast
    qed
    then have "\<not> (\<exists>i e. put ii oid None L i k = Some e \<and> o_account e = a \<and> o_client e = cid)"
      unfolding put_Some by blast
    then show ?thesis using True by (simp add: assms(5))
  next
    case False
    have "put ii oid None L i k = Some e \<longleftrightarrow> L i k = Some e" if "o_account e = a" "o_client e = cid" for i e
      unfolding put_Some using that False assms(4) by fastforce
    moreover have "tc_client_orders c' (a, cid) = tc_client_orders c (a, cid)"
      using False by (auto simp: assms(5))
    ultimately show ?thesis using clientD [OF assms(3), of a cid k] by metis
  qed
qed

lemma clients_ok_keep:
  assumes ok: "clients_ok c L" and d: "L ii oid = Some d" "o_account e = o_account d" "o_client e = o_client d"
    and c': "tc_client_orders c' = tc_client_orders c"
  shows "clients_ok c' (put ii oid (Some e) L)"
  unfolding clients_ok_def c' clientD [OF ok]
proof (intro allI)
  fix a cid k
  have "(\<exists>x. L i k = Some x \<and> o_account x = a \<and> o_client x = cid) =
      (\<exists>x. put ii oid (Some e) L i k = Some x \<and> o_account x = a \<and> o_client x = cid)" for i
    unfolding put_Some using d by (cases "i = ii \<and> k = oid") fastforce+
  then show "(\<exists>i x. L i k = Some x \<and> o_account x = a \<and> o_client x = cid) =
      (\<exists>i x. put ii oid (Some e) L i k = Some x \<and> o_account x = a \<and> o_client x = cid)"
    by blast
qed

lemma clients_ok_add:
  assumes ok: "clients_ok c L" and new: "\<And>i. L i oid = None"
    and none: "tc_client_orders c (o_account e, o_client e) = None"
    and c': "tc_client_orders c' = (tc_client_orders c)((o_account e, o_client e) \<mapsto> oid)"
  shows "clients_ok c' (put ii oid (Some e) L)"
  unfolding clients_ok_def
proof (intro allI)
  fix a cid k
  show "(tc_client_orders c' (a, cid) = Some k) =
      (\<exists>i x. put ii oid (Some e) L i k = Some x \<and> o_account x = a \<and> o_client x = cid)"
  proof (cases "(a, cid) = (o_account e, o_client e)")
    case True
    have "L i k \<noteq> Some x" if "o_account x = a" "o_client x = cid" for i x
      using clientD [OF ok, of a cid k] none that True by fastforce
    moreover have "tc_client_orders c' (a, cid) = Some k \<longleftrightarrow> k = oid" using True by (auto simp: c')
    moreover have "o_account e = a" "o_client e = cid" using True by simp_all
    ultimately show ?thesis unfolding put_Some by blast
  next
    case False
    have "put ii oid (Some e) L i k = Some x \<longleftrightarrow> L i k = Some x" if "o_account x = a" "o_client x = cid" for i x
      unfolding put_Some using that False new by fastforce
    moreover have "tc_client_orders c' (a, cid) = tc_client_orders c (a, cid)"
      using False by (auto simp: c')
    ultimately show ?thesis using clientD [OF ok, of a cid k] by metis
  qed
qed

lemma orders_ok_put:
  assumes ok: "orders_ok c L"
    and c': "length (tc_instruments c') = length (tc_instruments c)" "tc_account_index c' = tc_account_index c"
      "tc_next_order_id c \<le> tc_next_order_id c'" "tc_next_priority c \<le> tc_next_priority c'"
    and v: "\<And>e. v = Some e \<Longrightarrow> order_ok c' ii oid e"
  shows "orders_ok c' (put ii oid v L)"
proof -
  have "order_ok c' i k e" if "L i k = Some e" for i k e
    using orders_okD(2) [OF ok that] c' by (auto simp: order_ok_def)
  moreover have "finite (dom (put ii oid v L i))" for i
    using orders_okD(1) [OF ok] by (simp add: put_apply)
  ultimately show ?thesis using v unfolding orders_ok_def put_Some by blast
qed

lemma order_ok_shrinks:
  assumes "order_ok c i oid d" "shrinks d l (Some e)"
  shows "order_ok c i oid e"
  using assms by (auto simp: order_ok_def shrinks_def)

subsection \<open>The positions\<close>

lemma net_set_pos:
  assumes "in_range ai ii c"
  shows "net_position (set_pos ai ii ip c) j =
    net_position c j + (if j = ii then ip_position_lots ip - ip_position_lots (pos_at c ai ii) else 0)"
proof -
  let ?n = "length (tc_accounts c)" and ?p = "\<lambda>c k. ip_position_lots (pos_at c k j)"
  have ai: "ai \<in> {..<?n}" using assms by (simp add: in_range_def)
  have "(\<Sum>k \<in> {..<?n} - {ai}. ?p (set_pos ai ii ip c) k) = (\<Sum>k \<in> {..<?n} - {ai}. ?p c k)"
    by (rule sum.cong) (auto simp: pos_at_set_pos [OF assms])
  then show ?thesis
    using sum.remove [OF _ ai, of "?p (set_pos ai ii ip c)"] sum.remove [OF _ ai, of "?p c"] ai
    by (simp add: net_position_def pos_at_set_pos [OF assms])
qed

text \<open>One account's position in one instrument moves with one resting order of that account.\<close>

lemma positions_ok_put:
  assumes shape: "shape c" and orders: "orders_ok c L" and ok: "positions_ok R c L"
    and ai: "tc_account_index c a = Some ai" and ii: "ii < length (tc_instruments c)"
    and old: "\<forall>d. L ii oid = Some d \<longrightarrow> o_account d = a" and new: "\<forall>d. v = Some d \<longrightarrow> o_account d = a"
    and ip: "pos_ok R ((L ii)(oid := v)) a ip"
  shows "positions_ok R (set_pos ai ii ip c) (put ii oid v L)"
  unfolding positions_ok_def
proof (intro allI impI)
  fix b k j
  assume "tc_account_index (set_pos ai ii ip c) b = Some k" "j < length (tc_instruments (set_pos ai ii ip c))"
  then have k: "tc_account_index c b = Some k" and j: "j < length (tc_instruments c)" by simp_all
  note rng = shape_account(3) [OF shape ai ii] and kn = shape_account(1) [OF shape k]
  have b: "pos_ok R (L j) b (pos_at c k j)" using ok k j unfolding positions_ok_def by blast
  show "pos_ok R (put ii oid v L j) b (pos_at (set_pos ai ii ip c) k j)"
  proof (cases "j = ii \<and> k \<noteq> ai")
    case True
    then have "b \<noteq> a" using ai k by auto
    then have "pos_ok R ((L ii)(oid := v)) b (pos_at c k ii)"
      using pos_ok_stranger [OF orders_okD(1) [OF orders, of ii], of R b "pos_at c k ii" oid v] b True old new
      by auto
    then show ?thesis using True by (simp add: put_apply pos_at_set_pos [OF rng kn])
  next
    case False
    then show ?thesis
      using b ip account_index_inj [OF shape ai, of b] k
      by (auto simp: put_apply pos_at_set_pos [OF rng kn])
  qed
qed

lemma positions_ok_set:
  assumes shape: "shape c" and ok: "positions_ok R c L" and ai: "tc_account_index c a = Some ai"
    and ii: "ii < length (tc_instruments c)" and ip: "pos_ok R (L ii) a ip"
  shows "positions_ok R (set_pos ai ii ip c) L"
  unfolding positions_ok_def
proof (intro allI impI)
  fix b k j
  assume "tc_account_index (set_pos ai ii ip c) b = Some k" "j < length (tc_instruments (set_pos ai ii ip c))"
  then have k: "tc_account_index c b = Some k" and j: "j < length (tc_instruments c)" by simp_all
  note rng = shape_account(3) [OF shape ai ii] and kn = shape_account(1) [OF shape k]
  have "pos_ok R (L j) b (pos_at c k j)" using ok k j unfolding positions_ok_def by blast
  then show "pos_ok R (L j) b (pos_at (set_pos ai ii ip c) k j)"
    using ip account_index_inj [OF shape ai, of b] k by (auto simp: pos_at_set_pos [OF rng kn])
qed

section \<open>Changes the ledger does not see\<close>

text \<open>Reports, metrics, trade ids and the scratch list of fills: everything but the counters and the
  fault flag stays, and the fault flag may only report an exhausted sequence.\<close>

definition quiet :: "'s trading_core \<Rightarrow> 's trading_core \<Rightarrow> bool" where
  "quiet c c' \<longleftrightarrow>
     tc_config c' = tc_config c \<and> tc_instruments c' = tc_instruments c \<and>
     tc_instrument_index c' = tc_instrument_index c \<and> tc_accounts c' = tc_accounts c \<and>
     tc_account_index c' = tc_account_index c \<and> tc_live_orders c' = tc_live_orders c \<and>
     tc_client_orders c' = tc_client_orders c \<and> tc_global_kill c' = tc_global_kill c \<and>
     tc_engine_seq c' = tc_engine_seq c \<and> tc_next_order_id c' = tc_next_order_id c \<and>
     tc_next_priority c' = tc_next_priority c \<and> tc_engine_time_ns c' = tc_engine_time_ns c \<and>
     (tc_fault c' = tc_fault c \<or> tc_fault c' = Some SequenceExhausted)"

lemma quietD:
  assumes "quiet c c'"
  shows "tc_config c' = tc_config c" "tc_instruments c' = tc_instruments c"
    "tc_instrument_index c' = tc_instrument_index c" "tc_accounts c' = tc_accounts c"
    "tc_account_index c' = tc_account_index c" "tc_live_orders c' = tc_live_orders c"
    "tc_client_orders c' = tc_client_orders c" "tc_global_kill c' = tc_global_kill c"
    "tc_engine_seq c' = tc_engine_seq c" "tc_next_order_id c' = tc_next_order_id c"
    "tc_next_priority c' = tc_next_priority c" "tc_engine_time_ns c' = tc_engine_time_ns c"
    "tc_fault c' = tc_fault c \<or> tc_fault c' = Some SequenceExhausted"
  using assms by (simp_all add: quiet_def)

lemma quiet_refl [simp]: "quiet c c"
  by (simp add: quiet_def)

lemma quiet_trans [trans]: "quiet c c1 \<Longrightarrow> quiet c1 c2 \<Longrightarrow> quiet c c2"
  by (auto simp: quiet_def)

lemma quiet_fault: "quiet c c' \<Longrightarrow> tc_fault c' = None \<Longrightarrow> tc_fault c = None"
  using quietD(13) by fastforce

lemma quiet_take_output_seq: "quiet c (snd (take_output_seq c))"
  by (simp add: take_output_seq_def set_fault_def quiet_def split: option.split)

lemma quiet_simps [simp]:
  "quiet c (bump_metric upd c)" "quiet c (c\<lparr>tc_next_trade_id := t\<rparr>)" "quiet c (c\<lparr>tc_fills := fs\<rparr>)"
  "quiet c (set_fault SequenceExhausted c)"
  by (simp_all add: quiet_def bump_metric_def set_fault_def)

lemma quiet_base_report: "base_report rq oid c = (r, c') \<Longrightarrow> quiet c c'"
  using quiet_take_output_seq [of c] by (auto simp: base_report_def Let_def split: prod.splits)

lemma quiet_reject_report: "reject_report rq reason c = (r, c') \<Longrightarrow> quiet c c'"
  using quiet_base_report by (auto simp: reject_report_def split: prod.splits)

lemma quiet_terminal_report: "terminal_report rq oid kind filled c = (r, c') \<Longrightarrow> quiet c c'"
  using quiet_base_report by (auto simp: terminal_report_def split: prod.splits)

lemma quiet_cancelled_report: "cancelled_report rq oid tot filled c = (r, c') \<Longrightarrow> quiet c c'"
  using quiet_base_report by (auto simp: cancelled_report_def split: prod.splits)

lemma quiet_replace_cancelled_report: "replace_cancelled_report rq oid e c = (r, c') \<Longrightarrow> quiet c c'"
  using quiet_base_report by (auto simp: replace_cancelled_report_def split: prod.splits)

lemma quiet_push_state: "push_state event c out = (c', out') \<Longrightarrow> quiet c c'"
  using quiet_take_output_seq [of c] by (auto simp: push_state_def Let_def split: prod.splits)

lemma ledger_cong:
  assumes "length (tc_instruments c') = length (tc_instruments c)" "tc_accounts c' = tc_accounts c"
    "tc_account_index c' = tc_account_index c" "tc_live_orders c' = tc_live_orders c"
    "tc_client_orders c' = tc_client_orders c" "tc_next_order_id c' = tc_next_order_id c"
    "tc_next_priority c' = tc_next_priority c"
  shows "ledger R c' L = ledger R c L"
  unfolding ledger_def orders_ok_def order_ok_def live_ok_def clients_ok_def positions_ok_def
    net_position_def pos_at_def assms ..

lemma quiet_ledger: "quiet c c' \<Longrightarrow> ledger R c' L = ledger R c L"
  by (rule ledger_cong) (simp_all add: quietD)

lemma quiet_shape: "quiet c c' \<Longrightarrow> shape c' = shape c"
  by (simp add: shape_def quietD)

lemma quiet_pos_at: "quiet c c' \<Longrightarrow> pos_at c' ai ii = pos_at c ai ii"
  by (simp add: pos_at_def quietD)

section \<open>Releasing, reserving and settling\<close>

lemma checked_notional_ok:
  "l < 2 ^ 64 \<Longrightarrow> in_signed 64 p \<Longrightarrow> checked_notional l p = Some (l * unsigned_abs p)"
proof -
  assume "l < 2 ^ 64" "in_signed 64 p"
  then have "l \<le> 2 ^ 64 - 1" "unsigned_abs p \<le> 2 ^ 63" by (auto simp: in_signed_def unsigned_abs_def)
  then have "l * unsigned_abs p \<le> (2 ^ 64 - 1) * 2 ^ 63" by (rule mult_le_mono)
  then have "l * unsigned_abs p < 2 ^ 128" by simp
  then show ?thesis by (simp add: checked_notional_def del: checked_mul_Some) (simp add: checked_mul_def)
qed

lemma release_reservation_ok:
  assumes "in_range ai ii c" "l < 2 ^ 64" "in_signed 64 p"
    "l \<le> ip_open_lots (pos_at c ai ii) sd" "l * unsigned_abs p \<le> ip_open_notional (pos_at c ai ii) sd"
  shows "release_reservation ai ii sd l p c =
    Some (set_pos ai ii (release_pos sd l (l * unsigned_abs p) (pos_at c ai ii)) c)"
proof (cases "l = 0")
  case True
  then show ?thesis using set_pos_same [OF assms(1)] by (simp add: release_reservation_def)
next
  case False
  then show ?thesis
    using checked_notional_ok [OF assms(2,3)]
      ip_release_ok [OF assms(4,5)]
    by (simp add: release_reservation_def update_position_eq [OF assms(1)])
qed

lemma core_reserve_ok:
  assumes "in_range ai ii c" "l < 2 ^ 64" "in_signed 64 p"
    "ip_open_lots (pos_at c ai ii) sd + l < 2 ^ 64"
    "ip_open_notional (pos_at c ai ii) sd + l * unsigned_abs p < 2 ^ 128"
  shows "core_reserve ai ii sd l p c =
    Some (set_pos ai ii (reserve_pos sd l (l * unsigned_abs p) (pos_at c ai ii)) c)"
  using checked_notional_ok [OF assms(2,3)]
    ip_reserve_ok [OF assms(4,5)]
  by (simp add: core_reserve_def update_position_eq [OF assms(1)])

lemma settle_taker_ok:
  assumes "in_range ai ii c" "q < 2 ^ 63" "in_signed 64 (ip_position_lots (pos_at c ai ii) + directed sd (int q))"
  shows "settle_taker ai ii sd q c = Some (set_pos ai ii (fill_pos sd q (pos_at c ai ii)) c)"
  using apply_fill_to_position_ok [OF assms(2,3)]
  by (simp add: settle_taker_def update_position_eq [OF assms(1)])

lemma ledgerD:
  assumes "ledger R c L"
  shows "orders_ok c L" "live_ok c L" "clients_ok c L" "positions_ok R c L"
    "ii < length (tc_instruments c) \<Longrightarrow> net_position c ii = 0" "R a sd \<le> room sd"
  using assms unfolding ledger_def by blast+

lemma ledger_pos:
  assumes "ledger R c L" "tc_account_index c a = Some ai" "ii < length (tc_instruments c)"
  shows "pos_ok R (L ii) a (pos_at c ai ii)"
  using ledgerD(4) [OF assms(1)] assms(2,3) unfolding positions_ok_def by blast

lemma ledger_order:
  assumes "ledger R c L" "L ii oid = Some d"
  shows "ii < length (tc_instruments c)" "o_id d = oid" "o_filled d < o_total d" "o_total d < 2 ^ 64"
    "in_signed 64 (o_price d)" "open_lots d < 2 ^ 64" "finite (dom (L ii))"
    "oid \<le> tc_next_order_id c" "o_priority d \<le> tc_next_priority c" "0 < open_lots d"
    "tc_client_orders c (o_account d, o_client d) = Some oid"
proof -
  note ok = orders_okD(2) [OF ledgerD(1) [OF assms(1)] assms(2)]
  then show "ii < length (tc_instruments c)" "o_id d = oid" "o_filled d < o_total d" "o_total d < 2 ^ 64"
    "in_signed 64 (o_price d)" "oid \<le> tc_next_order_id c" "o_priority d \<le> tc_next_priority c"
    by (simp_all add: order_ok_def)
  then show "open_lots d < 2 ^ 64" "0 < open_lots d" by (simp_all add: open_lots_def)
  show "finite (dom (L ii))" by (rule orders_okD(1) [OF ledgerD(1) [OF assms(1)]])
  show "tc_client_orders c (o_account d, o_client d) = Some oid"
    unfolding clientD [OF ledgerD(3) [OF assms(1)]] using assms(2) by blast
qed

lemma ledger_account:
  assumes "ledger R c L" "L ii oid = Some d"
  obtains ai where "tc_account_index c (o_account d) = Some ai"
  using orders_okD(2) [OF ledgerD(1) [OF assms(1)] assms(2)] by (auto simp: order_ok_def)

text \<open>Releasing a resting order, or a part of it.\<close>

definition settle_tables :: "order_id \<Rightarrow> new_order \<Rightarrow> new_order option \<Rightarrow> 's trading_core \<Rightarrow> 's trading_core" where
  "settle_tables oid d v c =
     (if v = None then drop_order_entry oid (o_account d, o_client d) c else c)"

lemma settle_tables_fields [simp]:
  "tc_instruments (settle_tables oid d v c) = tc_instruments c"
  "tc_accounts (settle_tables oid d v c) = tc_accounts c"
  "tc_account_index (settle_tables oid d v c) = tc_account_index c"
  "tc_next_order_id (settle_tables oid d v c) = tc_next_order_id c"
  "tc_next_priority (settle_tables oid d v c) = tc_next_priority c"
  by (simp_all add: settle_tables_def drop_order_entry_def)

lemma positions_ok_cong:
  "tc_accounts c' = tc_accounts c \<Longrightarrow> tc_account_index c' = tc_account_index c \<Longrightarrow>
   tc_instruments c' = tc_instruments c \<Longrightarrow> positions_ok R c' L = positions_ok R c L"
  by (simp add: positions_ok_def pos_at_def)

lemma net_position_cong: "tc_accounts c' = tc_accounts c \<Longrightarrow> net_position c' ii = net_position c ii"
  by (simp add: net_position_def pos_at_def)

lemma ledger_shrink:
  assumes L: "ledger R c L" and d: "L ii oid = Some d" and v: "shrinks d l v"
    and c1: "positions_ok R c1 (put ii oid v L)"
      "\<And>j. j < length (tc_instruments c) \<Longrightarrow> net_position c1 j = 0"
      "tc_instruments c1 = tc_instruments c" "tc_account_index c1 = tc_account_index c"
      "tc_live_orders c1 = tc_live_orders c" "tc_client_orders c1 = tc_client_orders c"
      "tc_next_order_id c1 = tc_next_order_id c" "tc_next_priority c1 = tc_next_priority c"
  shows "ledger R (settle_tables oid d v c1) (put ii oid v L)"
proof -
  let ?c = "settle_tables oid d v c1"
  have "orders_ok ?c (put ii oid v L)"
    by (rule orders_ok_put [OF ledgerD(1) [OF L]])
      (use orders_okD(2) [OF ledgerD(1) [OF L] d] v c1 order_ok_shrinks [of c ii oid d l]
       in \<open>auto simp: order_ok_def\<close>)
  moreover have "live_ok ?c (put ii oid v L) \<and> clients_ok ?c (put ii oid v L)"
  proof (cases v)
    case None
    show ?thesis unfolding None
      by (intro conjI live_ok_drop [OF ledgerD(1,2) [OF L] d] clients_ok_drop [OF ledgerD(1-3) [OF L] d])
        (simp_all add: None settle_tables_def drop_order_entry_def c1)
  next
    case (Some e)
    then have "o_account e = o_account d" "o_client e = o_client d" using v by (simp_all add: shrinks_def)
    then show ?thesis unfolding Some
      by (intro conjI live_ok_keep [OF ledgerD(2) [OF L] d] clients_ok_keep [OF ledgerD(3) [OF L] d])
        (simp_all add: settle_tables_def c1)
  qed
  moreover have "positions_ok R ?c (put ii oid v L)"
    using c1(1) positions_ok_cong [of ?c c1 R "put ii oid v L"] by simp
  moreover have "net_position ?c j = 0" if "j < length (tc_instruments ?c)" for j
    using c1(2,3) that net_position_cong [of ?c c1 j] by simp
  ultimately show ?thesis using ledgerD(6) [OF L] unfolding ledger_def by blast
qed

lemma ledger_release:
  assumes c: "shape c" and L: "ledger R c L" and d: "L ii oid = Some d" and v: "shrinks d l v"
    and ai: "tc_account_index c (o_account d) = Some ai"
    and c1: "c1 = set_pos ai ii (release_pos (o_side d) l (order_value d l) (pos_at c ai ii)) c"
  shows "release_reservation ai ii (o_side d) l (o_price d) c = Some c1" "shape c1"
    "ledger R (settle_tables oid d v c1) (put ii oid v L)"
proof -
  note od = ledger_order [OF L d]
  note rng = shape_account(3) [OF c ai od(1)]
  note rel = pos_ok_release [OF ledger_pos [OF L ai od(1)] od(7) d v]
  have l: "l < 2 ^ 64" using v od(6) by (simp add: shrinks_def)
  show "release_reservation ai ii (o_side d) l (o_price d) c = Some c1"
    unfolding c1 order_value_def
    by (rule release_reservation_ok [OF rng l od(5)]) (use rel(1,2) in \<open>simp_all add: order_value_def\<close>)
  show "shape c1" unfolding c1 by (rule shape_set_pos [OF c])
  show "ledger R (settle_tables oid d v c1) (put ii oid v L)"
  proof (rule ledger_shrink [OF L d v])
    show "positions_ok R c1 (put ii oid v L)"
      unfolding c1
      by (rule positions_ok_put [OF c ledgerD(1) [OF L] ledgerD(4) [OF L] ai od(1) _ _ rel(3)])
        (use d v in \<open>auto simp: shrinks_def\<close>)
    show "net_position c1 j = 0" if "j < length (tc_instruments c)" for j
      using ledgerD(5) [OF L that] by (simp add: c1 net_set_pos [OF rng])
  qed (simp_all add: c1)
qed

text \<open>What an account may still add on a side: \<open>lots\<close> more lots at a value of \<open>v\<close>.\<close>

definition headroom ::
  "caps \<Rightarrow> 's trading_core \<Rightarrow> account_id \<Rightarrow> nat \<Rightarrow> nat \<Rightarrow> side \<Rightarrow> nat \<Rightarrow> nat \<Rightarrow> bool" where
  "headroom R c a ai ii sd lots v \<longleftrightarrow>
     exposed sd (pos_at c ai ii) + int lots \<le> R a sd \<and>
     ip_open_lots (pos_at c ai ii) sd + lots < 2 ^ 63 \<and>
     ip_open_notional (pos_at c ai ii) sd + v < 2 ^ 128"

lemma headroom_mono: "headroom R c a ai ii sd l v \<Longrightarrow> l' \<le> l \<Longrightarrow> v' \<le> v \<Longrightarrow> headroom R c a ai ii sd l' v'"
  by (auto simp: headroom_def)

definition add_tables :: "nat \<Rightarrow> nat \<Rightarrow> new_order \<Rightarrow> 's trading_core \<Rightarrow> 's trading_core" where
  "add_tables ai ii d c =
     c\<lparr>tc_live_orders := (tc_live_orders c)(o_id d \<mapsto> \<lparr>lo_account_index = ai, lo_instrument_index = ii\<rparr>),
       tc_client_orders := (tc_client_orders c)((o_account d, o_client d) \<mapsto> o_id d)\<rparr>"

lemma ledger_reserve:
  assumes c: "shape c" and L: "ledger R c L" and new: "\<And>i. L i (o_id d) = None"
    and client: "tc_client_orders c (o_account d, o_client d) = None"
    and ai: "tc_account_index c (o_account d) = Some ai" and d: "order_ok c ii (o_id d) d"
    and head: "headroom R c (o_account d) ai ii (o_side d) (open_lots d) (order_value d (open_lots d))"
    and c1: "c1 = set_pos ai ii (reserve_pos (o_side d) (open_lots d) (order_value d (open_lots d)) (pos_at c ai ii)) c"
  shows "core_reserve ai ii (o_side d) (open_lots d) (o_price d) c = Some c1" "shape c1"
    "ledger R (add_tables ai ii d c1) (put ii (o_id d) (Some d) L)"
proof -
  have od: "ii < length (tc_instruments c)" "open_lots d < 2 ^ 64" "in_signed 64 (o_price d)"
    using d by (auto simp: order_ok_def open_lots_def)
  note rng = shape_account(3) [OF c ai od(1)] and fin = orders_okD(1) [OF ledgerD(1) [OF L]]
  note h = head [unfolded headroom_def, THEN conjunct1] head [unfolded headroom_def, THEN conjunct2, THEN conjunct1]
    head [unfolded headroom_def, THEN conjunct2, THEN conjunct2]
  show "core_reserve ai ii (o_side d) (open_lots d) (o_price d) c = Some c1"
    unfolding c1 order_value_def
    by (rule core_reserve_ok [OF rng od(2,3)]) (use h(2,3) in \<open>simp_all add: order_value_def\<close>)
  show "shape c1" unfolding c1 by (rule shape_set_pos [OF c])
  let ?c = "add_tables ai ii d c1" and ?L = "put ii (o_id d) (Some d) L"
  have same: "tc_account_index c1 = tc_account_index c" "tc_instruments c1 = tc_instruments c"
    "tc_live_orders c1 = tc_live_orders c" "tc_client_orders c1 = tc_client_orders c"
    "tc_next_order_id c1 = tc_next_order_id c" "tc_next_priority c1 = tc_next_priority c"
    by (simp_all add: c1)
  have "positions_ok R c1 ?L"
    unfolding c1
    by (rule positions_ok_put [OF c ledgerD(1) [OF L] ledgerD(4) [OF L] ai od(1) _ _
          pos_ok_reserve [OF ledger_pos [OF L ai od(1)] fin new h(2,3,1)]])
      (use new in simp_all)
  then have "positions_ok R ?c ?L"
    using positions_ok_cong [of ?c c1 R ?L] by (simp add: add_tables_def)
  moreover have "orders_ok ?c ?L"
    by (rule orders_ok_put [OF ledgerD(1) [OF L]])
      (use d in \<open>simp_all add: add_tables_def same order_ok_def\<close>)
  moreover have "live_ok ?c ?L"
    by (rule live_ok_add [OF ledgerD(2) [OF L] new ai]) (simp_all add: add_tables_def same)
  moreover have "clients_ok ?c ?L"
    by (rule clients_ok_add [OF ledgerD(3) [OF L] new client]) (simp add: add_tables_def same)
  moreover have "net_position ?c j = 0" if "j < length (tc_instruments ?c)" for j
    using ledgerD(5) [OF L, of j] that net_position_cong [of ?c c1 j]
    by (simp add: add_tables_def c1 net_set_pos [OF rng])
  ultimately show "ledger R ?c ?L" using ledgerD(6) [OF L] unfolding ledger_def by blast
qed

text \<open>Settling one fill: the maker's reservation and position, then the taker's position.\<close>

definition maker_settled :: "nat \<Rightarrow> nat \<Rightarrow> new_order \<Rightarrow> nat \<Rightarrow> 's trading_core \<Rightarrow> 's trading_core" where
  "maker_settled mai ii d q c =
     set_pos mai ii (fill_pos (o_side d) q (release_pos (o_side d) q (order_value d q) (pos_at c mai ii))) c"

definition taker_settled :: "nat \<Rightarrow> nat \<Rightarrow> side \<Rightarrow> nat \<Rightarrow> 's trading_core \<Rightarrow> 's trading_core" where
  "taker_settled ai ii sd q c = set_pos ai ii (fill_pos sd q (pos_at c ai ii)) c"

lemma fill_signed:
  assumes "pos_ok R L a ip" "\<And>s. R a s \<le> room s" "exposed sd ip - int (ip_open_lots ip sd) + int q \<le> room sd"
  shows "in_signed 64 (ip_position_lots ip + directed sd (int q))"
  by (rule fill_in_range) (use pos_okD(5) [OF assms(1)] assms(2,3) order_trans in blast)+

lemma shrinks_filled:
  assumes "q \<le> open_lots d" "o_filled d < o_total d"
  shows "shrinks d q (if open_lots d - q = 0 then None else Some (d\<lparr>o_filled := o_filled d + q\<rparr>))"
  using assms by (auto simp: shrinks_def open_lots_def)

lemma maker_settled_ok:
  assumes c: "shape c" and L: "ledger R c L" and d: "L ii oid = Some d" and q: "q \<le> open_lots d"
    and mai: "tc_account_index c (o_account d) = Some mai"
    and v: "v = (if open_lots d - q = 0 then None else Some (d\<lparr>o_filled := o_filled d + q\<rparr>))"
  shows "settle_fill mai ii (fill_of (o_price d) d q) (opposite (o_side d)) c = Some (maker_settled mai ii d q c)"
    "pos_ok R ((L ii)(oid := v)) (o_account d) (pos_at (maker_settled mai ii d q c) mai ii)"
    "q < 2 ^ 63"
proof -
  note od = ledger_order [OF L d]
  note rng = shape_account(3) [OF c mai od(1)]
  let ?ip = "pos_at c mai ii" and ?s = "o_side d"
  let ?rel = "release_pos ?s q (order_value d q) ?ip"
  let ?c1 = "set_pos mai ii ?rel c"
  have sh: "shrinks d q v" unfolding v by (rule shrinks_filled [OF q od(3)])
  note ok = ledger_pos [OF L mai od(1)]
  note rel = pos_ok_release [OF ok od(7) d sh]
  have code: "release_reservation mai ii ?s q (o_price d) c = Some ?c1"
    by (rule ledger_release(1) [OF c L d sh mai refl])
  have at1: "pos_at ?c1 mai ii = ?rel"
    using pos_at_set_pos [OF rng, of mai] shape_account(1) [OF c mai] by simp
  show q63: "q < 2 ^ 63" using rel(1) pos_okD(3) [OF ok, of ?s] by linarith
  have le: "exposed ?s ?rel + int q \<le> R (o_account d) ?s"
    using pos_okD(5) [OF ok, of ?s] rel(1) by (simp add: exposed_release_pos)
  have sg: "in_signed 64 (ip_position_lots ?rel + directed ?s (int q))"
    by (rule fill_signed [OF rel(3) ledgerD(6) [OF L]])
      (use le ledgerD(6) [OF L, of "o_account d" ?s] in linarith)
  show "settle_fill mai ii (fill_of (o_price d) d q) (opposite ?s) c = Some (maker_settled mai ii d q c)"
    using code apply_fill_to_position_ok [OF q63 sg] rng
    by (simp add: settle_fill_def fill_of_def update_position_eq at1 maker_settled_def)
  show "pos_ok R ((L ii)(oid := v)) (o_account d) (pos_at (maker_settled mai ii d q c) mai ii)"
    using pos_ok_fill [OF rel(3) le] pos_at_set_pos [OF rng, of mai] shape_account(1) [OF c mai]
    by (simp add: maker_settled_def)
qed

lemma ledger_fill:
  assumes c: "shape c" and L: "ledger R c L" and d: "L ii oid = Some d" and q: "q \<le> open_lots d"
    and mai: "tc_account_index c (o_account d) = Some mai"
    and v: "v = (if open_lots d - q = 0 then None else Some (d\<lparr>o_filled := o_filled d + q\<rparr>))"
    and ai: "tc_account_index c a = Some ai" and sd: "o_side d = opposite sd"
    and le: "exposed sd (pos_at c ai ii) + int q \<le> R a sd"
    and c2: "c2 = maker_settled mai ii d q c" and c3: "c3 = taker_settled ai ii sd q c2"
  shows "settle_fill mai ii (fill_of (o_price d) d q) sd c = Some c2" "settle_taker ai ii sd q c2 = Some c3"
    "shape c3" "ledger R (settle_tables oid d v c3) (put ii oid v L)"
    "exposed sd (pos_at c3 ai ii) \<le> exposed sd (pos_at c ai ii) + int q"
    "ip_open_lots (pos_at c3 ai ii) sd = ip_open_lots (pos_at c ai ii) sd"
    "ip_open_notional (pos_at c3 ai ii) sd = ip_open_notional (pos_at c ai ii) sd"
proof -
  note od = ledger_order [OF L d]
  note mrng = shape_account(3) [OF c mai od(1)] and rng = shape_account(3) [OF c ai od(1)]
  note m = maker_settled_ok [OF c L d q mai v]
  have sh: "shrinks d q v" unfolding v by (rule shrinks_filled [OF q od(3)])
  show "settle_fill mai ii (fill_of (o_price d) d q) sd c = Some c2" using m(1) by (simp add: sd c2)
  have shape2: "shape c2" unfolding c2 maker_settled_def by (rule shape_set_pos [OF c])
  then show "shape c3" unfolding c3 taker_settled_def by (rule shape_set_pos)
  have same2: "tc_instruments c2 = tc_instruments c" "tc_account_index c2 = tc_account_index c"
    "in_range k j c2 = in_range k j c" "length (tc_accounts c2) = length (tc_accounts c)" for k j
    by (simp_all add: c2 maker_settled_def)
  let ?ip = "pos_at c2 ai ii"
  have q_le: "q \<le> ip_open_lots (pos_at c mai ii) (opposite sd)"
    using pos_ok_release(1) [OF ledger_pos [OF L mai od(1)] od(7) d sh] by (simp add: sd)
  have view: "exposed sd ?ip \<le> exposed sd (pos_at c ai ii)"
    "ip_open_lots ?ip sd = ip_open_lots (pos_at c ai ii) sd"
    "ip_open_notional ?ip sd = ip_open_notional (pos_at c ai ii) sd"
    using q_le shape_account(1) [OF c ai]
    by (auto simp: c2 maker_settled_def pos_at_set_pos [OF mrng] sd exposed_fill_pos exposed_release_pos)
  have pos2: "positions_ok R c2 (put ii oid v L)"
    unfolding c2 maker_settled_def
    by (rule positions_ok_put [OF c ledgerD(1) [OF L] ledgerD(4) [OF L] mai od(1)])
      (use d v m(2) pos_at_set_pos [OF mrng] shape_account(1) [OF c mai]
       in \<open>auto simp: maker_settled_def split: if_splits\<close>)
  then have ok2: "pos_ok R (put ii oid v L ii) a ?ip"
    using ai od(1) by (simp add: positions_ok_def same2)
  have sg: "in_signed 64 (ip_position_lots ?ip + directed sd (int q))"
    by (rule fill_signed [OF ok2 ledgerD(6) [OF L]])
      (use view(1) le ledgerD(6) [OF L, of a sd] in linarith)
  show "settle_taker ai ii sd q c2 = Some c3"
    unfolding c3 taker_settled_def by (rule settle_taker_ok [OF _ m(3) sg]) (simp add: same2 rng)
  have at3: "pos_at c3 ai ii = fill_pos sd q ?ip"
    using pos_at_set_pos [of ai ii c2 ai] rng shape_account(1) [OF c ai]
    by (simp add: c3 taker_settled_def same2)
  show "exposed sd (pos_at c3 ai ii) \<le> exposed sd (pos_at c ai ii) + int q"
    "ip_open_lots (pos_at c3 ai ii) sd = ip_open_lots (pos_at c ai ii) sd"
    "ip_open_notional (pos_at c3 ai ii) sd = ip_open_notional (pos_at c ai ii) sd"
    using view by (simp_all add: at3 exposed_fill_pos)
  have le2: "exposed sd ?ip + int q \<le> R a sd" using view(1) le by linarith
  have pos3: "positions_ok R c3 (put ii oid v L)"
    unfolding c3 taker_settled_def
    by (rule positions_ok_set [OF shape2 pos2 _ _ pos_ok_fill [OF ok2 le2]]) (simp_all add: same2 ai od(1))
  have "net_position c3 j = 0" if "j < length (tc_instruments c)" for j
    using ledgerD(5) [OF L that]
    by (simp add: c3 taker_settled_def net_set_pos same2 rng) (auto simp: c2 maker_settled_def net_set_pos [OF mrng] sd)
  then show "ledger R (settle_tables oid d v c3) (put ii oid v L)"
    by (intro ledger_shrink [OF L d sh pos3]) (simp_all add: c3 taker_settled_def c2 maker_settled_def)
qed

end
