(* ===== verification/Core_Execute.thy ===== *)
theory Core_Execute
  imports Ledger_Steps
begin

text \<open>
  Execution in the engine: the loop over the fills of one aggressing order (\<open>execute\<close> in
  \<open>trading-core/src/core.rs\<close>) moves the ledger fill by fill, never panics and raises no accounting
  fault; an exhausted trade counter stops it with the fault set and the ledger still balanced.
\<close>

section \<open>What execution leaves alone\<close>

definition framed :: "'s trading_core \<Rightarrow> 's trading_core \<Rightarrow> bool" where
  "framed c c' \<longleftrightarrow>
     tc_config c' = tc_config c \<and> tc_instruments c' = tc_instruments c \<and>
     tc_instrument_index c' = tc_instrument_index c \<and> tc_account_index c' = tc_account_index c \<and>
     tc_global_kill c' = tc_global_kill c \<and> tc_engine_seq c' = tc_engine_seq c \<and>
     tc_next_order_id c' = tc_next_order_id c \<and> tc_next_priority c' = tc_next_priority c \<and>
     tc_engine_time_ns c' = tc_engine_time_ns c \<and>
     map ac_id (tc_accounts c') = map ac_id (tc_accounts c) \<and>
     map ac_limits (tc_accounts c') = map ac_limits (tc_accounts c) \<and>
     map ac_cache (tc_accounts c') = map ac_cache (tc_accounts c) \<and>
     tc_client_orders c' \<subseteq>\<^sub>m tc_client_orders c \<and>
     (tc_fault c' = tc_fault c \<or> tc_fault c' = Some SequenceExhausted)"

lemma framedD:
  assumes "framed c c'"
  shows "tc_config c' = tc_config c" "tc_instruments c' = tc_instruments c"
    "tc_instrument_index c' = tc_instrument_index c" "tc_account_index c' = tc_account_index c"
    "tc_global_kill c' = tc_global_kill c" "tc_engine_seq c' = tc_engine_seq c"
    "tc_next_order_id c' = tc_next_order_id c" "tc_next_priority c' = tc_next_priority c"
    "tc_engine_time_ns c' = tc_engine_time_ns c" "map ac_id (tc_accounts c') = map ac_id (tc_accounts c)"
    "map ac_limits (tc_accounts c') = map ac_limits (tc_accounts c)"
    "map ac_cache (tc_accounts c') = map ac_cache (tc_accounts c)"
    "tc_client_orders c' \<subseteq>\<^sub>m tc_client_orders c"
    "tc_fault c' = tc_fault c \<or> tc_fault c' = Some SequenceExhausted"
  using assms by (simp_all add: framed_def)

lemma framed_refl [simp]: "framed c c"
  by (simp add: framed_def)

lemma framed_trans [trans]: "framed c c1 \<Longrightarrow> framed c1 c2 \<Longrightarrow> framed c c2"
  unfolding framed_def by (auto intro: map_le_trans)

lemma framed_fault: "framed c c' \<Longrightarrow> tc_fault c' = None \<Longrightarrow> tc_fault c = None"
  using framedD(14) by fastforce

lemma quiet_framed: "quiet c c' \<Longrightarrow> framed c c'"
  by (simp add: framed_def quiet_def)

lemma map_set_pos:
  assumes "\<And>a ps. f (a\<lparr>ac_positions := ps\<rparr>) = f a"
  shows "map f (tc_accounts (set_pos ai ii ip c)) = map f (tc_accounts c)"
  using assms by (cases "ai < length (tc_accounts c)")
    (simp_all add: set_pos_def map_update list_update_same_conv list_update_beyond)

lemma framed_set_pos: "framed c (set_pos ai ii ip c)"
  by (simp add: framed_def map_set_pos)

lemma framed_drop_live: "framed c (drop_live f c)"
  by (auto simp: framed_def drop_live_def map_le_def)

lemma quiet_drop_live: "quiet c c' \<Longrightarrow> quiet (drop_live f c) (drop_live f c')"
  by (simp add: quiet_def drop_live_def)

lemma drop_live_settles:
  "f = fill_of p d q \<Longrightarrow> v = (if open_lots d - q = 0 then None else Some (d\<lparr>o_filled := o_filled d + q\<rparr>)) \<Longrightarrow>
   drop_live f c = settle_tables (o_id d) d v c"
  by (simp add: drop_live_def maker_is_filled_def fill_of_def settle_tables_def drop_order_entry_def)

lemma apply_fill_put:
  "L ii (o_id d) = Some d \<Longrightarrow>
   L(ii := apply_fill (fill_of p d q) (L ii)) =
   put ii (o_id d) (if open_lots d - q = 0 then None else Some (d\<lparr>o_filled := o_filled d + q\<rparr>)) L"
  by (simp add: apply_fill_def fill_of_def put_def)

section \<open>The loop over the fills\<close>

text \<open>The state after one fill, up to the reports.\<close>

lemma execute_fills_Cons:
  assumes cum: "cum + f_qty f < 2 ^ 64" "cum + f_qty f \<le> quantity"
    and tid: "counter_next (tc_next_trade_id c) = Some tid"
    and c1: "c1 = bump_metric em_trades_update (c\<lparr>tc_next_trade_id := tid\<rparr>)"
    and code: "tc_account_index c1 (f_account f) = Some mai" "settle_fill mai ii f sd c1 = Some c2"
      "settle_taker ai ii sd (f_qty f) c2 = Some c3"
  obtains c8 reports where
    "execute_fills ii ai rq oid sd quantity inst (f # fs) cum c out =
       execute_fills ii ai rq oid sd quantity inst fs (cum + f_qty f) c8 (out @ reports)"
    "quiet (drop_live f c3) c8"
proof -
  obtain sq c4 where s4: "take_output_seq c3 = (sq, c4)" by (cases "take_output_seq c3")
  obtain sq' c5 where s5: "take_output_seq c4 = (sq', c5)" by (cases "take_output_seq c4")
  obtain base c7 where s7: "base_report rq oid (drop_live f c5) = (base, c7)"
    by (cases "base_report rq oid (drop_live f c5)")
  let ?reports = "[OutTrade (trade_event_of sq c4 tid inst f rq oid sd),
    OutReport (maker_report_of sq' c5 inst f sd),
    OutReport (taker_report_of base sd quantity (cum + f_qty f) (quantity - (cum + f_qty f)) f)]"
  have q35: "quiet c3 c5"
    using quiet_take_output_seq [of c3] quiet_take_output_seq [of c4] quiet_trans
    by (metis s4 s5 snd_conv)
  have "checked_add 64 cum (f_qty f) = Some (cum + f_qty f)"
    "checked_sub quantity (cum + f_qty f) = Some (quantity - (cum + f_qty f))"
    using cum by (simp_all add: checked_add_def checked_sub_def)
  then have "execute_fills ii ai rq oid sd quantity inst (f # fs) cum c out =
      execute_fills ii ai rq oid sd quantity inst fs (cum + f_qty f) c7 (out @ ?reports)"
    using tid code s4 s5 s7
    by (simp add: c1 [symmetric] del: checked_add_Some checked_sub_Some counter_next_Some)
  moreover have "quiet (drop_live f c3) c7"
    by (rule quiet_trans [OF quiet_drop_live [OF q35] quiet_base_report [OF s7]])
  ultimately show ?thesis by (rule that)
qed

lemma quiet_headroom: "quiet c c' \<Longrightarrow> headroom R c' a ai ii sd l v = headroom R c a ai ii sd l v"
  by (simp add: headroom_def quiet_pos_at)

lemma pos_at_drop_live [simp]: "pos_at (drop_live f c) ai ii = pos_at c ai ii"
  by (simp add: pos_at_def drop_live_def)

lemma shape_drop_live [simp]: "shape (drop_live f c) = shape c"
  by (simp add: shape_def drop_live_def)

lemma execute_fills_ok:
  assumes "shape c" "ledger R c L" "fills_valid (opposite sd) (L ii) fs" "tc_account_index c a = Some ai"
    "cum + (\<Sum>f\<leftarrow>fs. f_qty f) \<le> quantity" "quantity < 2 ^ 64"
    "headroom R c a ai ii sd ((\<Sum>f\<leftarrow>fs. f_qty f) + lots) v"
  shows "\<exists>c' out' L'. execute_fills ii ai rq oid sd quantity inst fs cum c out = Some (c', out') \<and>
    shape c' \<and> ledger R c' L' \<and> framed c c' \<and> headroom R c' a ai ii sd lots v \<and>
    (tc_fault c' = None \<longrightarrow> L' = L(ii := fold apply_fill fs (L ii))) \<and> (\<forall>i. dom (L' i) \<subseteq> dom (L i))"
  using assms
proof (induction fs arbitrary: c L cum out)
  case Nil
  then show ?case by auto
next
  case (Cons f fs)
  let ?q = "f_qty f"
  from Cons.prems(3) obtain d where d: "L ii (f_maker f) = Some d" "o_id d = f_maker f"
      "o_side d = opposite sd" "f = fill_of (o_price d) d ?q" "?q \<le> open_lots d"
    and fs: "fills_valid (opposite sd) (apply_fill f (L ii)) fs"
    by auto
  define vv where "vv = (if open_lots d - ?q = 0 then None else Some (d\<lparr>o_filled := o_filled d + ?q\<rparr>))"
  have L: "L ii (o_id d) = Some d" using d by simp
  show ?case
  proof (cases "counter_next (tc_next_trade_id c)")
    case None
    then have "execute_fills ii ai rq oid sd quantity inst (f # fs) cum c out =
        Some (set_fault SequenceExhausted c, out)"
      using Cons.prems(5,6) by (simp add: checked_add_def del: counter_next_None)
    moreover have q: "quiet c (set_fault SequenceExhausted c)" by simp
    moreover have "headroom R (set_fault SequenceExhausted c) a ai ii sd lots v"
      unfolding quiet_headroom [OF q] by (rule headroom_mono [OF Cons.prems(7)]) simp_all
    ultimately show ?thesis
      using Cons.prems(1,2) quiet_shape [OF q] quiet_ledger [OF q] quiet_framed [OF q]
      by (intro exI [of _ "set_fault SequenceExhausted c"] exI [of _ out] exI [of _ L])
        (simp add: set_fault_def)
  next
    case (Some tid)
    define c1 where "c1 = bump_metric em_trades_update (c\<lparr>tc_next_trade_id := tid\<rparr>)"
    have q1: "quiet c c1" unfolding c1_def by (rule quiet_trans [of _ "c\<lparr>tc_next_trade_id := tid\<rparr>"]) simp_all
    obtain mai where mai: "tc_account_index c1 (o_account d) = Some mai"
      using ledger_account [OF Cons.prems(2) L] quietD(5) [OF q1] by metis
    have c1: "shape c1" "ledger R c1 L" "tc_account_index c1 a = Some ai"
      using Cons.prems(1,2,4) by (simp_all add: quiet_shape [OF q1] quiet_ledger [OF q1] quietD(5) [OF q1])
    have head1: "headroom R c1 a ai ii sd (?q + ((\<Sum>f\<leftarrow>fs. f_qty f) + lots)) v"
      using Cons.prems(7) by (simp add: quiet_headroom [OF q1] add.assoc)
    then have le: "exposed sd (pos_at c1 ai ii) + int ?q \<le> R a sd" by (simp add: headroom_def)
    define c2 where "c2 = maker_settled mai ii d ?q c1"
    define c3 where "c3 = taker_settled ai ii sd ?q c2"
    note step = ledger_fill [OF c1(1,2) L d(5) mai vv_def c1(3) d(3) le c2_def c3_def]
    obtain c8 reports where run: "execute_fills ii ai rq oid sd quantity inst (f # fs) cum c out =
        execute_fills ii ai rq oid sd quantity inst fs (cum + ?q) c8 (out @ reports)"
      and q8: "quiet (drop_live f c3) c8"
    proof (rule execute_fills_Cons [OF _ _ Some c1_def _ _ step(2)])
      show "cum + ?q < 2 ^ 64" "cum + ?q \<le> quantity" using Cons.prems(5,6) by simp_all
      show "tc_account_index c1 (f_account f) = Some mai" using mai d(4) by (metis fill.select_convs(2) fill_of_def)
      show "settle_fill mai ii f sd c1 = Some c2" using step(1) d(4) by simp
    qed blast
    let ?L = "put ii (o_id d) vv L"
    have eqL: "L(ii := apply_fill f (L ii)) = ?L"
      using apply_fill_put [of L ii d "o_price d" ?q, OF L] d(4) vv_def by simp
    have "drop_live f c3 = settle_tables (o_id d) d vv c3" by (rule drop_live_settles [OF d(4) vv_def])
    then have c8: "shape c8" "ledger R c8 ?L"
      using step(3,4) by (simp_all add: quiet_shape [OF q8] quiet_ledger [OF q8]) (metis shape_drop_live)
    have fr: "framed c c8"
      using quiet_framed [OF q1] framed_set_pos framed_drop_live quiet_framed [OF q8] framed_trans
      unfolding c3_def taker_settled_def c2_def maker_settled_def by meson
    have head8: "headroom R c8 a ai ii sd ((\<Sum>f\<leftarrow>fs. f_qty f) + lots) v"
      using head1 step(5-7) quiet_pos_at [OF q8, of ai ii] by (simp add: headroom_def)
    have ai8: "tc_account_index c8 a = Some ai" using framedD(4) [OF fr] Cons.prems(4) by simp
    have fs8: "fills_valid (opposite sd) (?L ii) fs" using fs eqL by (metis fun_upd_same)
    have cum8: "cum + ?q + (\<Sum>f\<leftarrow>fs. f_qty f) \<le> quantity" using Cons.prems(5) by simp
    obtain c' out' L' where IH:
      "execute_fills ii ai rq oid sd quantity inst fs (cum + ?q) c8 (out @ reports) = Some (c', out')"
      "shape c'" "ledger R c' L'" "framed c8 c'" "headroom R c' a ai ii sd lots v"
      "tc_fault c' = None \<longrightarrow> L' = ?L(ii := fold apply_fill fs (?L ii))" "\<forall>i. dom (L' i) \<subseteq> dom (?L i)"
      using Cons.IH [OF c8 fs8 ai8 cum8 Cons.prems(6) head8, of "out @ reports"]
      by (elim exE conjE) (rule that)
    have "?L(ii := fold apply_fill fs (?L ii)) = L(ii := fold apply_fill (f # fs) (L ii))"
      unfolding eqL [symmetric] by simp
    moreover have "dom (?L i) \<subseteq> dom (L i)" for i using L by (auto simp: put_apply split: if_splits)
    ultimately show ?thesis
      using IH run framed_trans [OF fr IH(4)] by (metis (no_types, lifting) subset_trans)
  qed
qed

end
