(* ===== verification/Core_Books.thy ===== *)
theory Core_Books
  imports Core_Execute
begin

text \<open>
  The books inside the engine: every instrument's book is well-formed, its queues hold open orders in
  priority order, and it does not cross.  Execution and resting keep this together with the ledger,
  for every slab with the documented behaviour.
\<close>

definition book_good :: "'s slab_ops \<Rightarrow> 's order_book \<Rightarrow> bool" where
  "book_good S b \<longleftrightarrow> book_ok S b \<and> fifo (book_queue S b) \<and> uncrossed (book_queue S b)"

definition books_ok :: "'s slab_ops \<Rightarrow> 's trading_core \<Rightarrow> bool" where
  "books_ok S c \<longleftrightarrow> (\<forall>r \<in> set (tc_instruments c). book_good S (ir_book r) \<and> mv_ok (ir_market r))"

definition book_at :: "'s trading_core \<Rightarrow> nat \<Rightarrow> 's order_book" where
  "book_at c ii = ir_book (tc_instruments c ! ii)"

definition lookups :: "'s slab_ops \<Rightarrow> 's trading_core \<Rightarrow> resting" where
  "lookups S c i =
     (if i < length (tc_instruments c) then book_lookup S (book_at c i) else Map.empty)"

lemma books_okD:
  assumes "books_ok S c" "ii < length (tc_instruments c)"
  shows "book_good S (book_at c ii)" "mv_ok (ir_market (tc_instruments c ! ii))"
  using assms nth_mem [OF assms(2)] unfolding books_ok_def book_at_def by blast+

section \<open>Replacing one book\<close>

lemma set_book_fields [simp]:
  "tc_config (set_book ii b c) = tc_config c" "length (tc_instruments (set_book ii b c)) = length (tc_instruments c)"
  "tc_instrument_index (set_book ii b c) = tc_instrument_index c" "tc_accounts (set_book ii b c) = tc_accounts c"
  "tc_account_index (set_book ii b c) = tc_account_index c" "tc_live_orders (set_book ii b c) = tc_live_orders c"
  "tc_client_orders (set_book ii b c) = tc_client_orders c" "tc_global_kill (set_book ii b c) = tc_global_kill c"
  "tc_engine_seq (set_book ii b c) = tc_engine_seq c" "tc_output_seq (set_book ii b c) = tc_output_seq c"
  "tc_next_order_id (set_book ii b c) = tc_next_order_id c" "tc_next_trade_id (set_book ii b c) = tc_next_trade_id c"
  "tc_next_priority (set_book ii b c) = tc_next_priority c" "tc_engine_time_ns (set_book ii b c) = tc_engine_time_ns c"
  "tc_fills (set_book ii b c) = tc_fills c" "tc_metrics (set_book ii b c) = tc_metrics c"
  "tc_fault (set_book ii b c) = tc_fault c" "pos_at (set_book ii b c) ai j = pos_at c ai j"
  "in_range ai j (set_book ii b c) = in_range ai j c"
  by (simp_all add: set_book_def pos_at_def in_range_def)

lemma map_set_book:
  assumes "\<And>r b. f (r\<lparr>ir_book := b\<rparr>) = f r"
  shows "map f (tc_instruments (set_book ii b c)) = map f (tc_instruments c)"
  using assms by (cases "ii < length (tc_instruments c)")
    (simp_all add: set_book_def map_update list_update_same_conv list_update_beyond)

lemma book_at_set_book:
  "ii < length (tc_instruments c) \<Longrightarrow> book_at (set_book ii b c) i = (if i = ii then b else book_at c i)"
  by (simp add: book_at_def set_book_def)

lemma nth_set_book:
  "ii < length (tc_instruments c) \<Longrightarrow> tc_instruments (set_book ii b c) ! i =
     (if i = ii then (tc_instruments c ! ii)\<lparr>ir_book := b\<rparr> else tc_instruments c ! i)"
  by (simp add: set_book_def)

lemma set_book_twice [simp]: "set_book ii b' (set_book ii b c) = set_book ii b' c"
  by (cases "ii < length (tc_instruments c)") (simp_all add: set_book_def list_update_beyond)

lemma lookups_set_book:
  "ii < length (tc_instruments c) \<Longrightarrow> lookups S (set_book ii b c) = (lookups S c)(ii := book_lookup S b)"
  by (auto simp: lookups_def fun_eq_iff book_at_set_book)

lemma shape_instruments:
  assumes "map ir_config (tc_instruments c') = map ir_config (tc_instruments c)"
    "tc_instrument_index c' = tc_instrument_index c" "tc_accounts c' = tc_accounts c"
    "tc_account_index c' = tc_account_index c"
  shows "shape c' = shape c"
proof -
  have len: "length (tc_instruments c') = length (tc_instruments c)" using assms(1) by (metis length_map)
  have nth: "ir_config (tc_instruments c' ! i) = ir_config (tc_instruments c ! i)"
    if "i < length (tc_instruments c)" for i
    using assms(1) that len by (metis nth_map)
  have all: "(\<forall>r \<in> set (tc_instruments c'). 0 < ic_tick_size (ir_config r) \<and> 0 < ic_lot_size (ir_config r)) =
      (\<forall>r \<in> set (tc_instruments c). 0 < ic_tick_size (ir_config r) \<and> 0 < ic_lot_size (ir_config r))"
    using arg_cong [OF assms(1), of "\<lambda>xs. \<forall>x \<in> set xs. 0 < ic_tick_size x \<and> 0 < ic_lot_size x"] by simp
  have ix: "(i < length (tc_instruments c) \<and> ic_id (ir_config (tc_instruments c' ! i)) = x) =
      (i < length (tc_instruments c) \<and> ic_id (ir_config (tc_instruments c ! i)) = x)" for i x
    using nth by auto
  show ?thesis unfolding shape_def assms(2-4) len all ix ..
qed

lemma shape_set_book [simp]: "shape (set_book ii b c) = shape c"
  by (rule shape_instruments) (simp_all add: map_set_book)

lemma ledger_set_book [simp]: "ledger R (set_book ii b c) L = ledger R c L"
  by (rule ledger_cong) simp_all

lemma books_ok_set_book:
  assumes "books_ok S c" "ii < length (tc_instruments c)" "book_good S b"
  shows "books_ok S (set_book ii b c)"
  using assms books_okD(2) [OF assms(1,2)] set_update_subset_insert
  unfolding books_ok_def set_book_def by fastforce

lemma quiet_books [simp]: "quiet c c' \<Longrightarrow> books_ok S c' = books_ok S c" "quiet c c' \<Longrightarrow> lookups S c' = lookups S c"
  by (simp_all add: books_ok_def lookups_def book_at_def quietD fun_eq_iff)

lemma framed_books: "framed c c' \<Longrightarrow> books_ok S c' = books_ok S c" "framed c c' \<Longrightarrow> lookups S c' = lookups S c"
  "framed c c' \<Longrightarrow> book_at c' ii = book_at c ii"
  by (simp_all add: books_ok_def lookups_def book_at_def framedD fun_eq_iff)

section \<open>Matching\<close>

lemma apply_fill_kept:
  "apply_fill f L k = Some e \<Longrightarrow> \<exists>d. L k = Some d \<and> o_priority e = o_priority d"
  by (auto simp: apply_fill_def split: if_splits)

lemma fold_apply_fill_kept:
  "fold apply_fill fs L k = Some e \<Longrightarrow> \<exists>d. L k = Some d \<and> o_priority e = o_priority d"
proof (induction fs arbitrary: L)
  case (Cons f fs)
  then obtain d where "apply_fill f L k = Some d" "o_priority e = o_priority d" by fastforce
  then show ?case using apply_fill_kept by fastforce
qed simp

lemma fold_fills_zero:
  assumes "fills_valid sd L fs" "(\<Sum>f\<leftarrow>fs. f_qty f) = 0" "\<And>oid d. L oid = Some d \<Longrightarrow> 0 < open_lots d"
  shows "fold apply_fill fs L = L"
  using assms(1,2)
proof (induction fs)
  case (Cons f fs)
  then obtain d where d: "L (f_maker f) = Some d" "f = fill_of (o_price d) d (f_qty f)" "f_qty f = 0" by auto
  then have f: "f_rest f = open_lots d" "f_cum f = o_filled d"
    by (metis fill_of_def fill.select_convs(8) diff_zero, metis fill_of_def fill.select_convs(7) add_0_right)
  have "apply_fill f L = L"
    using d(1) assms(3) [OF d(1)] by (simp add: apply_fill_def f fun_upd_idem)
  then show ?case using Cons by simp
qed simp

context slab_store
begin

lemma match_good:
  assumes good: "book_good S b"
  obtains fs b' where "match_order S b sd l q [] = Some (\<Sum>f\<leftarrow>fs. f_qty f, b', fs)" "book_good S b'"
    "(\<Sum>f\<leftarrow>fs. f_qty f) \<le> q" "book_lookup S b' = fold apply_fill fs (book_lookup S b)"
    "fills_valid (opposite sd) (book_lookup S b) fs" "bk_capacity b' = bk_capacity b"
    "(\<Sum>f\<leftarrow>fs. f_qty f) < q \<longrightarrow> (\<forall>p. eligible (opposite sd) l p \<longrightarrow> book_queue S b' (opposite sd) p = [])"
proof -
  from good have ok: "book_ok S b" and fifo: "fifo (book_queue S b)" and un: "uncrossed (book_queue S b)"
    by (simp_all add: book_good_def)
  obtain Q where rep: "book_rep S b Q" using ok by (auto simp: book_ok_def)
  obtain fs A r b' where sw: "sweep (opposite sd) (eligible_prices (book_queue S b) (opposite sd) l) q
        (book_queue S b) = (fs, A, r)"
    and b': "match_order S b sd l q [] = Some (q - r, b', [] @ fs)" "book_ok S b'" "book_queue S b' = A"
      "book_lookup S b' = fold apply_fill fs (book_lookup S b)"
      "fills_valid (opposite sd) (book_lookup S b) fs" "bk_capacity b' = bk_capacity b"
    by (rule match_order_ok [OF ok])
  note dist = eligible_prices_distinct [of "book_queue S b" "opposite sd" l]
  have sum: "(\<Sum>f\<leftarrow>fs. f_qty f) + r = q" by (rule sweep_sum [OF sw])
  then have qr: "q - r = (\<Sum>f\<leftarrow>fs. f_qty f)" "(\<Sum>f\<leftarrow>fs. f_qty f) \<le> q" by linarith+
  have clear: "(\<Sum>f\<leftarrow>fs. f_qty f) < q \<longrightarrow> (\<forall>p. eligible (opposite sd) l p \<longrightarrow> book_queue S b' (opposite sd) p = [])"
  proof (intro impI allI)
    fix p assume "(\<Sum>f\<leftarrow>fs. f_qty f) < q" "eligible (opposite sd) l p"
    then show "book_queue S b' (opposite sd) p = []"
      unfolding b'(3) by (intro sweep_clears [OF sw _ finite_prices [OF rep]]) (use sum in linarith)+
  qed
  have good': "book_good S b'"
    unfolding book_good_def b'(3) using b'(2) sweep_fifo [OF sw dist fifo] sweep_uncrossed [OF sw dist un] by simp
  have "match_order S b sd l q [] = Some (\<Sum>f\<leftarrow>fs. f_qty f, b', fs)" using b'(1) qr(1) by simp
  then show ?thesis by (rule that [OF _ good' qr(2) b'(4-6) clear])
qed

lemma execute_ok:
  assumes c: "shape c" and L: "ledger R c (lookups S c)" and books: "books_ok S c"
    and ii: "ii < length (tc_instruments c)" and ai: "tc_account_index c a = Some ai"
    and q: "quantity < 2 ^ 64" and head: "headroom R c a ai ii sd quantity v"
  obtains filled b c' out' L' where
    "execute S ii ai rq oid sd limit quantity c out = Some (filled, c', out')" "filled \<le> quantity"
    "book_good S b" "framed (set_book ii b c) c'" "bk_capacity b = bk_capacity (book_at c ii)"
    "filled < quantity \<longrightarrow> (\<forall>p. eligible (opposite sd) limit p \<longrightarrow> book_queue S b (opposite sd) p = [])"
    "shape c'" "ledger R c' L'" "tc_fault c' = None \<longrightarrow> L' = lookups S c'"
    "headroom R c' a ai ii sd (quantity - filled) v" "\<forall>i. dom (L' i) \<subseteq> dom (lookups S c i)"
    "\<forall>k e. book_lookup S b k = Some e \<longrightarrow> (\<exists>d. lookups S c ii k = Some d \<and> o_priority e = o_priority d)"
proof -
  obtain fs b where m: "match_order S (book_at c ii) sd limit quantity [] = Some (\<Sum>f\<leftarrow>fs. f_qty f, b, fs)"
      "book_good S b" "(\<Sum>f\<leftarrow>fs. f_qty f) \<le> quantity"
      "book_lookup S b = fold apply_fill fs (book_lookup S (book_at c ii))"
      "fills_valid (opposite sd) (book_lookup S (book_at c ii)) fs" "bk_capacity b = bk_capacity (book_at c ii)"
      "(\<Sum>f\<leftarrow>fs. f_qty f) < quantity \<longrightarrow>
         (\<forall>p. eligible (opposite sd) limit p \<longrightarrow> book_queue S b (opposite sd) p = [])"
    by (rule match_good [OF books_okD(1) [OF books ii]])
  let ?f = "\<Sum>f\<leftarrow>fs. f_qty f"
  have Lii: "lookups S c ii = book_lookup S (book_at c ii)" using ii by (simp add: lookups_def)
  define c1 where "c1 = (set_book ii b c)\<lparr>tc_fills := fs\<rparr>"
  have q1: "quiet (set_book ii b c) c1" by (simp add: c1_def)
  have c1: "shape c1" "ledger R c1 (lookups S c)" "tc_account_index c1 a = Some ai"
    using c L ai by (simp_all add: quiet_shape [OF q1] quiet_ledger [OF q1] quietD(5) [OF q1])
  have head1: "headroom R c1 a ai ii sd (?f + (quantity - ?f)) v"
    using head m(3) quiet_pos_at [OF q1, of ai ii] by (simp add: headroom_def)
  have valid: "fills_valid (opposite sd) (lookups S c ii) fs" using m(5) Lii by simp
  have cum: "0 + ?f \<le> quantity" using m(3) by simp
  obtain c' out' L' where run:
    "execute_fills ii ai rq oid sd quantity (ic_id (ir_config (tc_instruments c ! ii))) fs 0 c1 out = Some (c', out')"
    "shape c'" "ledger R c' L'" "framed c1 c'" "headroom R c' a ai ii sd (quantity - ?f) v"
    "tc_fault c' = None \<longrightarrow> L' = (lookups S c)(ii := fold apply_fill fs (lookups S c ii))"
    "\<forall>i. dom (L' i) \<subseteq> dom (lookups S c i)"
    using execute_fills_ok [OF c1(1,2) valid c1(3) cum q head1, of rq oid
        "ic_id (ir_config (tc_instruments c ! ii))" out] by (elim exE conjE) (rule that)
  have fr: "framed (set_book ii b c) c'" by (rule framed_trans [OF quiet_framed [OF q1] run(4)])
  have lk: "lookups S c' = (lookups S c)(ii := fold apply_fill fs (lookups S c ii))"
    using framed_books(2) [OF fr] lookups_set_book [OF ii, of S b] m(4) Lii by simp
  have ag: "tc_fault c' = None \<longrightarrow> L' = lookups S c'" using run(6) unfolding lk .
  have kept: "\<forall>k e. book_lookup S b k = Some e \<longrightarrow> (\<exists>d. lookups S c ii k = Some d \<and> o_priority e = o_priority d)"
    unfolding m(4) Lii using fold_apply_fill_kept by blast
  show ?thesis
  proof (cases "?f = 0")
    case True
    have "execute S ii ai rq oid sd limit quantity c out = Some (?f, c1, out)"
      using True m(1) by (simp add: execute_def c1_def book_at_def idx_less [OF ii] Let_def)
    moreover have "fold apply_fill fs (lookups S c ii) = lookups S c ii"
      by (rule fold_fills_zero [OF valid True]) (use ledger_order(10) [OF L] in blast)
    then have "tc_fault c1 = None \<longrightarrow> lookups S c = lookups S c1"
      using lk framed_books(2) [OF fr] quiet_books(2) [OF q1] by (metis fun_upd_triv)
    moreover have "headroom R c1 a ai ii sd (quantity - ?f) v" using head1 by (simp only: True add_0)
    ultimately show ?thesis
      by (rule that [OF _ m(3,2) quiet_framed [OF q1] m(6,7) c1(1,2) _ _ _ kept]) simp
  next
    case False
    then have "execute S ii ai rq oid sd limit quantity c out = Some (?f, c', out')"
      using m(1) run(1)
      by (simp add: execute_def c1_def book_at_def idx_less [OF ii] Let_def del: sum_list_eq_0_iff)
    then show ?thesis
      by (rule that [OF _ m(3,2) fr m(6,7) run(2,3) ag run(5,7) kept])
  qed
qed

section \<open>Single orders\<close>

lemma good_rep:
  assumes "book_good S b"
  obtains Q where "book_rep S b Q" "fifo (book_queue S b)" "uncrossed (book_queue S b)"
  using assms by (auto simp: book_good_def book_ok_def)

lemma good_remove:
  assumes good: "book_good S b" and d: "book_lookup S b oid = Some d"
  obtains nd b' where "book_remove S b oid = Some (Some nd, b')" "order_of nd = d" "book_good S b'"
    "book_lookup S b' = (book_lookup S b)(oid := None)" "bk_capacity b' = bk_capacity b"
proof -
  obtain Q where rep: "book_rep S b Q" and f: "fifo (book_queue S b)" and u: "uncrossed (book_queue S b)"
    by (rule good_rep [OF good])
  obtain nd b' where b': "book_remove S b oid = Some (Some nd, b')" "order_of nd = d" "book_ok S b'"
    "book_lookup S b' = (book_lookup S b)(oid := None)"
    "book_queue S b' = upd_queue (o_side d) (o_price d) (drop_order oid) (book_queue S b)"
    "bk_capacity b' = bk_capacity b"
    by (rule book_remove_ok [OF rep d])
  have "uncrossed (book_queue S b')"
    unfolding b'(5) by (rule uncrossed_mono [OF u]) (auto simp: upd_queue_apply drop_order_def split: if_splits)
  then have "book_good S b'" using b'(3) drop_order_kept [OF f] by (simp add: book_good_def b'(5))
  then show ?thesis by (rule that [OF b'(1,2) _ b'(4,6)])
qed

lemma good_reduce:
  assumes good: "book_good S b" and d: "book_lookup S b oid = Some d" and n: "o_filled d < n" "n \<le> o_total d"
  obtains b' where "reduce_total S b oid n = Some b'" "book_good S b'"
    "book_lookup S b' = (book_lookup S b)(oid \<mapsto> d\<lparr>o_total := n\<rparr>)" "bk_capacity b' = bk_capacity b"
proof -
  obtain Q where rep: "book_rep S b Q" and f: "fifo (book_queue S b)" and u: "uncrossed (book_queue S b)"
    by (rule good_rep [OF good])
  let ?e = "d\<lparr>o_total := n\<rparr>" and ?A = "book_queue S b"
  obtain b' where b': "reduce_total S b oid n = Some b'" "book_ok S b'"
    "book_lookup S b' = (book_lookup S b)(oid \<mapsto> ?e)"
    "book_queue S b' = upd_queue (o_side d) (o_price d) (upd_order oid (\<lambda>_. ?e)) ?A"
    "bk_capacity b' = bk_capacity b"
    using reduce_total_ok [OF rep d less_imp_le [OF n(1)] n(2)] by blast
  have prio: "o_priority ?e = o_priority x" if "x \<in> set (?A (o_side d) (o_price d))" "o_id x = oid" for x
    using that d by (simp add: queue_mem [OF rep])
  have "fifo (upd_queue (o_side d) (o_price d) (upd_order oid (\<lambda>_. ?e)) ?A)"
    by (rule fifo_upd_order [OF f _ prio]) (use n in \<open>simp_all add: open_lots_def\<close>)
  moreover have "uncrossed (upd_queue (o_side d) (o_price d) (upd_order oid (\<lambda>_. ?e)) ?A)"
    by (rule uncrossed_mono [OF u]) (auto simp: upd_queue_apply upd_order_def split: if_splits)
  ultimately have "book_good S b'" using b'(2) by (simp add: book_good_def b'(4))
  then show ?thesis by (rule that [OF b'(1) _ b'(3,5)])
qed

lemma drop_upd_order: "o_id e = oid \<Longrightarrow> drop_order oid (upd_order oid (\<lambda>_. e) os) = drop_order oid os"
  by (induction os) (auto simp: drop_order_def upd_order_def)

lemma good_reduce_remove:
  assumes good: "book_good S b" and d: "book_lookup S b oid = Some d" and n: "o_filled d \<le> n" "n \<le> o_total d"
  obtains b1 nd b' where "reduce_total S b oid n = Some b1" "book_remove S b1 oid = Some (Some nd, b')"
    "book_good S b'" "book_lookup S b' = (book_lookup S b)(oid := None)" "bk_capacity b' = bk_capacity b"
proof -
  obtain Q where rep: "book_rep S b Q" and f: "fifo (book_queue S b)" and u: "uncrossed (book_queue S b)"
    by (rule good_rep [OF good])
  let ?e = "d\<lparr>o_total := n\<rparr>" and ?A = "book_queue S b"
  obtain b1 where b1: "reduce_total S b oid n = Some b1" "book_ok S b1"
    "book_lookup S b1 = (book_lookup S b)(oid \<mapsto> ?e)"
    "book_queue S b1 = upd_queue (o_side d) (o_price d) (upd_order oid (\<lambda>_. ?e)) ?A"
    "bk_capacity b1 = bk_capacity b"
    using reduce_total_ok [OF rep d n] by blast
  obtain Q1 where rep1: "book_rep S b1 Q1" using b1(2) by (auto simp: book_ok_def)
  have e: "book_lookup S b1 oid = Some ?e" by (simp add: b1(3))
  obtain nd b' where b': "book_remove S b1 oid = Some (Some nd, b')" "order_of nd = ?e" "book_ok S b'"
    "book_lookup S b' = (book_lookup S b1)(oid := None)"
    "book_queue S b' = upd_queue (o_side ?e) (o_price ?e) (drop_order oid) (book_queue S b1)"
    "bk_capacity b' = bk_capacity b1"
    by (rule book_remove_ok [OF rep1 e])
  have "o_id ?e = oid" using view_okD(3) [OF book_view [OF rep] d] by simp
  then have q: "book_queue S b' = upd_queue (o_side d) (o_price d) (drop_order oid) ?A"
    unfolding b'(5) b1(4) by (simp add: upd_queue_def drop_upd_order)
  have "uncrossed (book_queue S b')"
    unfolding q by (rule uncrossed_mono [OF u]) (auto simp: upd_queue_apply drop_order_def split: if_splits)
  then have "book_good S b'" using b'(3) drop_order_kept [OF f] by (simp add: book_good_def q)
  then show ?thesis by (rule that [OF b1(1) b'(1)]) (simp_all add: b'(4,6) b1(3,5))
qed

lemma good_insert:
  assumes good: "book_good S b" and d: "o_filled d < o_total d" "o_total d < 2 ^ 64"
    and new: "book_lookup S b (o_id d) = None"
    and prio: "\<And>oid e. book_lookup S b oid = Some e \<Longrightarrow> o_priority e < o_priority d"
    and clear: "\<And>p. eligible (opposite (o_side d)) (o_price d) p \<Longrightarrow> book_queue S b (opposite (o_side d)) p = []"
  obtains "book_insert S b d = Some (Inl CapacityExhausted)"
  | b' where "book_insert S b d = Some (Inr b')" "book_good S b'"
    "book_lookup S b' = (book_lookup S b)(o_id d \<mapsto> d)" "bk_capacity b' = bk_capacity b"
proof -
  obtain Q where rep: "book_rep S b Q" and f: "fifo (book_queue S b)" and u: "uncrossed (book_queue S b)"
    by (rule good_rep [OF good])
  let ?bad = "is_full S b \<or> o_total d < o_filled d \<or>
    level_overflows (btm_get (bk_levels b (o_side d)) (o_price d)) (open_lots d)"
  show ?thesis
  proof (cases ?bad)
    case True
    then show ?thesis using book_insert_full [OF rep] that(1) by blast
  next
    case False
    then have bounds: "\<not> is_full S b" "o_filled d \<le> o_total d"
      "\<not> level_overflows (btm_get (bk_levels b (o_side d)) (o_price d)) (open_lots d)" by auto
    obtain b' where b': "book_insert S b d = Some (Inr b')" "book_ok S b'"
      "book_lookup S b' = (book_lookup S b)(o_id d \<mapsto> d)"
      "book_queue S b' = upd_queue (o_side d) (o_price d) (\<lambda>q. q @ [d]) (book_queue S b)"
      "bk_capacity b' = bk_capacity b"
      by (rule book_insert_ok [OF rep bounds(1,2) d(2) new bounds(3)])
    have pr: "\<forall>e \<in> set (book_queue S b (o_side d) (o_price d)). o_priority e < o_priority d"
      using prio by (auto simp: queue_mem [OF rep])
    have "fifo (book_queue S b')"
      unfolding b'(4) by (rule fifo_snoc [OF f _ pr]) (use d(1) in \<open>simp add: open_lots_def\<close>)
    moreover have "uncrossed (book_queue S b')"
      unfolding b'(4) uncrossed_def
    proof (intro allI impI)
      fix bid ask
      assume "upd_queue (o_side d) (o_price d) (\<lambda>q. q @ [d]) (book_queue S b) Buy bid \<noteq> []"
        "upd_queue (o_side d) (o_price d) (\<lambda>q. q @ [d]) (book_queue S b) Sell ask \<noteq> []"
      then show "bid < ask"
        using u clear [of ask] clear [of bid] unfolding uncrossed_def
        by (cases "o_side d"; auto simp: upd_queue_apply split: if_splits; meson not_le)
    qed
    ultimately have "book_good S b'" using b'(2) by (simp add: book_good_def)
    then show ?thesis by (rule that(2) [OF b'(1) _ b'(3,5)])
  qed
qed

end

end
