(* ===== verification/Core_Inv.thy ===== *)
theory Core_Inv
  imports Core_Books
begin

text \<open>
  The invariant of the engine between and inside the handlers, and what a passed risk check gives:
  room for the order in the account's counters, its reservation and its position cap.
\<close>

section \<open>The invariant\<close>

text \<open>What no handler changes.\<close>

definition same_setup :: "'s trading_core \<Rightarrow> 's trading_core \<Rightarrow> bool" where
  "same_setup c c' \<longleftrightarrow>
     tc_config c' = tc_config c \<and> tc_instrument_index c' = tc_instrument_index c \<and>
     tc_account_index c' = tc_account_index c \<and> tc_global_kill c' = tc_global_kill c \<and>
     tc_engine_seq c' = tc_engine_seq c \<and> tc_engine_time_ns c' = tc_engine_time_ns c \<and>
     map ac_id (tc_accounts c') = map ac_id (tc_accounts c) \<and>
     map ac_limits (tc_accounts c') = map ac_limits (tc_accounts c) \<and>
     map ac_cache (tc_accounts c') = map ac_cache (tc_accounts c) \<and>
     map ir_config (tc_instruments c') = map ir_config (tc_instruments c) \<and>
     map ir_market (tc_instruments c') = map ir_market (tc_instruments c) \<and>
     (tc_fault c' = tc_fault c \<or> tc_fault c' = Some SequenceExhausted)"

lemma same_setup_refl [simp]: "same_setup c c"
  by (simp add: same_setup_def)

lemma same_setup_trans [trans]: "same_setup c c1 \<Longrightarrow> same_setup c1 c2 \<Longrightarrow> same_setup c c2"
  by (auto simp: same_setup_def)

lemma framed_setup: "framed c c' \<Longrightarrow> same_setup c c'"
  by (simp add: framed_def same_setup_def)

lemma quiet_setup: "quiet c c' \<Longrightarrow> same_setup c c'"
  by (intro framed_setup quiet_framed)

lemma set_book_setup [simp]: "same_setup c (set_book ii b c)"
  by (simp add: same_setup_def map_set_book)

lemma set_pos_setup [simp]: "same_setup c (set_pos ai ii ip c)"
  by (intro framed_setup framed_set_pos)

lemma tables_setup [simp]:
  "same_setup c (c\<lparr>tc_next_order_id := n\<rparr>)" "same_setup c (c\<lparr>tc_next_priority := n\<rparr>)"
  "same_setup c (drop_order_entry oid key c)" "same_setup c (settle_tables oid d v c)"
  "same_setup c (add_tables ai ii d c)"
  by (simp_all add: same_setup_def drop_order_entry_def settle_tables_def add_tables_def)

lemma tables_fields [simp]:
  "shape (drop_order_entry oid key c) = shape c" "shape (settle_tables oid d v c) = shape c"
  "shape (add_tables ai ii d c) = shape c"
  "books_ok S (drop_order_entry oid key c) = books_ok S c" "books_ok S (settle_tables oid d v c) = books_ok S c"
  "books_ok S (add_tables ai ii d c) = books_ok S c" "books_ok S (set_pos ai ii ip c) = books_ok S c"
  "lookups S (drop_order_entry oid key c) = lookups S c" "lookups S (settle_tables oid d v c) = lookups S c"
  "lookups S (add_tables ai ii d c) = lookups S c" "lookups S (set_pos ai ii ip c) = lookups S c"
  "pos_at (drop_order_entry oid key c) ai ii = pos_at c ai ii" "pos_at (settle_tables oid d v c) ai ii = pos_at c ai ii"
  "tc_fault (drop_order_entry oid key c) = tc_fault c" "tc_fault (settle_tables oid d v c) = tc_fault c"
  "tc_fault (add_tables ai ii d c) = tc_fault c" "tc_instruments (drop_order_entry oid key c) = tc_instruments c"
  "book_at (set_pos ai ii ip c) j = book_at c j" "book_at (settle_tables oid d v c) j = book_at c j"
  "tc_account_index (drop_order_entry oid key c) = tc_account_index c"
  "tc_next_order_id (drop_order_entry oid key c) = tc_next_order_id c"
  by (simp_all add: shape_def books_ok_def lookups_def book_at_def pos_at_def fun_eq_iff drop_order_entry_def
      settle_tables_def add_tables_def)

definition caps_ok :: "caps \<Rightarrow> 's trading_core \<Rightarrow> bool" where
  "caps_ok R c \<longleftrightarrow>
     (\<forall>a ai sd. tc_account_index c a = Some ai \<longrightarrow>
        min (room sd) (int (lim_max_position_lots (map ac_limits (tc_accounts c) ! ai))) \<le> R a sd)"

lemma caps_ok_setup: "same_setup c c' \<Longrightarrow> caps_ok R c' = caps_ok R c"
  by (simp add: caps_ok_def same_setup_def)

definition core_mid :: "caps \<Rightarrow> 's slab_ops \<Rightarrow> 's trading_core \<Rightarrow> bool" where
  "core_mid R S c \<longleftrightarrow>
     shape c \<and> books_ok S c \<and> caps_ok R c \<and> tc_fault c \<noteq> Some Accounting \<and>
     (\<exists>L. ledger R c L \<and> (tc_fault c = None \<longrightarrow> L = lookups S c))"

lemma core_midI:
  assumes "shape c" "books_ok S c" "caps_ok R c" "tc_fault c \<noteq> Some Accounting" "ledger R c L"
    "tc_fault c = None \<longrightarrow> L = lookups S c"
  shows "core_mid R S c"
  unfolding core_mid_def by (intro conjI exI [of _ L] assms)

lemma core_mid_ledger:
  assumes "core_mid R S c"
  obtains L where "ledger R c L" "tc_fault c = None \<longrightarrow> L = lookups S c"
  using assms unfolding core_mid_def by (elim conjE exE) (rule that)

lemma core_midD:
  assumes "core_mid R S c"
  shows "shape c" "books_ok S c" "caps_ok R c" "tc_fault c \<noteq> Some Accounting"
    "tc_fault c = None \<Longrightarrow> ledger R c (lookups S c)"
  using assms unfolding core_mid_def by auto

lemma core_mid_quiet:
  assumes mid: "core_mid R S c" and q: "quiet c c'"
  shows "core_mid R S c'"
proof -
  obtain L where L: "ledger R c L" "tc_fault c = None \<longrightarrow> L = lookups S c"
    by (rule core_mid_ledger [OF mid])
  show ?thesis
  proof (rule core_midI)
    show "shape c'" "books_ok S c'" "ledger R c' L"
      using core_midD(1,2) [OF mid] L(1) q by (simp_all add: quiet_shape quiet_ledger)
    show "caps_ok R c'" using core_midD(3) [OF mid] caps_ok_setup [OF quiet_setup [OF q]] by simp
    show "tc_fault c' \<noteq> Some Accounting" using core_midD(4) [OF mid] quietD(13) [OF q] by auto
    show "tc_fault c' = None \<longrightarrow> L = lookups S c'" using L(2) q quiet_fault [OF q] by simp
  qed
qed

lemma ledger_counters:
  assumes L: "ledger R c L"
    and c': "c' = c\<lparr>tc_next_order_id := n, tc_next_priority := p\<rparr>" "tc_next_order_id c \<le> n" "tc_next_priority c \<le> p"
  shows "ledger R c' L"
proof -
  have "order_ok c' i oid d" if "L i oid = Some d" for i oid d
    using orders_okD(2) [OF ledgerD(1) [OF L] that] c' by (auto simp: order_ok_def)
  then have "orders_ok c' L" using orders_okD(1) [OF ledgerD(1) [OF L]] by (simp add: orders_ok_def)
  moreover have "live_ok c' L" "clients_ok c' L" "positions_ok R c' L" "net_position c' ii = net_position c ii" for ii
    using ledgerD(2-4) [OF L]
    by (simp_all add: c'(1) live_ok_def clients_ok_def positions_ok_def net_position_def pos_at_def)
  ultimately show ?thesis using ledgerD(5,6) [OF L] by (simp add: ledger_def c'(1))
qed

lemma counter_fields [simp]:
  "shape (c\<lparr>tc_next_order_id := n\<rparr>) = shape c" "shape (c\<lparr>tc_next_priority := n\<rparr>) = shape c"
  "books_ok S (c\<lparr>tc_next_order_id := n\<rparr>) = books_ok S c" "books_ok S (c\<lparr>tc_next_priority := n\<rparr>) = books_ok S c"
  "lookups S (c\<lparr>tc_next_order_id := n\<rparr>) = lookups S c" "lookups S (c\<lparr>tc_next_priority := n\<rparr>) = lookups S c"
  "pos_at (c\<lparr>tc_next_order_id := n\<rparr>) ai ii = pos_at c ai ii"
  "pos_at (c\<lparr>tc_next_priority := n\<rparr>) ai ii = pos_at c ai ii"
  "book_at (c\<lparr>tc_next_order_id := n\<rparr>) ii = book_at c ii" "book_at (c\<lparr>tc_next_priority := n\<rparr>) ii = book_at c ii"
  by (simp_all add: shape_def books_ok_def lookups_def book_at_def pos_at_def fun_eq_iff)

section \<open>What the risk checks give\<close>

lemma tc_position_eq: "in_range ai ii c \<Longrightarrow> tc_position c ai ii = Some (pos_at c ai ii)"
  by (simp add: tc_position_def in_range_def idx_def pos_at_def)

lemma projected_position_view:
  assumes "projected_position ip sd al ap rl rp = Some ip'"
  shows "ip_position_lots ip' = ip_position_lots ip" "rl \<le> ip_open_lots ip sd"
    "ip_open_lots ip' sd = ip_open_lots ip sd - rl + al"
    "ip_open_notional ip sd - rl * unsigned_abs rp + al * unsigned_abs ap < 2 ^ 128"
  using assms by (cases sd; auto simp: projected_position_def bind_convs checked_notional_def)+

lemma worst_case_position_view:
  assumes "worst_case_position ip sd = Some w"
  shows "ip_open_lots ip sd < 2 ^ 63" "exposed sd ip \<le> room sd" "exposed sd ip \<le> int w"
  using assms by (cases sd; auto simp: bind_convs exposed_def in_signed_def unsigned_abs_def)+

lemma check_exposure_view:
  assumes ok: "check_exposure c ai ii sd al ap rl rp = Some (Inr u)" and rng: "in_range ai ii c"
  shows "rl \<le> ip_open_lots (pos_at c ai ii) sd"
    "ip_open_lots (pos_at c ai ii) sd - rl + al < 2 ^ 63"
    "ip_open_notional (pos_at c ai ii) sd - rl * unsigned_abs rp + al * unsigned_abs ap < 2 ^ 128"
    "exposed sd (pos_at c ai ii) - int rl + int al \<le> room sd"
    "exposed sd (pos_at c ai ii) - int rl + int al \<le>
       int (lim_max_position_lots (ac_limits (tc_accounts c ! ai)))"
proof -
  obtain ip w where ip: "projected_position (pos_at c ai ii) sd al ap rl rp = Some ip"
      "worst_case_position ip sd = Some w" "w \<le> lim_max_position_lots (ac_limits (tc_accounts c ! ai))"
    using ok rng by (auto simp: check_exposure_def bind_convs try_else_Inr_iff tc_position_eq not_less)
  note p = projected_position_view [OF ip(1)] and w = worst_case_position_view [OF ip(2)]
  have ex: "exposed sd ip = exposed sd (pos_at c ai ii) - int rl + int al"
    using p by (simp add: exposed_def of_nat_diff)
  show "rl \<le> ip_open_lots (pos_at c ai ii) sd" by (rule p(2))
  show "ip_open_lots (pos_at c ai ii) sd - rl + al < 2 ^ 63" using w(1) unfolding p(3) .
  show "ip_open_notional (pos_at c ai ii) sd - rl * unsigned_abs rp + al * unsigned_abs ap < 2 ^ 128"
    by (rule p(4))
  show "exposed sd (pos_at c ai ii) - int rl + int al \<le> room sd" using w(2) unfolding ex .
  show "exposed sd (pos_at c ai ii) - int rl + int al \<le>
      int (lim_max_position_lots (ac_limits (tc_accounts c ! ai)))"
    using w(3) ip(3) ex by linarith
qed

lemma check_headroom:
  assumes c: "shape c" "caps_ok R c" and ai: "tc_account_index c a = Some ai"
    and ii: "ii < length (tc_instruments c)" and ok: "check_exposure c ai ii sd al ap rl rp = Some (Inr u)"
    and c2: "pos_at c2 ai ii = release_pos sd rl (rl * unsigned_abs rp) (pos_at c ai ii)"
  shows "headroom R c2 a ai ii sd al (al * unsigned_abs ap)"
proof -
  note v = check_exposure_view [OF ok shape_account(3) [OF c(1) ai ii]]
  have "min (room sd) (int (lim_max_position_lots (map ac_limits (tc_accounts c) ! ai))) \<le> R a sd"
    using c(2) ai unfolding caps_ok_def by blast
  moreover have "map ac_limits (tc_accounts c) ! ai = ac_limits (tc_accounts c ! ai)"
    using shape_account(1) [OF c(1) ai] by simp
  ultimately have "exposed sd (pos_at c ai ii) - int rl + int al \<le> R a sd"
    using v(4,5) by (auto simp: min_le_iff_disj)
  then show ?thesis using v(1-3) by (simp add: headroom_def c2 exposed_release_pos)
qed

text \<open>The checks never panic: indices are in range and the configured divisors are positive.\<close>

lemma try_else_total:
  "m \<noteq> None \<Longrightarrow> (\<And>x. m = Some (Inr x) \<Longrightarrow> f x \<noteq> None) \<Longrightarrow> try_else m f \<noteq> None"
  by (cases "(m, f)" rule: try_else.cases) auto

lemma bind_total: "m \<noteq> None \<Longrightarrow> (\<And>x. m = Some x \<Longrightarrow> f x \<noteq> None) \<Longrightarrow> Option.bind m f \<noteq> None"
  by (cases m) auto

lemma shape_divisors:
  assumes "shape c" "ii < length (tc_instruments c)"
  shows "0 < ic_tick_size (ir_config (tc_instruments c ! ii))" "0 < ic_lot_size (ir_config (tc_instruments c ! ii))"
  using assms nth_mem [OF assms(2)] unfolding shape_def by blast+

lemma check_quantity_total: "shape c \<Longrightarrow> ii < length (tc_instruments c) \<Longrightarrow> check_quantity c ii q \<noteq> None"
  using shape_divisors(2) [of c ii] by (simp add: check_quantity_def idx_less rem_unsigned_def)

lemma check_price_total: "shape c \<Longrightarrow> ii < length (tc_instruments c) \<Longrightarrow> check_price c ii p \<noteq> None"
  using shape_divisors(1) [of c ii] by (simp add: check_price_def idx_less rem_signed_def Let_def)

lemma check_trading_permitted_total: "ai < length (tc_accounts c) \<Longrightarrow> check_trading_permitted c ai \<noteq> None"
  by (simp add: check_trading_permitted_def idx_less)

lemma check_client_sequence_total: "ai < length (tc_accounts c) \<Longrightarrow> check_client_sequence c ai s \<noteq> None"
  by (simp add: check_client_sequence_def idx_less)

lemma check_reference_price_total: "ii < length (tc_instruments c) \<Longrightarrow> check_reference_price c ii \<noteq> None"
  by (simp add: check_reference_price_def idx_less Let_def)

lemma gross_exposure_total:
  "\<forall>(i, r) \<in> set xs. in_range ai i c \<Longrightarrow> gross_exposure c ai ii ip xs g \<noteq> None"
proof (induction xs arbitrary: g)
  case (Cons x xs)
  obtain i r where x: "x = (i, r)" by (cases x)
  with Cons.prems have rng: "in_range ai i c" and IH: "gross_exposure c ai ii ip xs g' \<noteq> None" for g'
    using Cons.IH by auto
  define h where "h g' = the (gross_exposure c ai ii ip xs g')" for g'
  have h: "gross_exposure c ai ii ip xs g' = Some (h g')" for g'
    using IH [of g'] unfolding h_def by (rule option.collapse [symmetric])
  show ?case
    unfolding x gross_exposure.simps h
    by (rule bind_total) (simp_all add: tc_position_eq [OF rng] split: option.split)
qed simp

lemma check_exposure_total:
  assumes c: "shape c" and ai: "ai < length (tc_accounts c)" and ii: "ii < length (tc_instruments c)"
  shows "check_exposure c ai ii sd al ap rl rp \<noteq> None"
proof -
  have all: "in_range ai i c" if "i < length (tc_instruments c)" for i
    using that ai shapeD(1) [OF c ai] by (simp add: in_range_def)
  then have rng: "in_range ai ii c" using ii by blast
  have "gross_exposure c ai ii ip (zip [0..<length (tc_instruments c)] (tc_instruments c)) 0 \<noteq> None" for ip
    by (rule gross_exposure_total) (use all in \<open>auto simp: set_zip\<close>)
  then show ?thesis
    unfolding check_exposure_def
    by (intro bind_total try_else_total) (use ai in \<open>simp_all add: tc_position_eq [OF rng] idx_less\<close>)
qed

end
