(* ===== verification/Core_Handlers.thy ===== *)
theory Core_Handlers
  imports Core_Inv
begin

text \<open>
  The three request handlers (\<open>handle_new\<close>, \<open>handle_cancel\<close>, \<open>handle_replace\<close> in
  \<open>trading-core/src/core.rs\<close>): from a state with the invariant they return, and the invariant holds
  again.
\<close>

definition rq_ok :: "order_request \<Rightarrow> bool" where
  "rq_ok rq \<longleftrightarrow> rq_quantity rq < 2 ^ 64 \<and> in_signed 64 (rq_price rq)"

section \<open>Resting an order\<close>

context slab_store
begin

lemma rest_order_with_ok:
  assumes mid: "shape c" "books_ok S c" "caps_ok R c" "tc_fault c \<noteq> Some Accounting"
    and L: "ledger R c L" "tc_fault c = None \<longrightarrow> L = lookups S c"
    and ii: "ii < length (tc_instruments c)" and ai: "tc_account_index c a = Some ai"
    and new: "\<And>i. L i oid = None" "lookups S c ii oid = None" "oid \<le> tc_next_order_id c"
    and client: "tc_client_orders c (a, cid) = None"
    and amounts: "filled < total_lots" "total_lots < 2 ^ 64" "in_signed 64 price"
    and head: "headroom R c a ai ii sd (total_lots - filled) ((total_lots - filled) * unsigned_abs price)"
    and prio: "\<And>k e. lookups S c ii k = Some e \<Longrightarrow> o_priority e \<le> tc_next_priority c"
    and clear: "\<And>p. eligible (opposite sd) price p \<Longrightarrow> book_queue S (book_at c ii) (opposite sd) p = []"
  obtains c' where "rest_order_with S ii ai cid sd price total_lots filled oid c = Some c'" "core_mid R S c'"
    "same_setup c c'"
proof (cases "counter_next (tc_next_priority c)")
  case None
  have q: "quiet c (set_fault SequenceExhausted c)" by simp
  have mid': "core_mid R S c" by (rule core_midI [OF mid L])
  have run: "rest_order_with S ii ai cid sd price total_lots filled oid c = Some (set_fault SequenceExhausted c)"
    using None by (simp add: rest_order_with_def del: counter_next_None)
  show ?thesis by (rule that [OF run core_mid_quiet [OF mid' q] quiet_setup [OF q]])
next
  case (Some pr)
  then have pr: "pr = tc_next_priority c + 1" by simp
  define c1 where "c1 = c\<lparr>tc_next_priority := pr\<rparr>"
  define d where "d = \<lparr>o_id = oid, o_account = a, o_client = cid, o_side = sd, o_price = price,
    o_total = total_lots, o_filled = filled, o_priority = pr\<rparr>"
  have id: "ac_id (tc_accounts c ! ai) = a" "ai < length (tc_accounts c)"
    using shape_account(1,2) [OF mid(1) ai] by simp_all
  have L1: "ledger R c1 L"
    by (rule ledger_counters [OF L(1), of c1 pr "tc_next_order_id c"]) (simp_all add: c1_def pr)
  have mid1: "shape c1" "books_ok S c1" "caps_ok R c1" "tc_fault c1 = tc_fault c" "lookups S c1 = lookups S c"
    using mid caps_ok_setup [of c c1 R] by (simp_all add: c1_def)
  have good: "book_good S (book_at c ii)" by (rule books_okD(1) [OF mid(2) ii])
  have Lii: "lookups S c ii = book_lookup S (book_at c ii)" using ii by (simp add: lookups_def)
  have d1: "o_filled d < o_total d" "o_total d < 2 ^ 64" "o_id d = oid" "o_account d = a" "o_client d = cid"
    "o_side d = sd" "o_price d = price" "open_lots d = total_lots - filled" "o_priority d = pr"
    using amounts by (simp_all add: d_def open_lots_def)
  have run: "rest_order_with S ii ai cid sd price total_lots filled oid c = do {
      inserted \<leftarrow> book_insert S (book_at c ii) d;
      (case inserted of
         Inl _ \<Rightarrow> Some c1
       | Inr b \<Rightarrow> do {
           c3 \<leftarrow> core_reserve ai ii sd (total_lots - filled) price (set_book ii b c1);
           Some (add_tables ai ii d c3)
         })
    }"
    using Some amounts(1) id ii
    by (simp add: rest_order_with_def idx_less Let_def c1_def [symmetric] del: counter_next_Some)
      (simp add: idx_less c1_def book_at_def d_def add_tables_def checked_sub_def split: sum.split
        cong: option.case_cong sum.case_cong)
  show ?thesis
  proof (rule good_insert [OF good d1(1,2)])
    show "book_lookup S (book_at c ii) (o_id d) = None" using new(2) Lii d1(3) by simp
    show "o_priority e < o_priority d" if "book_lookup S (book_at c ii) k = Some e" for k e
      using prio [of k e] that Lii d1(9) pr by simp
    show "book_queue S (book_at c ii) (opposite (o_side d)) p = []"
      if "eligible (opposite (o_side d)) (o_price d) p" for p using clear that d1 by simp
  next
    assume "book_insert S (book_at c ii) d = Some (Inl CapacityExhausted)"
    then have "rest_order_with S ii ai cid sd price total_lots filled oid c = Some c1" by (simp add: run)
    moreover have "core_mid R S c1"
      by (rule core_midI [OF mid1(1-3) _ L1]) (use mid(4) L(2) mid1 in simp_all)
    ultimately show ?thesis by (rule that) (simp add: c1_def)
  next
    fix b assume b: "book_insert S (book_at c ii) d = Some (Inr b)" "book_good S b"
      "book_lookup S b = (book_lookup S (book_at c ii))(o_id d \<mapsto> d)"
    let ?c2 = "set_book ii b c1"
    let ?ip = "reserve_pos (o_side d) (open_lots d) (order_value d (open_lots d)) (pos_at ?c2 ai ii)"
    have ok: "order_ok ?c2 ii (o_id d) d"
      using ii ai new(3) d1 amounts(3) by (simp add: order_ok_def c1_def)
    have head2: "headroom R ?c2 (o_account d) ai ii (o_side d) (open_lots d) (order_value d (open_lots d))"
      using head d1 by (simp add: headroom_def c1_def order_value_def)
    note res = ledger_reserve [of ?c2 R L d ai ii, OF _ _ _ _ _ ok head2 refl]
    have prem: "shape ?c2" "ledger R ?c2 L" "\<And>i. L i (o_id d) = None"
      "tc_client_orders ?c2 (o_account d, o_client d) = None" "tc_account_index ?c2 (o_account d) = Some ai"
      using mid1(1) L1 new(1) client ai d1 by (simp_all add: c1_def)
    define c3 where "c3 = add_tables ai ii d (set_pos ai ii ?ip ?c2)"
    have "rest_order_with S ii ai cid sd price total_lots filled oid c = Some c3"
      using res(1) [OF prem] b(1) d1 by (simp add: run c3_def)
    moreover have su: "same_setup c c3"
      using tables_setup(2) [of c pr] set_book_setup [of c1 ii b] set_pos_setup [of ?c2 ai ii ?ip]
        tables_setup(5) [of _ ai ii d] unfolding c3_def c1_def by (meson same_setup_trans)
    moreover have "core_mid R S c3"
    proof (rule core_midI)
      have same: "tc_instruments c3 = tc_instruments ?c2" "tc_fault c3 = tc_fault c"
        by (simp_all add: c3_def add_tables_def c1_def)
      show "shape c3" using res(2) [OF prem] by (simp add: c3_def)
      have ii1: "ii < length (tc_instruments c1)" using ii by (simp add: c1_def)
      show "books_ok S c3"
        using books_ok_set_book [OF mid1(2) ii1 b(2)] by (simp add: books_ok_def same)
      show "caps_ok R c3" using caps_ok_setup [OF su] mid(3) by simp
      show "tc_fault c3 \<noteq> Some Accounting" using mid(4) same(2) by simp
      show "ledger R c3 (put ii (o_id d) (Some d) L)" using res(3) [OF prem] by (simp add: c3_def)
      have "lookups S c3 = lookups S ?c2" by (simp add: lookups_def book_at_def same fun_eq_iff)
      then have "lookups S c3 = put ii (o_id d) (Some d) (lookups S c)"
        using lookups_set_book [OF ii1, of S b] mid1(5) b(3) Lii by (simp add: put_def)
      then show "tc_fault c3 = None \<longrightarrow> put ii (o_id d) (Some d) L = lookups S c3"
        using L(2) same(2) by simp
    qed
    ultimately show ?thesis using that by blast
  qed
qed

section \<open>New orders\<close>

lemma exec_mid:
  assumes "books_ok S c" "caps_ok R c" "tc_fault c \<noteq> Some Accounting" "ii < length (tc_instruments c)"
    "book_good S b" "framed (set_book ii b c) c'" "shape c'" "ledger R c' L'"
    "tc_fault c' = None \<longrightarrow> L' = lookups S c'"
  shows "same_setup c c'" "books_ok S c'" "caps_ok R c'" "tc_fault c' \<noteq> Some Accounting" "core_mid R S c'"
proof -
  show su: "same_setup c c'" by (rule same_setup_trans [OF set_book_setup framed_setup [OF assms(6)]])
  show books: "books_ok S c'"
    using framed_books(1) [OF assms(6)] books_ok_set_book [OF assms(1,4,5)] by simp
  show caps: "caps_ok R c'" using caps_ok_setup [OF su] assms(2) by simp
  show fault: "tc_fault c' \<noteq> Some Accounting" using framedD(14) [OF assms(6)] assms(3) by auto
  show "core_mid R S c'" by (rule core_midI [OF assms(7) books caps fault assms(8,9)])
qed

text \<open>Executing an order and resting what is left of it.  \<open>base\<close> is what the order had filled before.\<close>

lemma exec_rest_ok:
  assumes c: "shape c" "books_ok S c" "caps_ok R c" "tc_fault c = None" and L: "ledger R c (lookups S c)"
    and ii: "ii < length (tc_instruments c)" and ai: "tc_account_index c a = Some ai"
    and new: "\<And>i. lookups S c i oid = None" "oid \<le> tc_next_order_id c"
    and client: "tc_client_orders c (a, cid) = None" and total_lots: "base + quantity < 2 ^ 64"
    and head: "headroom R c a ai ii sd quantity (quantity * unsigned_abs limit)"
  obtains filled c1 out1 where
    "execute S ii ai rq oid sd limit quantity c out = Some (filled, c1, out1)" "filled \<le> quantity"
    "core_mid R S c1" "same_setup c c1"
    "filled < quantity \<longrightarrow> in_signed 64 limit \<longrightarrow>
       (\<exists>c2. rest_order_with S ii ai cid sd limit (base + quantity) (base + filled) oid c1 = Some c2 \<and>
          core_mid R S c2 \<and> same_setup c1 c2)"
proof -
  have quantity: "quantity < 2 ^ 64" and fault: "tc_fault c \<noteq> Some Accounting" using total_lots c(4) by simp_all
  obtain filled b c1 out1 L1 where ex:
    "execute S ii ai rq oid sd limit quantity c out = Some (filled, c1, out1)" "filled \<le> quantity"
    "book_good S b" "framed (set_book ii b c) c1" "bk_capacity b = bk_capacity (book_at c ii)"
    "filled < quantity \<longrightarrow> (\<forall>p. eligible (opposite sd) limit p \<longrightarrow> book_queue S b (opposite sd) p = [])"
    "shape c1" "ledger R c1 L1" "tc_fault c1 = None \<longrightarrow> L1 = lookups S c1"
    "headroom R c1 a ai ii sd (quantity - filled) (quantity * unsigned_abs limit)"
    "\<forall>i. dom (L1 i) \<subseteq> dom (lookups S c i)"
    "\<forall>k e. book_lookup S b k = Some e \<longrightarrow> (\<exists>d. lookups S c ii k = Some d \<and> o_priority e = o_priority d)"
    by (rule execute_ok [OF c(1) L c(2) ii ai quantity head])
  note m1 = exec_mid [OF c(2,3) fault ii ex(3,4,7-9)]
  have at1: "book_at c1 ii = b" "lookups S c1 ii = book_lookup S b" "ii < length (tc_instruments c1)"
    using framed_books [OF ex(4)] framedD(2) [OF ex(4)] ii by (simp_all add: book_at_set_book lookups_set_book)
  have same1: "oid \<le> tc_next_order_id c1" "tc_next_priority c1 = tc_next_priority c"
    "tc_account_index c1 a = Some ai"
    using framedD(4,7,8) [OF ex(4)] ai new(2) by simp_all
  have client1: "tc_client_orders c1 (a, cid) = None"
    using framedD(13) [OF ex(4)] client by (cases "tc_client_orders c1 (a, cid)") (force simp: map_le_def)+
  have fresh: "L1 i oid = None" "lookups S c1 ii oid = None" for i
  proof -
    show "L1 i oid = None" using ex(11) new(1) [of i] by auto
    show "lookups S c1 ii oid = None"
      using ex(12) new(1) [of ii] at1(2) by (cases "lookups S c1 ii oid") fastforce+
  qed
  have prio: "o_priority e \<le> tc_next_priority c1" if "lookups S c1 ii k = Some e" for k e
    using ex(12) that at1(2) ledger_order(9) [OF L, of ii k] same1(2) by fastforce
  show ?thesis
  proof (rule that [OF ex(1,2) m1(5,1)], intro impI)
    assume lt: "filled < quantity" and price: "in_signed 64 limit"
    have amounts: "base + filled < base + quantity" using lt by simp
    have head1: "headroom R c1 a ai ii sd (base + quantity - (base + filled))
        ((base + quantity - (base + filled)) * unsigned_abs limit)"
      by (rule headroom_mono [OF ex(10)]) simp_all
    have clear: "book_queue S (book_at c1 ii) (opposite sd) p = []" if "eligible (opposite sd) limit p" for p
      using ex(6) lt that at1(1) by simp
    obtain c2 where "rest_order_with S ii ai cid sd limit (base + quantity) (base + filled) oid c1 = Some c2"
      "core_mid R S c2" "same_setup c1 c2"
      by (rule rest_order_with_ok [OF ex(7) m1(2-4) ex(8,9) at1(3) same1(3) fresh same1(1) client1 amounts
            total_lots price head1 prio clear])
    then show "\<exists>c2. rest_order_with S ii ai cid sd limit (base + quantity) (base + filled) oid c1 = Some c2 \<and>
        core_mid R S c2 \<and> same_setup c1 c2"
      by blast
  qed
qed

lemma check_new_order_view:
  assumes "check_new_order S c rq = Some (Inr ck)"
  shows "tc_account_index c (rq_account rq) = Some (cn_account_index ck)"
    "tc_instrument_index c (rq_instrument rq) = Some (cn_instrument_index ck)"
    "0 < rq_quantity rq" "rq_order_type rq = Limit \<Longrightarrow> cn_execution_limit ck = rq_price rq"
    "tc_client_orders c (rq_account rq, rq_client_order_id rq) = None"
    "check_exposure c (cn_account_index ck) (cn_instrument_index ck) (rq_side rq) (rq_quantity rq)
       (cn_execution_limit ck) 0 (cn_execution_limit ck) = Some (Inr ())"
  using assms
  by (cases "rq_order_type rq"; auto simp: check_new_order_def try_else_Inr_iff bind_convs check_quantity_def client_order_lookup_def
      split: if_splits)+

lemma check_new_order_total:
  assumes c: "shape c"
  shows "check_new_order S c rq \<noteq> None"
proof -
  note acc = shape_account(1) [OF c] and ins = shape_instrument [OF c]
  show ?thesis
    unfolding check_new_order_def
    by (intro try_else_total bind_total)
      (auto simp: idx_less dest!: acc ins intro!: check_quantity_total [OF c] check_price_total [OF c]
        check_trading_permitted_total check_client_sequence_total check_reference_price_total
        check_exposure_total [OF c, unfolded not_None_eq] split: order_type.split simp del: not_None_eq)
qed

lemma handle_new_ok:
  assumes mid: "core_mid R S c" and fault: "tc_fault c = None" and rq: "rq_ok rq"
  obtains r c' out' where "handle_new S rq c out = Some (r, c', out')" "core_mid R S c'" "same_setup c c'"
proof -
  note c = core_midD(1-3) [OF mid] and L = core_midD(5) [OF mid fault]
  obtain checked where checked: "check_new_order S c rq = Some checked"
    using check_new_order_total [OF c(1), of rq] by blast
  note result = that
  have quietly: thesis if "handle_new S rq c out = Some (r, c', out')" "core_mid R S c1" "same_setup c c1"
    "quiet c1 c'" for r c1 c' out'
    by (rule result [OF that(1) core_mid_quiet [OF that(2,4)]
          same_setup_trans [OF that(3) quiet_setup [OF that(4)]]])
  show ?thesis
  proof (cases checked)
    case (Inl reason)
    obtain r c' where r: "reject_report rq reason c = (r, c')" by (cases "reject_report rq reason c")
    show ?thesis
      by (rule quietly [OF _ mid _ quiet_reject_report [OF r]]) (simp_all add: handle_new_def checked Inl r)
  next
    case (Inr ck)
    let ?ai = "cn_account_index ck" and ?ii = "cn_instrument_index ck" and ?l = "cn_execution_limit ck"
    let ?a = "rq_account rq" and ?sd = "rq_side rq" and ?q = "rq_quantity rq"
    note view = check_new_order_view [OF checked [unfolded Inr]]
    note ii = shape_instrument [OF c(1) view(2)]
    show ?thesis
    proof (cases "counter_next (tc_next_order_id c)")
      case None
      let ?c = "set_fault SequenceExhausted c"
      obtain r c' where r: "reject_report rq reject_reason.CapacityExhausted ?c = (r, c')"
        by (cases "reject_report rq reject_reason.CapacityExhausted ?c")
      show ?thesis
        by (rule quietly [OF _ mid _ quiet_trans [OF _ quiet_reject_report [OF r]]])
          (use None r in \<open>simp_all add: handle_new_def checked Inr del: counter_next_None\<close>)
    next
      case (Some oid)
      then have oid: "oid = tc_next_order_id c + 1" by simp
      define c0 where "c0 = c\<lparr>tc_next_order_id := oid\<rparr>"
      have su0: "same_setup c c0" by (simp add: c0_def)
      have L0: "ledger R c0 (lookups S c0)"
        using ledger_counters [OF L, of c0 "tc_next_priority c" oid] by (simp add: c0_def oid)
      have c0: "shape c0" "books_ok S c0" "caps_ok R c0" "tc_fault c0 = None"
        "?ii < length (tc_instruments c0)" "tc_account_index c0 ?a = Some ?ai" "oid \<le> tc_next_order_id c0"
        "tc_client_orders c0 (?a, rq_client_order_id rq) = None"
        using c fault ii view(1,5) caps_ok_setup [OF su0] by (simp_all add: c0_def)
      have q: "0 + ?q < 2 ^ 64" "in_signed 64 (rq_price rq)" using rq by (simp_all add: rq_ok_def)
      have head: "headroom R c0 ?a ?ai ?ii ?sd ?q (?q * unsigned_abs ?l)"
        by (rule check_headroom [OF c(1,3) view(1) ii view(6)]) (simp add: c0_def)
      have ids: "lookups S c0 i oid = None" for i
        using ledger_order(8) [OF L, of i oid] by (cases "lookups S c0 i oid") (auto simp: c0_def oid)
      obtain filled c1 out1 where ex:
        "execute S ?ii ?ai rq oid ?sd ?l ?q c0 out = Some (filled, c1, out1)" "filled \<le> ?q"
        "core_mid R S c1" "same_setup c0 c1"
        "filled < ?q \<longrightarrow> in_signed 64 ?l \<longrightarrow>
           (\<exists>c2. rest_order_with S ?ii ?ai (rq_client_order_id rq) ?sd ?l (0 + ?q) (0 + filled) oid c1 = Some c2 \<and>
              core_mid R S c2 \<and> same_setup c1 c2)"
        by (rule exec_rest_ok [OF c0(1-4) L0 c0(5,6) ids c0(7,8) q(1) head])
      have su1: "same_setup c c1" by (rule same_setup_trans [OF su0 ex(4)])
      have run: "handle_new S rq c out =
          (if ?q - filled = 0 then
             (let (r, c') = terminal_report rq oid RepFilled filled c1 in Some (r, c', out1))
           else if rq_order_type rq = Market then
             (let (r, c') = cancelled_report rq oid ?q filled c1 in Some (r, c', out1))
           else do {
             c2 \<leftarrow> rest_order S ?ii ?ai rq oid ?q filled c1;
             (let (r, c3) = base_report rq oid c2
              in Some (r\<lparr>er_kind := RepAccepted, er_state := working_state filled,
                er_cumulative_filled := filled, er_remaining := ?q - filled\<rparr>, c3, out1))
           })"
        using Some ex(1,2)
        by (simp add: handle_new_def checked Inr c0_def [symmetric] checked_sub_def del: counter_next_Some)
      show ?thesis
      proof (cases "?q - filled = 0 \<or> rq_order_type rq = Market")
        case True
        obtain rt ct where t: "terminal_report rq oid RepFilled filled c1 = (rt, ct)"
          by (cases "terminal_report rq oid RepFilled filled c1")
        obtain rc cc where cc: "cancelled_report rq oid ?q filled c1 = (rc, cc)"
          by (cases "cancelled_report rq oid ?q filled c1")
        have "(\<exists>r. handle_new S rq c out = Some (r, ct, out1)) \<or> (\<exists>r. handle_new S rq c out = Some (r, cc, out1))"
          using True by (auto simp: run t cc)
        then show ?thesis
          using quietly [OF _ ex(3) su1] quiet_terminal_report [OF t] quiet_cancelled_report [OF cc] by blast
      next
        case False
        then have lt: "filled < ?q" "?l = rq_price rq"
          using ex(2) view(4) by (auto, cases "rq_order_type rq", simp_all)
        with ex(5) q(2) obtain c2 where c2: "rest_order S ?ii ?ai rq oid ?q filled c1 = Some c2"
          "core_mid R S c2" "same_setup c1 c2" by (auto simp: rest_order_def)
        obtain r c3 where r: "base_report rq oid c2 = (r, c3)" by (cases "base_report rq oid c2")
        show ?thesis
          by (rule quietly [OF _ c2(2) same_setup_trans [OF su1 c2(3)] quiet_base_report [OF r]])
            (use False c2(1) r in \<open>auto simp: run\<close>)
      qed
    qed
  qed
qed

end

end
