(* ===== verification/Core_Replace.thy ===== *)
theory Core_Replace
  imports Core_Handlers
begin

text \<open>
  Cancel and replace (\<open>handle_cancel\<close>, \<open>handle_replace\<close> in \<open>trading-core/src/core.rs\<close>): both withdraw
  open lots of a resting order, a replace then keeps the shrunk order in place or executes and rests
  it again.  From a state with the invariant both return, and the invariant holds again.
\<close>

lemma set_pos_set_book: "set_pos ai ii ip (set_book j b c) = set_book j b (set_pos ai ii ip c)"
  by (simp add: set_pos_def set_book_def)

lemma set_book_drop: "set_book ii b (drop_order_entry oid key c) = drop_order_entry oid key (set_book ii b c)"
  by (simp add: set_book_def drop_order_entry_def)

lemma order_of_fields [simp]:
  "o_id (order_of n) = o_id n" "o_account (order_of n) = o_account n" "o_client (order_of n) = o_client n"
  "o_side (order_of n) = o_side n" "o_price (order_of n) = o_price n" "o_total (order_of n) = o_total n"
  "o_filled (order_of n) = o_filled n" "open_lots (order_of n) = open_lots n"
  by (simp_all add: order_of_def new_order.defs open_lots_def)

context slab_store
begin

section \<open>Withdrawing open lots\<close>

lemma withdraw_ok:
  assumes mid: "core_mid R S c" and fault: "tc_fault c = None" and d: "lookups S c ii oid = Some d"
    and v: "shrinks d l v" and ai: "tc_account_index c (o_account d) = Some ai"
    and b: "book_good S b" "book_lookup S b = (book_lookup S (book_at c ii))(oid := v)"
    and c1: "c1 = set_pos ai ii (release_pos (o_side d) l (order_value d l) (pos_at c ai ii)) (set_book ii b c)"
    and c2: "c2 = settle_tables oid d v c1"
  shows "release_reservation ai ii (o_side d) l (o_price d) (set_book ii b c) = Some c1"
    "release_reservation ai ii (o_side d) l (o_price d) c =
       Some (set_pos ai ii (release_pos (o_side d) l (order_value d l) (pos_at c ai ii)) c)"
    "core_mid R S c2" "tc_fault c2 = None" "same_setup c c2" "lookups S c2 = put ii oid v (lookups S c)"
proof -
  note L = core_midD(5) [OF mid fault] and m = core_midD [OF mid]
  note ii = ledger_order(1) [OF L d]
  have Lb: "lookups S (set_book ii b c) = put ii oid v (lookups S c)"
    using b(2) ii by (auto simp: lookups_set_book put_def lookups_def fun_eq_iff)
  have L1: "ledger R (set_book ii b c) (lookups S c)" and s1: "shape (set_book ii b c)" using L m(1) by simp_all
  note r = ledger_release [OF s1 L1 d v, of ai c1]
  have rel: "release_reservation ai ii (o_side d) l (o_price d) (set_book ii b c) = Some c1" "shape c1"
      "ledger R c2 (put ii oid v (lookups S c))"
    using r ai c1 c2 by simp_all
  show "release_reservation ai ii (o_side d) l (o_price d) (set_book ii b c) = Some c1" by (rule rel(1))
  show "release_reservation ai ii (o_side d) l (o_price d) c =
       Some (set_pos ai ii (release_pos (o_side d) l (order_value d l) (pos_at c ai ii)) c)"
    by (rule ledger_release(1) [OF m(1) L d v ai refl])
  show su: "same_setup c c2"
    unfolding c1 c2 by (intro same_setup_trans [OF set_book_setup same_setup_trans [OF set_pos_setup tables_setup(4)]])
  show lk: "lookups S c2 = put ii oid v (lookups S c)" unfolding c1 c2 by (simp add: Lb)
  show f2: "tc_fault c2 = None" using fault by (simp add: c1 c2)
  show "core_mid R S c2"
  proof (rule core_midI)
    show "shape c2" using rel(2) by (simp add: c2)
    show "books_ok S c2" using books_ok_set_book [OF m(2) ii b(1)] by (simp add: c1 c2)
    show "caps_ok R c2" using caps_ok_setup [OF su] m(3) by simp
    show "ledger R c2 (lookups S c2)" using rel(3) lk by simp
  qed (use f2 in simp_all)
qed

lemma resting_account:
  assumes L: "ledger R c (lookups S c)" and key: "tc_client_orders c (a, cid) = Some oid"
    and d: "lookups S c ii oid = Some d"
  shows "o_account d = a" "o_client d = cid"
proof -
  obtain i e where e: "lookups S c i oid = Some e" "o_account e = a" "o_client e = cid"
    using clientD [OF ledgerD(3) [OF L]] key by blast
  then show "o_account d = a" "o_client d = cid"
    using resting_unique(2) [OF ledgerD(1,2) [OF L] e(1) d] by simp_all
qed

section \<open>Cancel\<close>

lemma handle_cancel_ok:
  assumes mid: "core_mid R S c" and fault: "tc_fault c = None"
  obtains r c' where "handle_cancel S rq c = Some (r, c')" "core_mid R S c'" "same_setup c c'"
proof -
  note L = core_midD(5) [OF mid fault] and m = core_midD [OF mid]
  let ?key = "(rq_account rq, rq_target_client_order_id rq)"
  note result = that
  have quietly: thesis if "handle_cancel S rq c = Some (r, c')" "core_mid R S c1" "same_setup c c1" "quiet c1 c'"
    for r c1 c'
    by (rule result [OF that(1) core_mid_quiet [OF that(2,4)] same_setup_trans [OF that(3) quiet_setup [OF that(4)]]])
  show ?thesis
  proof (cases "tc_account_index c (rq_account rq) = None \<or> tc_client_orders c ?key = None \<or>
      (\<exists>oid. tc_client_orders c ?key = Some oid \<and> tc_live_orders c oid = None)")
    case True
    then have "\<exists>reason. handle_cancel S rq c = Some (reject_report rq reason c)"
      by (cases "tc_account_index c (rq_account rq)") (auto simp: handle_cancel_def)
    then show ?thesis
      using quietly [OF _ mid same_setup_refl quiet_reject_report] by (metis surj_pair)
  next
    case False
    then obtain oid lo ai where key: "tc_client_orders c ?key = Some oid" and lo: "tc_live_orders c oid = Some lo"
      and acc: "tc_account_index c (rq_account rq) = Some ai" by auto
    let ?ii = "lo_instrument_index lo" and ?ai = "lo_account_index lo"
    obtain d where d: "lookups S c ?ii oid = Some d" "tc_account_index c (o_account d) = Some ?ai"
      using liveD [OF ledgerD(2) [OF L]] lo by blast
    note ii = ledger_order(1) [OF L d(1)]
    have good: "book_good S (book_at c ?ii)" by (rule books_okD(1) [OF m(2) ii])
    have lk: "book_lookup S (book_at c ?ii) oid = Some d" using d(1) ii by (simp add: lookups_def)
    obtain nd b where rm: "book_remove S (book_at c ?ii) oid = Some (Some nd, b)" "order_of nd = d" "book_good S b"
      "book_lookup S b = (book_lookup S (book_at c ?ii))(oid := None)"
      by (rule good_remove [OF good lk])
    have sh: "shrinks d (open_lots d) None" by (simp add: shrinks_def)
    note w = withdraw_ok [OF mid fault d(1) sh d(2) rm(3,4) refl refl]
    have own: "(o_account d, o_client d) = ?key" using resting_account [OF L key d(1)] by simp
    have nd: "o_side nd = o_side d" "o_price nd = o_price d" "remaining nd = Some (open_lots d)"
      using rm(2) ledger_order(3) [OF L d(1)] by auto
    let ?c2 = "settle_tables oid d None (set_pos ?ai ?ii
      (release_pos (o_side d) (open_lots d) (order_value d (open_lots d)) (pos_at c ?ai ?ii)) (set_book ?ii b c))"
    obtain rep c3 where rep: "base_report rq oid ?c2 = (rep, c3)" by (cases "base_report rq oid ?c2")
    have tables: "?c2 = drop_order_entry oid ?key (set_pos ?ai ?ii
        (release_pos (o_side d) (open_lots d) (order_value d (open_lots d)) (pos_at c ?ai ?ii)) (set_book ?ii b c))"
      by (simp add: settle_tables_def own)
    have "\<exists>r. handle_cancel S rq c = Some (r, c3)"
      using acc key lo ii rm(1) nd w(1) rep [unfolded tables]
      by (simp add: handle_cancel_def idx_less book_at_def [symmetric] del: remaining_Some)
    then show ?thesis using quietly [OF _ w(3,5) quiet_base_report [OF rep]] by blast
  qed
qed

section \<open>Replace\<close>

lemma check_replace_view:
  assumes "check_replace S c rq = Some (Inr ck)"
  shows "tc_account_index c (rq_account rq) = Some (ck_account_index ck)"
    "tc_instrument_index c (rq_instrument rq) = Some (ck_instrument_index ck)"
    "tc_client_orders c (rq_account rq, rq_target_client_order_id rq) = Some (ck_order_id ck)"
    "book_get S (book_at c (ck_instrument_index ck)) (ck_order_id ck) = Some (Some (ck_existing ck))"
    "rq_side rq = o_side (ck_existing ck)" "0 < rq_quantity rq" "o_filled (ck_existing ck) \<le> rq_quantity rq"
    "check_exposure c (ck_account_index ck) (ck_instrument_index ck) (o_side (ck_existing ck))
       (rq_quantity rq - o_filled (ck_existing ck)) (rq_price rq) (open_lots (ck_existing ck))
       (o_price (ck_existing ck)) = Some (Inr ())"
  using assms
  by (auto simp: check_replace_def try_else_Inr_iff bind_convs client_order_lookup_def idx_def book_at_def Let_def
      split: if_splits)

lemma got_order:
  assumes mid: "core_mid R S c" and ii: "ii < length (tc_instruments c)"
  obtains r where "book_get S (book_at c ii) oid = Some r" "map_option order_of r = lookups S c ii oid"
proof -
  obtain Q where rep: "book_rep S (book_at c ii) Q"
    by (rule good_rep [OF books_okD(1) [OF core_midD(2) [OF mid] ii]])
  show ?thesis using book_get_ok [OF rep, of oid] that ii by (auto simp: lookups_def)
qed

lemma check_replace_total:
  assumes mid: "core_mid R S c" and fault: "tc_fault c = None"
  shows "check_replace S c rq \<noteq> None"
proof -
  note c = core_midD(1) [OF mid] and L = core_midD(5) [OF mid fault]
  note acc = shape_account(1) [OF c] and ins = shape_instrument [OF c]
  have got: "\<exists>r. book_get S (ir_book (tc_instruments c ! ii)) oid = Some r"
    and left: "book_get S (ir_book (tc_instruments c ! ii)) oid = Some (Some n) \<Longrightarrow> o_filled n \<le> o_total n"
    if ii: "ii < length (tc_instruments c)" for ii oid n
  proof -
    obtain r where r: "book_get S (book_at c ii) oid = Some r" "map_option order_of r = lookups S c ii oid"
      by (rule got_order [OF mid ii])
    then show "\<exists>r. book_get S (ir_book (tc_instruments c ! ii)) oid = Some r"
      "book_get S (ir_book (tc_instruments c ! ii)) oid = Some (Some n) \<Longrightarrow> o_filled n \<le> o_total n"
      using ledger_order(3) [OF L, of ii oid "order_of n"] by (auto simp: book_at_def)
  qed
  have lots: "\<exists>m. rem_unsigned q (ic_lot_size (ir_config (tc_instruments c ! ii))) = Some m"
    if "ii < length (tc_instruments c)" for ii q
    using shape_divisors(2) [OF c that] by (simp add: rem_unsigned_def)
  show ?thesis
    unfolding check_replace_def Let_def
    by (intro try_else_total bind_total)
      (auto simp: idx_less dest!: acc ins dest: left intro!: got lots check_price_total [OF c, unfolded not_None_eq]
        check_trading_permitted_total [unfolded not_None_eq] check_client_sequence_total [unfolded not_None_eq]
        check_reference_price_total [unfolded not_None_eq] check_exposure_total [OF c, unfolded not_None_eq])
qed

lemma replace_in_place_ok:
  assumes mid: "core_mid R S c" and fault: "tc_fault c = None" and d: "lookups S c ii oid = Some (order_of e)"
    and ai: "tc_account_index c (rq_account rq) = Some ai" and own: "o_account e = rq_account rq"
    and q: "o_filled e \<le> rq_quantity rq" "rq_quantity rq < o_total e"
  obtains r c' where "replace_in_place S rq ai ii oid e c = Some (r, c')" "core_mid R S c'" "same_setup c c'"
proof -
  note L = core_midD(5) [OF mid fault] and m = core_midD [OF mid]
  note ii = ledger_order(1) [OF L d]
  have good: "book_good S (book_at c ii)" by (rule books_okD(1) [OF m(2) ii])
  have lk: "book_lookup S (book_at c ii) oid = Some (order_of e)" using d ii by (simp add: lookups_def)
  have ai': "tc_account_index c (o_account (order_of e)) = Some ai" using ai own by simp
  let ?l = "o_total e - rq_quantity rq"
  define p where "p = release_pos (o_side e) ?l (order_value (order_of e) ?l) (pos_at c ai ii)"
  have sub: "checked_sub (o_total e) (rq_quantity rq) = Some ?l"
    "checked_sub (rq_quantity rq) (o_filled e) = Some (rq_quantity rq - o_filled e)"
    using q by (simp_all add: checked_sub_def)
  note result = that
  have quietly: thesis if "replace_in_place S rq ai ii oid e c = Some (r, c')" "core_mid R S c1" "same_setup c c1"
    "quiet c1 c'" for r c1 c'
    by (rule result [OF that(1) core_mid_quiet [OF that(2,4)] same_setup_trans [OF that(3) quiet_setup [OF that(4)]]])
  show ?thesis
  proof (cases "rq_quantity rq = o_filled e")
    case True
    obtain b1 nd b where rm: "reduce_total S (book_at c ii) oid (rq_quantity rq) = Some b1"
      "book_remove S b1 oid = Some (Some nd, b)" "book_good S b"
      "book_lookup S b = (book_lookup S (book_at c ii))(oid := None)"
      by (rule good_reduce_remove [OF good lk, of "rq_quantity rq"]) (use q in simp_all)
    have sh: "shrinks (order_of e) ?l None" using True by (simp add: shrinks_def) (simp add: open_lots_def)
    note w = withdraw_ok [OF mid fault d sh ai' rm(3,4) refl refl, simplified, folded p_def]
    let ?c2 = "drop_order_entry oid (rq_account rq, o_client e) (set_book ii b (set_pos ai ii p c))"
    have c2: "settle_tables oid (order_of e) None (set_pos ai ii p (set_book ii b c)) = ?c2"
      by (simp add: settle_tables_def own set_pos_set_book)
    obtain rep c3 where rep: "replace_cancelled_report rq oid e ?c2 = (rep, c3)"
      by (cases "replace_cancelled_report rq oid e ?c2")
    have "replace_in_place S rq ai ii oid e c = Some (rep, c3)"
      using True sub(1) w(2) rm(1,2) ii rep
      by (simp add: replace_in_place_def idx_less book_at_def del: checked_sub_Some)
    then show ?thesis
      using quietly [OF _ _ _ quiet_replace_cancelled_report [OF rep]] w(3,5) unfolding c2 by blast
  next
    case False
    then have lt: "o_filled (order_of e) < rq_quantity rq" using q by simp
    let ?d = "(order_of e)\<lparr>o_total := rq_quantity rq\<rparr>"
    obtain b where rm: "reduce_total S (book_at c ii) oid (rq_quantity rq) = Some b" "book_good S b"
      "book_lookup S b = (book_lookup S (book_at c ii))(oid \<mapsto> ?d)"
      by (rule good_reduce [OF good lk lt]) (use q in simp_all)
    have sh: "shrinks (order_of e) ?l (Some ?d)" using lt q by (simp add: shrinks_def) (simp add: open_lots_def)
    note w = withdraw_ok [OF mid fault d sh ai' rm(2,3) refl refl, simplified, folded p_def]
    let ?c2 = "set_book ii b (set_pos ai ii p c)"
    have c2: "settle_tables oid (order_of e) (Some ?d) (set_pos ai ii p (set_book ii b c)) = ?c2"
      by (simp add: settle_tables_def set_pos_set_book)
    obtain rep c3 where rep: "base_report rq oid ?c2 = (rep, c3)" by (cases "base_report rq oid ?c2")
    have "\<exists>r. replace_in_place S rq ai ii oid e c = Some (r, c3)"
      using False sub w(2) rm(1) ii rep by (simp add: replace_in_place_def idx_less book_at_def del: checked_sub_Some)
    then show ?thesis using quietly [OF _ _ _ quiet_base_report [OF rep]] w(3,5) unfolding c2 by blast
  qed
qed

lemma replace_requeue_ok:
  assumes mid: "core_mid R S c" and fault: "tc_fault c = None" and d: "lookups S c ii oid = Some (order_of e)"
    and ai: "tc_account_index c (rq_account rq) = Some ai" and own: "o_account e = rq_account rq"
    and q: "o_filled e \<le> rq_quantity rq" and rq: "rq_ok rq"
    and ok: "check_exposure c ai ii (o_side e) (rq_quantity rq - o_filled e) (rq_price rq) (open_lots e)
       (o_price e) = Some (Inr ())"
  obtains r c' out' where "replace_requeue S rq ai ii oid e c out = Some (r, c', out')" "core_mid R S c'"
    "same_setup c c'"
proof -
  note L = core_midD(5) [OF mid fault] and m = core_midD [OF mid]
  note ii = ledger_order(1) [OF L d]
  have good: "book_good S (book_at c ii)" by (rule books_okD(1) [OF m(2) ii])
  have lk: "book_lookup S (book_at c ii) oid = Some (order_of e)" using d ii by (simp add: lookups_def)
  have ai': "tc_account_index c (o_account (order_of e)) = Some ai" using ai own by simp
  have e: "remaining e = Some (open_lots e)" using ledger_order(3) [OF L d] by simp
  have sub: "checked_sub (rq_quantity rq) (o_filled e) = Some (rq_quantity rq - o_filled e)"
    using q by (simp add: checked_sub_def)
  obtain nd b where rm: "book_remove S (book_at c ii) oid = Some (Some nd, b)" "book_good S b"
    "book_lookup S b = (book_lookup S (book_at c ii))(oid := None)"
    by (rule good_remove [OF good lk])
  have sh: "shrinks (order_of e) (open_lots e) None" by (simp add: shrinks_def)
  define p where "p = release_pos (o_side e) (open_lots e) (order_value (order_of e) (open_lots e)) (pos_at c ai ii)"
  define c1 where "c1 = set_pos ai ii p (set_book ii b c)"
  define c2 where "c2 = drop_order_entry oid (rq_account rq, o_client e) c1"
  have w: "release_reservation ai ii (o_side e) (open_lots e) (o_price e) (set_book ii b c) = Some c1"
    "core_mid R S c2" "tc_fault c2 = None" "same_setup c c2" "lookups S c2 = put ii oid None (lookups S c)"
    using withdraw_ok [OF mid fault d sh ai' rm(2,3) refl refl]
    by (simp_all add: c1_def c2_def p_def settle_tables_def own)
  note result = that
  have quietly: thesis if "replace_requeue S rq ai ii oid e c out = Some (r, c', out')" "core_mid R S c1"
    "same_setup c c1" "quiet c1 c'" for r c1 c' out'
    by (rule result [OF that(1) core_mid_quiet [OF that(2,4)] same_setup_trans [OF that(3) quiet_setup [OF that(4)]]])
  show ?thesis
  proof (cases "rq_quantity rq = o_filled e")
    case True
    obtain rep c3 where rep: "replace_cancelled_report rq oid e c2 = (rep, c3)"
      by (cases "replace_cancelled_report rq oid e c2")
    have "replace_requeue S rq ai ii oid e c out = Some (rep, c3, out)"
      using True ii rm(1) w(1) e rep
      by (simp add: replace_requeue_def idx_less book_at_def [symmetric] c2_def del: remaining_Some)
    then show ?thesis using quietly [OF _ w(2,4) quiet_replace_cancelled_report [OF rep]] by blast
  next
    case False
    let ?q = "rq_quantity rq - o_filled e"
    note m2 = core_midD(1-3) [OF w(2)] and L2 = core_midD(5) [OF w(2,3)]
    have total_lots: "o_filled e + ?q < 2 ^ 64" "in_signed 64 (rq_price rq)" using rq q by (simp_all add: rq_ok_def)
    have head: "headroom R c2 (rq_account rq) ai ii (o_side e) ?q (?q * unsigned_abs (rq_price rq))"
      by (rule check_headroom [OF m(1,3) ai ii ok])
        (use shape_account(1,3) [OF m(1) ai] ii in \<open>simp add: c2_def c1_def p_def order_value_def pos_at_set_pos\<close>)
    have new: "lookups S c2 i oid = None" for i
      using resting_unique(1) [OF ledgerD(1,2) [OF L] d, of i]
      by (cases "lookups S c i oid") (auto simp: w(5) put_apply)
    have c2: "ii < length (tc_instruments c2)" "tc_account_index c2 (rq_account rq) = Some ai"
      "oid \<le> tc_next_order_id c2" "tc_client_orders c2 (rq_account rq, o_client e) = None"
      using ii ai ledger_order(8) [OF L d] by (simp_all add: c2_def c1_def) (simp add: drop_order_entry_def)
    obtain filled c3 out1 where ex:
      "execute S ii ai rq oid (o_side e) (rq_price rq) ?q c2 out = Some (filled, c3, out1)" "filled \<le> ?q"
      "core_mid R S c3" "same_setup c2 c3"
      "filled < ?q \<longrightarrow> in_signed 64 (rq_price rq) \<longrightarrow>
         (\<exists>c4. rest_order_with S ii ai (o_client e) (o_side e) (rq_price rq) (o_filled e + ?q) (o_filled e + filled) oid
            c3 = Some c4 \<and> core_mid R S c4 \<and> same_setup c3 c4)"
      by (rule exec_rest_ok [OF m2 w(3) L2 c2(1,2) new c2(3,4) total_lots(1) head])
    have su3: "same_setup c c3" by (rule same_setup_trans [OF w(4) ex(4)])
    have sums: "checked_add 64 (o_filled e) filled = Some (o_filled e + filled)" "o_filled e + ?q = rq_quantity rq"
      "checked_sub (rq_quantity rq) (o_filled e + filled) = Some (?q - filled)"
      using ex(2) total_lots(1) q by (simp_all add: checked_add_def checked_sub_def)
    note run = replace_requeue_def [of S rq ai ii oid e c out]
    note facts = False ii rm(1) w(1) e sub ex(1) sums
    show ?thesis
    proof (cases "filled = ?q")
      case True
      obtain rep c4 where rep: "base_report rq oid c3 = (rep, c4)" by (cases "base_report rq oid c3")
      have "\<exists>r. replace_requeue S rq ai ii oid e c out = Some (r, c4, out1)"
        using facts True rep
        by (simp add: run idx_less book_at_def [symmetric] c2_def [symmetric]
            del: remaining_Some checked_sub_Some checked_add_Some)
      then show ?thesis using quietly [OF _ ex(3) su3 quiet_base_report [OF rep]] by blast
    next
      case lt: False
      then obtain c4 where c4: "rest_order_with S ii ai (o_client e) (o_side e) (rq_price rq) (rq_quantity rq)
          (o_filled e + filled) oid c3 = Some c4" "core_mid R S c4" "same_setup c3 c4"
        using ex(2,5) total_lots(2) sums(2) by auto
      have ne: "o_filled e + filled \<noteq> rq_quantity rq" using lt sums(2) by simp
      obtain rep c5 where rep: "base_report rq oid c4 = (rep, c5)" by (cases "base_report rq oid c4")
      have "\<exists>r. replace_requeue S rq ai ii oid e c out = Some (r, c5, out1)"
        using facts ne c4(1) rep
        by (simp add: run idx_less book_at_def [symmetric] c2_def [symmetric]
            del: remaining_Some checked_sub_Some checked_add_Some)
      then show ?thesis
        using quietly [OF _ c4(2) same_setup_trans [OF su3 c4(3)] quiet_base_report [OF rep]] by blast
    qed
  qed
qed

lemma handle_replace_ok:
  assumes mid: "core_mid R S c" and fault: "tc_fault c = None" and rq: "rq_ok rq"
  obtains r c' out' where "handle_replace S rq c out = Some (r, c', out')" "core_mid R S c'" "same_setup c c'"
proof -
  note L = core_midD(5) [OF mid fault]
  obtain checked where checked: "check_replace S c rq = Some checked"
    using check_replace_total [OF mid fault, of rq] by blast
  show ?thesis
  proof (cases checked)
    case (Inl reason)
    obtain r c' where r: "reject_report rq reason c = (r, c')" by (cases "reject_report rq reason c")
    have q: "quiet c c'" by (rule quiet_reject_report [OF r])
    show ?thesis
      by (rule that [OF _ core_mid_quiet [OF mid q] quiet_setup [OF q]])
        (simp add: handle_replace_def checked Inl r)
  next
    case (Inr ck)
    let ?e = "ck_existing ck" and ?ii = "ck_instrument_index ck" and ?oid = "ck_order_id ck"
    note view = check_replace_view [OF checked [unfolded Inr]]
    note ii = shape_instrument [OF core_midD(1) [OF mid] view(2)]
    obtain r where "book_get S (book_at c ?ii) ?oid = Some r" "map_option order_of r = lookups S c ?ii ?oid"
      by (rule got_order [OF mid ii])
    then have d: "lookups S c ?ii ?oid = Some (order_of ?e)" using view(4) by auto
    have own: "o_account ?e = rq_account rq" using resting_account(1) [OF L view(3) d] by simp
    show ?thesis
    proof (cases "rq_price rq = o_price ?e \<and> rq_quantity rq < o_total ?e")
      case True
      then have lt: "rq_quantity rq < o_total ?e" by simp
      obtain r c' where "replace_in_place S rq (ck_account_index ck) ?ii ?oid ?e c = Some (r, c')"
        "core_mid R S c'" "same_setup c c'"
        by (rule replace_in_place_ok [OF mid fault d view(1) own view(7) lt])
      with True show ?thesis using that by (simp add: handle_replace_def checked Inr)
    next
      case False
      obtain r c' out' where run: "replace_requeue S rq (ck_account_index ck) ?ii ?oid ?e c out = Some (r, c', out')"
        "core_mid R S c'" "same_setup c c'"
        by (rule replace_requeue_ok [OF mid fault d view(1) own view(7) rq view(8)])
      have "handle_replace S rq c out = Some (r, c', out')"
        using False run(1) by (auto simp: handle_replace_def checked Inr Let_def)
      then show ?thesis by (rule that [OF _ run(2,3)])
    qed
  qed
qed

end

end
