(* ===== verification/Core_Apply.thy ===== *)
theory Core_Apply
  imports Core_Replace
begin

text \<open>
  Every input of the engine (\<open>core_apply\<close>, \<open>trading-core/src/core.rs\<close>): the request cache, the
  control commands and market data keep the invariant, and so does every run from a new engine.
\<close>

definition input_ok :: "caps \<Rightarrow> engine_input \<Rightarrow> bool" where
  "input_ok R i =
     (case in_event i of
        OrderInput rq \<Rightarrow> rq_ok rq
      | ControlInput (SetAccountLimits a l) \<Rightarrow>
          (\<forall>sd. min (room sd) (int (lim_max_position_lots l)) \<le> R a sd)
      | _ \<Rightarrow> True)"

definition config_ok :: "caps \<Rightarrow> engine_config \<Rightarrow> bool" where
  "config_ok R config \<longleftrightarrow>
     (\<forall>ic \<in> set (ec_instruments config). 0 < ic_tick_size ic \<and> 0 < ic_lot_size ic) \<and>
     (\<forall>a \<in> set (ec_accounts config). \<forall>sd. min (room sd) (int (lim_max_position_lots (acf_limits a))) \<le> R (acf_id a) sd) \<and>
     (\<forall>a sd. R a sd \<le> room sd)"

section \<open>Account and market updates\<close>

lemma ledger_positions:
  assumes c: "shape c" and L: "ledger R c L" and c': "c' = c\<lparr>tc_accounts := as\<rparr>"
    and as: "length as = length (tc_accounts c)"
      "\<And>k. k < length as \<Longrightarrow> ac_positions (as ! k) = ac_positions (tc_accounts c ! k)"
  shows "ledger R c' L"
proof -
  have pos: "pos_at c' k j = pos_at c k j" if "k < length (tc_accounts c)" for k j
    using as that by (simp add: c' pos_at_def)
  have net: "net_position c' j = net_position c j" for j
    unfolding net_position_def by (rule sum.cong) (simp_all add: c' as(1) pos [unfolded c'])
  have "pos_ok R (L ii) a (pos_at c' ai ii)"
    if "tc_account_index c a = Some ai" "ii < length (tc_instruments c)" for a ai ii
    using ledgerD(4) [OF L] that pos [OF shape_account(1) [OF c that(1)]] by (simp add: positions_ok_def)
  then have "positions_ok R c' L" by (simp add: positions_ok_def c')
  moreover have "orders_ok c' L" "live_ok c' L" "clients_ok c' L"
    using ledgerD(1-3) [OF L] by (simp_all add: orders_ok_def order_ok_def live_ok_def clients_ok_def c')
  ultimately show ?thesis using L net by (simp add: ledger_def c')
qed

lemma caps_okD:
  assumes "caps_ok R c" "shape c" "tc_account_index c a = Some ai"
  shows "min (room sd) (int (lim_max_position_lots (ac_limits (tc_accounts c ! ai)))) \<le> R a sd"
  using assms(1,3) shape_account(1) [OF assms(2,3)] unfolding caps_ok_def by (metis nth_map)

lemma core_mid_account:
  assumes mid: "core_mid R S c" and ai: "ai < length (tc_accounts c)"
    and a: "ac_id a = ac_id (tc_accounts c ! ai)" "ac_positions a = ac_positions (tc_accounts c ! ai)"
      "cache_ok (ac_cache a)"
    and lim: "\<And>sd. tc_account_index c (ac_id a) = Some ai \<Longrightarrow>
        min (room sd) (int (lim_max_position_lots (ac_limits a))) \<le> R (ac_id a) sd"
    and c': "c' = c\<lparr>tc_accounts := (tc_accounts c)[ai := a]\<rparr>"
  shows "core_mid R S c'"
proof -
  note m = core_midD [OF mid]
  obtain L where L: "ledger R c L" "tc_fault c = None \<longrightarrow> L = lookups S c" by (rule core_mid_ledger [OF mid])
  have nth: "tc_accounts c' ! k = (if k = ai then a else tc_accounts c ! k)" for k
    using ai by (simp add: c')
  show ?thesis
  proof (rule core_midI)
    show "shape c'"
      by (rule shape_accounts [OF m(1)])
        (use a shapeD(2) [OF m(1)] in \<open>simp_all add: nth\<close>, simp_all add: c')
    show "books_ok S c'" using m(2) by (simp add: books_ok_def c')
    show "caps_ok R c'"
      unfolding caps_ok_def
    proof (intro allI impI)
      fix b bi sd
      assume "tc_account_index c' b = Some bi"
      then have b: "tc_account_index c b = Some bi" by (simp add: c')
      note bi = shape_account(1,2) [OF m(1) b]
      have "min (room sd) (int (lim_max_position_lots (ac_limits (tc_accounts c' ! bi)))) \<le> R b sd"
      proof (cases "bi = ai")
        case True
        then have "ac_id a = b" using a(1) bi(2) by simp
        then show ?thesis using lim [of sd] b True nth by simp
      next
        case False
        then show ?thesis using caps_okD [OF m(3,1) b, of sd] nth by simp
      qed
      then show "min (room sd) (int (lim_max_position_lots (map ac_limits (tc_accounts c') ! bi))) \<le> R b sd"
        using bi(1) by (simp add: c' del: map_update)
    qed
    show "tc_fault c' \<noteq> Some Accounting" using m(4) by (simp add: c')
    show "ledger R c' L" by (rule ledger_positions [OF m(1) L(1) c']) (use a ai in \<open>auto simp: nth_list_update\<close>)
    show "tc_fault c' = None \<longrightarrow> L = lookups S c'"
      using L(2) by (simp add: c' lookups_def book_at_def fun_eq_iff)
  qed
qed

lemma core_mid_market:
  assumes mid: "core_mid R S c" and ii: "ii < length (tc_instruments c)" and v: "mv_ok v"
    and c': "c' = c\<lparr>tc_instruments := (tc_instruments c)[ii := (tc_instruments c ! ii)\<lparr>ir_market := v\<rparr>]\<rparr>"
  shows "core_mid R S c'"
proof -
  note m = core_midD [OF mid]
  obtain L where L: "ledger R c L" "tc_fault c = None \<longrightarrow> L = lookups S c" by (rule core_mid_ledger [OF mid])
  have books: "book_at c' i = book_at c i" for i
    using ii by (cases "i = ii") (simp_all add: c' book_at_def)
  show ?thesis
  proof (rule core_midI)
    have "map ir_config (tc_instruments c') = map ir_config (tc_instruments c)"
      using ii by (simp add: c' map_update list_update_same_conv)
    then show "shape c'" using m(1) shape_instruments [of c' c] by (simp add: c')
    show "books_ok S c'"
      using m(2) ii v nth_mem [OF ii] unfolding books_ok_def c'
      by (auto dest!: set_update_subset_insert [THEN subsetD])
    show "caps_ok R c'" using m(3) by (simp add: caps_ok_def c')
    show "tc_fault c' \<noteq> Some Accounting" using m(4) by (simp add: c')
    show "ledger R c' L" using L(1) ledger_cong [of c' c R L] by (simp add: c')
    show "tc_fault c' = None \<longrightarrow> L = lookups S c'"
      using L(2) books by (simp add: lookups_def fun_eq_iff) (simp add: c')
  qed
qed

section \<open>One input\<close>

lemma cache_record_ok:
  assumes "cache_ok rc"
  obtains rc' where "cache_record rc rid fp r = Some rc'" "cache_ok rc'"
proof -
  have "(rc_next rc + 1) mod length (rc_entries rc) < length (rc_entries rc)"
    using assms by (intro mod_less_divisor) (auto simp: cache_ok_def)
  then show ?thesis using assms that by (simp add: cache_ok_def cache_record_def idx_less)
qed

lemma record_outcome_ok:
  assumes mid: "core_mid R S c" and ai: "tc_account_index c a = Some ai"
  obtains c' where "record_outcome ai rq fp r c = Some c'" "core_mid R S c'" "tc_fault c' = tc_fault c"
proof -
  note c = core_midD(1) [OF mid]
  note acc = shape_account(1,2) [OF c ai]
  let ?a = "tc_accounts c ! ai"
  obtain rc where rc: "cache_record (ac_cache ?a) (rq_request_id rq) fp r = Some rc" "cache_ok rc"
    by (rule cache_record_ok [OF shapeD(2) [OF c acc(1)]])
  define a' where "a' = (if er_reject_reason r = None \<and> 0 < rq_client_seq rq
    then ?a\<lparr>ac_cache := rc, ac_last_client_seq := rq_client_seq rq\<rparr> else ?a\<lparr>ac_cache := rc\<rparr>)"
  have run: "record_outcome ai rq fp r c = Some (c\<lparr>tc_accounts := (tc_accounts c)[ai := a']\<rparr>)"
    using rc acc by (simp add: record_outcome_def idx_less a'_def Let_def)
  have "core_mid R S (c\<lparr>tc_accounts := (tc_accounts c)[ai := a']\<rparr>)"
    by (rule core_mid_account [OF mid acc(1) _ _ _ _ refl])
      (use rc(2) caps_okD [OF core_midD(3,1) [OF mid]] acc in \<open>auto simp: a'_def\<close>)
  then show ?thesis using that [OF run] by simp
qed

context slab_store
begin

lemma apply_fresh_request_ok:
  assumes mid: "core_mid R S c" and fault: "tc_fault c = None" and rq: "rq_ok rq"
  obtains c' out' where "apply_fresh_request S rq c out = Some (c', out')" "core_mid R S c'"
proof -
  obtain r c1 out1 where run: "(case rq_kind rq of
          New \<Rightarrow> handle_new S rq c out
        | Cancel \<Rightarrow> do { (r, c') \<leftarrow> handle_cancel S rq c; Some (r, c', out) }
        | Replace \<Rightarrow> handle_replace S rq c out) = Some (r, c1, out1)" "core_mid R S c1"
  proof (cases "rq_kind rq")
    case New
    show ?thesis by (rule handle_new_ok [OF mid fault rq, of out]) (rule that; simp add: New)
  next
    case Cancel
    show ?thesis by (rule handle_cancel_ok [OF mid fault, of rq]) (rule that; simp add: Cancel)
  next
    case Replace
    show ?thesis by (rule handle_replace_ok [OF mid fault rq, of out]) (rule that; simp add: Replace)
  qed
  let ?c2 = "if er_reject_reason r \<noteq> None then bump_metric em_requests_rejected_update c1
    else bump_metric em_requests_accepted_update c1"
  have mid2: "core_mid R S ?c2" by (rule core_mid_quiet [OF run(2)]) simp
  show ?thesis
  proof (cases "tc_account_index ?c2 (rq_account rq)")
    case None
    then show ?thesis using run(1) mid2 that by (simp add: apply_fresh_request_def Let_def)
  next
    case (Some ai)
    obtain c3 where "record_outcome ai rq (request_fingerprint rq) r ?c2 = Some c3" "core_mid R S c3"
      by (rule record_outcome_ok [OF mid2 Some])
    with Some show ?thesis using run(1) that by (simp add: apply_fresh_request_def Let_def)
  qed
qed

lemma apply_request_ok:
  assumes mid: "core_mid R S c" and fault: "tc_fault c = None" and rq: "rq_ok rq"
  obtains c' out' where "apply_request S rq c out = Some (c', out')" "core_mid R S c'"
proof -
  obtain c1 out1 where fresh: "apply_fresh_request S rq c out = Some (c1, out1)" "core_mid R S c1"
    by (rule apply_fresh_request_ok [OF mid fault rq])
  show ?thesis
  proof (cases "tc_account_index c (rq_account rq)")
    case None
    then show ?thesis using that fresh by (simp add: apply_request_def)
  next
    case (Some ai)
    note acc = shape_account(1) [OF core_midD(1) [OF mid] Some]
    obtain r c2 where rej: "reject_report rq DuplicateRequestConflict c = (r, c2)"
      by (cases "reject_report rq DuplicateRequestConflict c")
    have q: "quiet c c2" by (rule quiet_reject_report [OF rej])
    have ai2: "tc_account_index c2 (rq_account rq) = Some ai" using quietD(5) [OF q] Some by simp
    obtain c3 where rec: "record_outcome ai rq (request_fingerprint rq) r c2 = Some c3" "core_mid R S c3"
      by (rule record_outcome_ok [OF core_mid_quiet [OF mid q] ai2])
    obtain sq c4 where sq: "take_output_seq c = (sq, c4)" by (cases "take_output_seq c")
    have mid4: "core_mid R S c4" using core_mid_quiet [OF mid quiet_take_output_seq] sq by simp
    let ?hit = "cache_lookup (ac_cache (tc_accounts c ! ai)) (rq_request_id rq) (request_fingerprint rq)"
    consider "?hit = None" | old where "?hit = Some (Retry old)" | "?hit = Some Conflict"
      by (metis cache_hit.exhaust option.exhaust)
    then show ?thesis
    proof cases
      case 1
      with Some fresh that show ?thesis by (simp add: apply_request_def idx_less acc)
    next
      case 2
      with Some sq mid4 that show ?thesis by (simp add: apply_request_def idx_less acc)
    next
      case 3
      with Some rej rec that show ?thesis by (simp add: apply_request_def idx_less acc)
    qed
  qed
qed

end

lemma apply_market_ok:
  assumes mid: "core_mid R S c"
  obtains c' out' where "apply_market ev c out = Some (c', out')" "core_mid R S c'"
proof -
  let ?c1 = "bump_metric em_market_events_update c"
  have mid1: "core_mid R S ?c1" by (rule core_mid_quiet [OF mid]) simp
  show ?thesis
  proof (cases "tc_instrument_index ?c1 (me_instrument ev)")
    case None
    then show ?thesis using that mid1 by (simp add: apply_market_def)
  next
    case (Some ii)
    note ii = shape_instrument [OF core_midD(1) [OF mid1] Some]
    let ?r = "tc_instruments ?c1 ! ii"
    obtain u v where uv: "market_apply (ir_market ?r) (me_source_seq ev) (me_kind ev) (tc_engine_time_ns ?c1) = (u, v)"
      by (cases "market_apply (ir_market ?r) (me_source_seq ev) (me_kind ev) (tc_engine_time_ns ?c1)")
    have v: "mv_ok v"
      using market_apply_ok [OF books_okD(2) [OF core_midD(2) [OF mid1] ii]] uv by (metis snd_conv)
    define c2 where "c2 = ?c1\<lparr>tc_instruments := (tc_instruments ?c1)[ii := ?r\<lparr>ir_market := v\<rparr>]\<rparr>"
    have mid2: "core_mid R S c2" by (rule core_mid_market [OF mid1 ii v c2_def])
    obtain c3 out3 where push: "push_state (FeedStateChanged (me_instrument ev) (mu_state u)) c2 out = (c3, out3)"
      by (cases "push_state (FeedStateChanged (me_instrument ev) (mu_state u)) c2 out")
    have mid3: "core_mid R S c3" by (rule core_mid_quiet [OF mid2 quiet_push_state [OF push]])
    have "apply_market ev c out = Some (if state_changed u then (c3, out3) else (c2, out))"
      using Some ii uv push by (simp add: apply_market_def idx_less Let_def c2_def)
    then show ?thesis using that mid2 mid3 by (cases "state_changed u") simp_all
  qed
qed

lemma apply_control_ok:
  assumes mid: "core_mid R S c"
    and lim: "\<And>a l sd. cmd = SetAccountLimits a l \<Longrightarrow> min (room sd) (int (lim_max_position_lots l)) \<le> R a sd"
  obtains c' out' where "apply_control cmd c out = Some (c', out')" "core_mid R S c'"
proof -
  let ?c1 = "bump_metric em_control_events_update c"
  have mid1: "core_mid R S ?c1" by (rule core_mid_quiet [OF mid]) simp
  have pushed: "core_mid R S (fst (push_state ev c2 out))" if "core_mid R S c2" for ev c2
    by (rule core_mid_quiet [OF that quiet_push_state [OF surjective_pairing]])
  note result = that
  have pushing: thesis if "apply_control cmd c out = Some (push_state ev c2 out)" "core_mid R S c2" for ev c2
    using pushed [OF that(2), of ev] that(1) result by (cases "push_state ev c2 out") simp
  have still: thesis if "apply_control cmd c out = Some (?c1, out)" by (rule result [OF that mid1])
  have upd: "core_mid R S (?c1\<lparr>tc_accounts := (tc_accounts ?c1)[ai := a]\<rparr>)"
    if ai: "tc_account_index ?c1 aid = Some ai"
      and "ac_id a = ac_id (tc_accounts ?c1 ! ai)" "ac_positions a = ac_positions (tc_accounts ?c1 ! ai)"
        "ac_cache a = ac_cache (tc_accounts ?c1 ! ai)"
        "ac_limits a = ac_limits (tc_accounts ?c1 ! ai) \<or> cmd = SetAccountLimits aid (ac_limits a)" for aid ai a
  proof -
    note acc = shape_account(1,2) [OF core_midD(1) [OF mid1] ai]
    show ?thesis
      by (rule core_mid_account [OF mid1 acc(1) that(2,3) _ _ refl])
        (use that acc lim caps_okD [OF core_midD(3,1) [OF mid1] ai] shapeD(2) [OF core_midD(1) [OF mid1] acc(1)]
          in auto)
  qed
  show ?thesis
  proof (cases cmd)
    case (SetGlobalKill e)
    have "core_mid R S (?c1\<lparr>tc_global_kill := e\<rparr>)"
      using mid1 unfolding core_mid_def
      by (auto simp: shape_def books_ok_def caps_ok_def lookups_def book_at_def fun_eq_iff
          cong: ledger_cong)
    then show ?thesis
      using SetGlobalKill still pushing by (cases "tc_global_kill ?c1 = e") (simp_all del: push_state_def)
  next
    case (SetAccountEnabled aid e)
    show ?thesis
    proof (cases "tc_account_index ?c1 aid")
      case (Some ai)
      note acc = shape_account(1) [OF core_midD(1) [OF mid1] Some]
      show ?thesis
        using SetAccountEnabled Some still
          pushing [of "AccountEnabledChanged aid e", OF _ upd [OF Some, of "(tc_accounts ?c1 ! ai)\<lparr>ac_enabled := e\<rparr>"]]
        by (cases "ac_enabled (tc_accounts ?c1 ! ai) = e") (simp_all add: idx_less [OF acc] Let_def)
    qed (use SetAccountEnabled still in simp)
  next
    case (SetAccountLimits aid l)
    show ?thesis
    proof (cases "tc_account_index ?c1 aid")
      case (Some ai)
      note acc = shape_account(1) [OF core_midD(1) [OF mid1] Some]
      show ?thesis
        using SetAccountLimits Some 
          pushing [of "AccountLimitsChanged aid", OF _ upd [OF Some, of "(tc_accounts ?c1 ! ai)\<lparr>ac_limits := l\<rparr>"]]
        by (simp add: idx_less [OF acc] Let_def)
    qed (use SetAccountLimits still in simp)
  qed
qed

section \<open>A new engine\<close>

lemma index_map_nth:
  assumes "index_map ks k = Some i"
  shows "i < length ks" "ks ! i = k"
  using assms map_of_SomeD [of "rev (zip ks [0..<length ks])" k i]
  by (auto simp: index_map_def set_zip)

context slab_store
begin

lemma core_new_ok:
  assumes config: "config_ok R config"
  shows "core_mid R S (core_new S config)"
proof -
  let ?c = "core_new S config"
  have books: "book_good S (book_with_capacity S n)" for n
    using book_with_capacity_ok [of n] book_queue_rep [OF book_with_capacity_ok(1) [of n]]
    by (auto simp: book_good_def book_ok_def fifo_def uncrossed_def)
  have lk: "lookups S ?c i = Map.empty" for i
    using book_with_capacity_ok(2) by (simp add: lookups_def core_new_def Let_def book_at_def)
  have acc: "ai < length (ec_accounts config)" "acf_id (ec_accounts config ! ai) = a"
    if "tc_account_index ?c a = Some ai" for a ai
    using index_map_nth [of "map (\<lambda>a. acf_id a) (ec_accounts config)" a ai] that
    by (simp_all add: core_new_def Let_def account_new_def comp_def)
  have nth: "tc_accounts ?c ! ai = account_new (acf_id (ec_accounts config ! ai)) (acf_enabled (ec_accounts config ! ai))
      (acf_limits (ec_accounts config ! ai)) (length (ec_instruments config)) (ec_dedup_window config)"
    if "ai < length (ec_accounts config)" for ai
    using that by (simp add: core_new_def Let_def)
  have lens: "length (tc_accounts ?c) = length (ec_accounts config)"
    "length (tc_instruments ?c) = length (ec_instruments config)"
    by (simp_all add: core_new_def Let_def)
  have flat: "pos_at ?c ai ii = flat_position"
    if "ai < length (ec_accounts config)" "ii < length (ec_instruments config)" for ai ii
    using that by (simp add: pos_at_def nth account_new_def)
  show ?thesis
  proof (rule core_midI)
    show "shape ?c"
      unfolding shape_def lens
    proof (intro conjI ballI allI impI)
      fix x i assume "tc_instrument_index ?c x = Some i"
      then show "i < length (ec_instruments config)" "ic_id (ir_config (tc_instruments ?c ! i)) = x"
        using index_map_nth [of "map (\<lambda>r. ic_id r) (ec_instruments config)" x i]
        by (simp_all add: core_new_def Let_def comp_def)
    qed (use acc config in \<open>auto simp: nth config_ok_def core_new_def Let_def account_new_def cache_ok_def cache_new_def\<close>)
    show "books_ok S ?c" using books market_new_ok by (auto simp: books_ok_def core_new_def Let_def)
    show "caps_ok R ?c"
      unfolding caps_ok_def
    proof (intro allI impI)
      fix a ai sd assume a: "tc_account_index ?c a = Some ai"
      then show "min (room sd) (int (lim_max_position_lots (map ac_limits (tc_accounts ?c) ! ai))) \<le> R a sd"
        using config nth_mem [OF acc(1) [OF a]] acc [OF a] by (auto simp: config_ok_def nth lens account_new_def)
    qed
    show "tc_fault ?c \<noteq> Some Accounting" by (simp add: core_new_def Let_def)
    show "ledger R ?c (\<lambda>_. Map.empty)"
      unfolding ledger_def
    proof (intro conjI allI impI)
      show "positions_ok R ?c (\<lambda>_. Map.empty)"
        unfolding positions_ok_def lens
      proof (intro allI impI)
        fix a ai ii assume a: "tc_account_index ?c a = Some ai" and ii: "ii < length (ec_instruments config)"
        have "0 \<le> R a sd" for sd
        proof -
          have "0 \<le> min (room sd) (int (lim_max_position_lots (acf_limits (ec_accounts config ! ai))))"
            by (cases sd) simp_all
          also have "\<dots> \<le> R a sd"
            using config nth_mem [OF acc(1) [OF a]] acc(2) [OF a] by (auto simp: config_ok_def)
          finally show ?thesis .
        qed
        moreover have "ip_open_lots flat_position sd = 0" "ip_open_notional flat_position sd = 0"
          "exposed sd flat_position = 0" for sd
          by (cases sd; simp add: flat_position_def exposed_def)+
        ultimately show "pos_ok R Map.empty a (pos_at ?c ai ii)"
          using flat [OF acc(1) [OF a] ii] by (simp add: pos_ok_def)
      qed
      show "net_position ?c ii = 0" if "ii < length (tc_instruments ?c)" for ii
        using that flat unfolding lens by (simp add: net_position_def lens) (simp add: flat_position_def)
    qed (use config in \<open>simp_all add: orders_ok_def live_ok_def clients_ok_def core_new_def Let_def config_ok_def\<close>)
    show "tc_fault ?c = None \<longrightarrow> (\<lambda>_. Map.empty) = lookups S ?c" using lk by auto
  qed
qed

section \<open>Runs\<close>

lemma core_apply_ok:
  assumes mid: "core_mid R S c" and i: "input_ok R i"
  obtains c' out where "core_apply S i c = Some (c', out)" "core_mid R S c'"
proof (cases "tc_fault c = None \<and> counter_next (tc_engine_seq c) \<noteq> None")
  case False
  have "core_mid R S (set_fault SequenceExhausted c)" by (rule core_mid_quiet [OF mid]) simp
  with False mid that show ?thesis
    by (cases "tc_fault c") (auto simp: core_apply_def simp del: counter_next_None counter_next_Some)
next
  case True
  then obtain n where n: "counter_next (tc_engine_seq c) = Some n" and fault: "tc_fault c = None" by auto
  define c1 where "c1 = bump_metric em_inputs_applied_update
    (c\<lparr>tc_engine_seq := n, tc_engine_time_ns := in_recv_time_ns i\<rparr>)"
  have mid1: "core_mid R S c1"
    using mid ledger_cong [of c1 c R] unfolding core_mid_def
    by (auto simp: c1_def bump_metric_def shape_def books_ok_def caps_ok_def lookups_def book_at_def fun_eq_iff)
  have fault1: "tc_fault c1 = None" using fault by (simp add: c1_def bump_metric_def)
  obtain c2 out where run: "(case in_event i of
        MarketInput event \<Rightarrow> apply_market event c1 []
      | OrderInput rq \<Rightarrow> apply_request S rq c1 []
      | ControlInput command \<Rightarrow> apply_control command c1 []) = Some (c2, out)" "core_mid R S c2"
  proof (cases "in_event i")
    case (MarketInput ev)
    show ?thesis by (rule apply_market_ok [OF mid1, of ev "[]"]) (rule that; simp add: MarketInput)
  next
    case (OrderInput rq)
    have "rq_ok rq" using i OrderInput by (simp add: input_ok_def)
    show ?thesis
      by (rule apply_request_ok [OF mid1 fault1 \<open>rq_ok rq\<close>, of "[]"]) (rule that; simp add: OrderInput)
  next
    case (ControlInput cmd)
    have "min (room sd) (int (lim_max_position_lots l)) \<le> R a sd" if "cmd = SetAccountLimits a l" for a l sd
      using i ControlInput that by (simp add: input_ok_def)
    then obtain c2 out where "apply_control cmd c1 [] = Some (c2, out)" "core_mid R S c2"
      by (rule apply_control_ok [OF mid1])
    then show ?thesis by (intro that) (simp_all add: ControlInput)
  qed
  have q: "quiet c2 (c2\<lparr>tc_metrics := m\<rparr>)" for m by (simp add: quiet_def)
  show ?thesis
    by (rule that [OF _ core_mid_quiet [OF run(2) q]])
      (use fault n run(1) in \<open>simp add: core_apply_def c1_def [symmetric] del: counter_next_Some\<close>)
qed

lemma core_run_ok:
  assumes "core_mid R S c" "list_all (input_ok R) is"
  obtains c' out where "core_run S is c = Some (c', out)" "core_mid R S c'"
  using assms
proof (induction "is" arbitrary: c thesis)
  case (Cons i "is")
  obtain c1 out1 where 1: "core_apply S i c = Some (c1, out1)" "core_mid R S c1"
    by (rule core_apply_ok [of R c i]) (use Cons.prems in simp_all)
  obtain c2 out2 where "core_run S is c1 = Some (c2, out2)" "core_mid R S c2"
    by (rule Cons.IH [OF _ 1(2)]) (use Cons.prems in simp_all)
  with 1 Cons.prems(1) show ?case by simp
qed simp

end

end
