(* ===== verification/Core_Outputs.thy ===== *)
theory Core_Outputs
  imports Core_Apply
begin

text \<open>
  What the engine emits (\<open>trading-core/src/core.rs\<close>): every output takes the next output sequence and
  carries the engine sequence of the input that caused it, so that a consumer detects a lost output by
  a gap.  \<open>emits c c' new\<close> describes the outputs \<open>new\<close> of a step that leaves no fault.
\<close>

definition emits :: "'s trading_core \<Rightarrow> 's trading_core \<Rightarrow> output_event list \<Rightarrow> bool" where
  "emits c c' new \<longleftrightarrow>
     (tc_fault c' = None \<longrightarrow>
        tc_fault c = None \<and> tc_engine_seq c' = tc_engine_seq c \<and> tc_output_seq c \<le> tc_output_seq c' \<and>
        map output_seq_of new = [Suc (tc_output_seq c)..<Suc (tc_output_seq c')] \<and>
        (\<forall>e \<in> set new. engine_seq_of e = tc_engine_seq c))"

lemma emits_trans:
  assumes "emits c c1 xs" "emits c1 c2 ys"
  shows "emits c c2 (xs @ ys)"
proof -
  have "[Suc a..<Suc b] @ [Suc b..<Suc d] = [Suc a..<Suc d]" if "a \<le> b" "b \<le> d" for a b d :: nat
    using that by (metis Suc_le_mono le_Suc_ex upt_add_eq_append)
  then show ?thesis using assms by (auto simp: emits_def simp del: upt_Suc)
qed

abbreviation silent :: "'s trading_core \<Rightarrow> 's trading_core \<Rightarrow> bool" where
  "silent c c' \<equiv> emits c c' []"

lemma silentI:
  "tc_output_seq c' = tc_output_seq c \<Longrightarrow> tc_engine_seq c' = tc_engine_seq c \<Longrightarrow>
   tc_fault c' = tc_fault c \<or> tc_fault c' \<noteq> None \<Longrightarrow> silent c c'"
  by (auto simp: emits_def)

lemma silent_emits: "silent c c1 \<Longrightarrow> emits c1 c2 ys \<Longrightarrow> emits c c2 ys"
  using emits_trans [of c c1 "[]" c2 ys] by simp

lemma emits_silent: "emits c c1 xs \<Longrightarrow> silent c1 c2 \<Longrightarrow> emits c c2 xs"
  using emits_trans [of c c1 xs c2 "[]"] by simp

lemma silent_simps [simp]:
  "silent c c" "silent c (set_fault f c)" "silent c (set_book ii b c)" "silent c (bump_metric upd c)"
  "silent c (c\<lparr>tc_fills := fs\<rparr>)" "silent c (c\<lparr>tc_next_trade_id := n\<rparr>)" "silent c (c\<lparr>tc_next_order_id := n\<rparr>)"
  "silent c (c\<lparr>tc_next_priority := n\<rparr>)" "silent c (c\<lparr>tc_accounts := as\<rparr>)" "silent c (c\<lparr>tc_instruments := is\<rparr>)"
  "silent c (c\<lparr>tc_global_kill := k\<rparr>)" "silent c (c\<lparr>tc_metrics := m\<rparr>)"
  "silent c (c\<lparr>tc_live_orders := lo, tc_client_orders := co\<rparr>)" "silent c (drop_live fl c)"
  "silent c (drop_order_entry oid key c)"
  by (rule silentI; simp add: set_fault_def bump_metric_def drop_live_def drop_order_entry_def)+

section \<open>One output\<close>

lemma take_output_seq_engine: "take_output_seq c = (sq, c') \<Longrightarrow> tc_engine_seq c' = tc_engine_seq c"
  by (auto simp: take_output_seq_def set_fault_def split: option.splits)

lemma take_output_seq_emits:
  assumes "take_output_seq c = (sq, c')" "output_seq_of e = sq" "engine_seq_of e = tc_engine_seq c'"
  shows "emits c c' [e]"
  using assms take_output_seq_engine [OF assms(1)]
  by (auto simp: take_output_seq_def emits_def set_fault_def split: option.splits)

lemma push_state_emits:
  assumes "push_state ev c out = (c', out')"
  shows "\<exists>e. out' = out @ [e] \<and> emits c c' [e]"
proof -
  obtain sq where sq: "take_output_seq c = (sq, c')"
    using assms by (auto simp: push_state_def split: prod.splits)
  show ?thesis using assms take_output_seq_emits [OF sq] by (auto simp: push_state_def sq)
qed

lemma base_report_stamp:
  assumes "base_report rq oid c = (r, c')" "er_output_seq r' = er_output_seq r" "er_engine_seq r' = er_engine_seq r"
  shows "emits c c' [OutReport r']"
proof -
  obtain sq where sq: "take_output_seq c = (sq, c')"
    using assms(1) by (auto simp: base_report_def split: prod.splits)
  show ?thesis using assms take_output_seq_emits [OF sq, of "OutReport r'"] by (auto simp: base_report_def sq)
qed

lemma report_emits:
  "reject_report rq reason c = (r, c') \<Longrightarrow> emits c c' [OutReport r]"
  "terminal_report rq oid kind filled c = (r, c') \<Longrightarrow> emits c c' [OutReport r]"
  "cancelled_report rq oid tot filled c = (r, c') \<Longrightarrow> emits c c' [OutReport r]"
  "replace_cancelled_report rq oid ex c = (r, c') \<Longrightarrow> emits c c' [OutReport r]"
  by (auto simp: reject_report_def terminal_report_def cancelled_report_def replace_cancelled_report_def
      split: prod.splits intro: base_report_stamp)

lemma fault_sticks: "emits c1 c' xs \<Longrightarrow> tc_fault c1 \<noteq> None \<Longrightarrow> emits c c' ys"
  by (auto simp: emits_def)

lemma reject_faulted:
  assumes "reject_report rq reason (set_fault f c1) = (r, c')"
  shows "emits c c' ys"
  by (rule fault_sticks [OF report_emits(1) [OF assms]]) (simp add: set_fault_def)

lemmas report_after = silent_emits [OF _ report_emits(1) [OF surjective_pairing]]
  silent_emits [OF _ report_emits(2) [OF surjective_pairing]] silent_emits [OF _ report_emits(3) [OF surjective_pairing]]
  silent_emits [OF _ report_emits(4) [OF surjective_pairing]] silent_emits [OF _ base_report_stamp [OF surjective_pairing]]

section \<open>Settlement is silent\<close>

lemma update_position_silent: "update_position ai ii f c = Some (ok, c') \<Longrightarrow> silent c c'"
  by (auto simp: update_position_def bind_convs Let_def split: prod.splits)

lemma settled_silent:
  assumes "Option.bind (update_position ai ii f c) (\<lambda>(ok, c1). Some (if ok then c1 else set_fault Accounting c1)) = Some c'"
  shows "silent c c'"
proof -
  obtain ok c1 where up: "update_position ai ii f c = Some (ok, c1)" "c' = (if ok then c1 else set_fault Accounting c1)"
    using assms by (auto simp: bind_convs)
  note s1 = update_position_silent [OF up(1)]
  show ?thesis using up(2) s1 emits_silent [OF s1 silent_simps(2)] by simp
qed

lemma release_reservation_silent: "release_reservation ai ii sd l p c = Some c' \<Longrightarrow> silent c c'"
  using settled_silent by (auto simp: release_reservation_def split: if_splits option.splits)

lemma core_reserve_silent: "core_reserve ai ii sd l p c = Some c' \<Longrightarrow> silent c c'"
  using settled_silent by (auto simp: core_reserve_def split: option.splits)

lemma settle_taker_silent: "settle_taker ai ii sd q c = Some c' \<Longrightarrow> silent c c'"
  using settled_silent by (auto simp: settle_taker_def)

lemma settle_fill_silent:
  assumes "settle_fill mai ii f sd c = Some c'"
  shows "silent c c'"
proof -
  obtain c1 where "release_reservation mai ii (opposite sd) (f_qty f) (f_price f) c = Some c1"
    and 2: "Option.bind (update_position mai ii (apply_fill_to_position (opposite sd) (f_qty f)) c1)
      (\<lambda>(ok, c2). Some (if ok then c2 else set_fault Accounting c2)) = Some c'"
    using assms by (auto simp: settle_fill_def bind_convs)
  then show ?thesis using silent_emits release_reservation_silent settled_silent [OF 2] by blast
qed

lemma rest_order_with_silent:
  fixes c :: "'a trading_core"
  assumes "rest_order_with S ii ai cid sd price tot filled oid c = Some c'"
  shows "silent c c'"
proof (cases "counter_next (tc_next_priority c)")
  case None
  then show ?thesis using assms by (auto simp: rest_order_with_def simp del: counter_next_None)
next
  case (Some n)
  let ?c1 = "c\<lparr>tc_next_priority := n\<rparr>"
  obtain a :: account_state and ins :: "capacity_exhausted + 'a order_book" where ins: "(case ins of
        Inl _ \<Rightarrow> Some ?c1
      | Inr b \<Rightarrow>
          (case checked_sub tot filled of
             None \<Rightarrow> Some (set_fault Accounting (set_book ii b ?c1))
           | Some rest \<Rightarrow> do {
               c3 \<leftarrow> core_reserve ai ii sd rest price (set_book ii b ?c1);
               Some (c3\<lparr>tc_live_orders := (tc_live_orders c3)(oid \<mapsto>
                          \<lparr>lo_account_index = ai, lo_instrument_index = ii\<rparr>),
                        tc_client_orders := (tc_client_orders c3)((ac_id a, cid) \<mapsto> oid)\<rparr>)
             })) = Some c'"
    using assms Some unfolding rest_order_with_def
    by (simp add: Let_def Option.bind_eq_Some_conv del: counter_next_Some) blast
  show ?thesis
  proof (cases ins)
    case (Inr b)
    have book: "silent c (set_book ii b ?c1)" by (rule silent_emits [OF silent_simps(8,3)])
    show ?thesis
    proof (cases "checked_sub tot filled")
      case None
      then show ?thesis
        using ins Inr emits_silent [OF book silent_simps(2)] by (simp del: checked_sub_None) blast
    next
      case (Some l)
      then obtain c3 lo co where c3: "core_reserve ai ii sd l price (set_book ii b ?c1) = Some c3"
        "c' = c3\<lparr>tc_live_orders := lo, tc_client_orders := co\<rparr>"
        using ins Inr by (auto simp: Option.bind_eq_Some_conv simp del: checked_sub_Some)
      show ?thesis
        unfolding c3(2) by (rule emits_silent [OF emits_silent [OF book core_reserve_silent [OF c3(1)]] silent_simps(13)])
    qed
  qed (use ins silent_simps(8) in auto)
qed

section \<open>Execution\<close>

lemma execute_fills_emits:
  assumes "execute_fills ii ai rq oid sd quantity instrument fs cum c out = Some (c', out')"
  shows "\<exists>new. out' = out @ new \<and> emits c c' new"
  using assms
proof (induction fs arbitrary: cum c out)
  case (Cons f fs)
  show ?case
  proof (cases "checked_add 64 cum (f_qty f) = None \<or> counter_next (tc_next_trade_id c) = None")
    case True
    then show ?thesis
      using Cons.prems
      by (cases "checked_add 64 cum (f_qty f)"; cases "counter_next (tc_next_trade_id c)")
        (auto simp del: counter_next_None counter_next_Some checked_add_Some checked_add_None)
  next
    case False
    then obtain cum' tid where n: "checked_add 64 cum (f_qty f) = Some cum'" "counter_next (tc_next_trade_id c) = Some tid"
      by auto
    define c1 where "c1 = bump_metric em_trades_update (c\<lparr>tc_next_trade_id := tid\<rparr>)"
    have c1: "silent c c1" unfolding c1_def by (rule silent_emits [OF silent_simps(6,4)])
    obtain mai c2 c3 where s: "settle_fill mai ii f sd c1 = Some c2" "settle_taker ai ii sd (f_qty f) c2 = Some c3"
      and mai: "tc_account_index c1 (f_account f) = Some mai"
      using Cons.prems n by (auto simp: bind_convs c1_def Let_def simp del: counter_next_Some checked_add_Some)
    obtain sq c4 where t4: "take_output_seq c3 = (sq, c4)" by (cases "take_output_seq c3")
    obtain sq' c5 where t5: "take_output_seq c4 = (sq', c5)" by (cases "take_output_seq c4")
    obtain base c7 where t7: "base_report rq oid (drop_live f c5) = (base, c7)"
      by (cases "base_report rq oid (drop_live f c5)")
    define lots where "lots = (case checked_sub quantity cum' of Some r \<Rightarrow> r | None \<Rightarrow> 0)"
    define c8 where "c8 = (case checked_sub quantity cum' of Some r \<Rightarrow> c7 | None \<Rightarrow> set_fault Accounting c7)"
    let ?es = "[OutTrade (trade_event_of sq c4 tid instrument f rq oid sd), OutReport (maker_report_of sq' c5 instrument f sd),
        OutReport (taker_report_of base sd quantity cum' lots f)]"
    have pair: "(case checked_sub quantity cum' of Some r \<Rightarrow> (r, c7) | None \<Rightarrow> (0, set_fault Accounting c7)) = (lots, c8)"
      by (simp add: lots_def c8_def split: option.split)
    have run: "execute_fills ii ai rq oid sd quantity instrument fs cum' c8 (out @ ?es) = Some (c', out')"
      using Cons.prems n mai s t4 t5 t7
      by (simp add: c1_def [symmetric] pair del: counter_next_Some checked_add_Some checked_sub_Some)
    obtain new where new: "out' = (out @ ?es) @ new" "emits c8 c' new" using Cons.IH [OF run] by blast
    have c3: "silent c c3"
      using silent_emits [OF c1] silent_emits [OF settle_fill_silent [OF s(1)] settle_taker_silent [OF s(2)]] by blast
    have e1: "emits c3 c4 [OutTrade (trade_event_of sq c4 tid instrument f rq oid sd)]"
      using take_output_seq_emits [OF t4] by (simp add: trade_event_of_def)
    have e2: "emits c4 c5 [OutReport (maker_report_of sq' c5 instrument f sd)]"
      using take_output_seq_emits [OF t5] by (simp add: maker_report_of_def)
    have e3: "emits (drop_live f c5) c7 [OutReport (taker_report_of base sd quantity cum' lots f)]"
      by (rule base_report_stamp [OF t7]) (simp_all add: taker_report_of_def)
    have e4: "silent c7 c8" by (simp add: c8_def split: option.split)
    have "emits c c8 ?es"
      using emits_silent [OF silent_emits [OF c3 emits_trans [OF e1 emits_trans [OF e2 silent_emits [OF _ e3]]]] e4]
      by simp
    from emits_trans [OF this new(2)] new(1) show ?thesis by auto
  qed
qed auto

lemma execute_emits:
  assumes "execute S ii ai rq oid sd limit quantity c out = Some (filled, c', out')"
  shows "\<exists>new. out' = out @ new \<and> emits c c' new"
proof -
  obtain b fs where c: "c' = (set_book ii b c)\<lparr>tc_fills := fs\<rparr> \<and> out' = out \<or>
      (\<exists>instrument. execute_fills ii ai rq oid sd quantity instrument fs 0 ((set_book ii b c)\<lparr>tc_fills := fs\<rparr>) out = Some (c', out'))"
    using assms by (auto simp: execute_def bind_convs Let_def split: if_splits)
  have s: "silent c ((set_book ii b c)\<lparr>tc_fills := fs\<rparr>)" by (rule silent_emits [OF silent_simps(3,5)])
  from c show ?thesis
  proof
    assume "\<exists>instrument. execute_fills ii ai rq oid sd quantity instrument fs 0 ((set_book ii b c)\<lparr>tc_fills := fs\<rparr>) out = Some (c', out')"
    then show ?thesis using execute_fills_emits silent_emits [OF s] by blast
  qed (use s in simp)
qed

section \<open>Handlers\<close>

lemma emits_after:
  assumes "\<exists>new. out1 = out @ new \<and> emits c c1 new" "out' = out1 \<and> emits c1 c' [e]"
  shows "\<exists>new. out' = out @ new \<and> emits c c' (new @ [e])"
proof -
  obtain new where "out1 = out @ new" "emits c c1 new" using assms(1) by (elim exE conjE) (rule that)
  then show ?thesis using assms(2) by (intro exI [of _ new] conjI emits_trans [of c c1]) simp_all
qed

lemma emits_only: "emits c c' [e] \<Longrightarrow> \<exists>new. out = out @ new \<and> emits c c' (new @ [e])"
  by (intro exI [of _ "[]"]) simp

lemma new_result_emits:
  assumes "(case checked_sub (rq_quantity rq) filled of
            None \<Rightarrow> (let (r, c') = reject_report rq ArithmeticOverflow (set_fault Accounting c1) in Some (r, c', out1))
          | Some rest \<Rightarrow>
              if rest = 0 then (let (r, c') = terminal_report rq oid RepFilled filled c1 in Some (r, c', out1))
              else if rq_order_type rq = Market then
                (let (r, c') = cancelled_report rq oid (rq_quantity rq) filled c1 in Some (r, c', out1))
              else do {
                c2 \<leftarrow> rest_order S ii ai rq oid (rq_quantity rq) filled c1;
                (let (r, c3) = base_report rq oid c2
                 in Some (r\<lparr>er_kind := RepAccepted, er_state := working_state filled,
                            er_cumulative_filled := filled, er_remaining := rest\<rparr>, c3, out1))
              }) = Some (r, c', out')"
  shows "out' = out1 \<and> emits c1 c' [OutReport r]"
proof (cases "checked_sub (rq_quantity rq) filled")
  case None
  then have "out' = out1" "reject_report rq ArithmeticOverflow (set_fault Accounting c1) = (r, c')"
    using assms by (simp_all add: split_beta Let_def del: checked_sub_None) (metis prod.collapse)
  then show ?thesis using reject_faulted by blast
next
  case (Some rest)
  consider "rest = 0" | "rest \<noteq> 0" "rq_order_type rq = Market" | "rest \<noteq> 0" "rq_order_type rq \<noteq> Market" by blast
  then show ?thesis
  proof cases
    case 1
    then have "out' = out1" "terminal_report rq oid RepFilled filled c1 = (r, c')"
      using assms Some by (simp_all add: split_beta Let_def del: checked_sub_Some) (metis prod.collapse)
    then show ?thesis using report_emits(2) by blast
  next
    case 2
    then have "out' = out1" "cancelled_report rq oid (rq_quantity rq) filled c1 = (r, c')"
      using assms Some by (simp_all add: split_beta Let_def del: checked_sub_Some) (metis prod.collapse)
    then show ?thesis using report_emits(3) by blast
  next
    case 3
    then obtain c2 where c2: "rest_order S ii ai rq oid (rq_quantity rq) filled c1 = Some c2"
      using assms Some by (auto simp: Option.bind_eq_Some_conv simp del: checked_sub_Some)
    obtain rep c3 where rep: "base_report rq oid c2 = (rep, c3)" by (cases "base_report rq oid c2")
    have "out' = out1" "c' = c3" "r = rep\<lparr>er_kind := RepAccepted, er_state := working_state filled,
        er_cumulative_filled := filled, er_remaining := rest\<rparr>"
      using assms Some 3 c2 rep by (simp_all del: checked_sub_Some)
    then show ?thesis
      using silent_emits [OF rest_order_with_silent [OF c2 [unfolded rest_order_def]] base_report_stamp [OF rep, of r]]
      by simp
  qed
qed

lemma handle_new_emits:
  assumes "handle_new S rq c out = Some (r, c', out')"
  shows "\<exists>new. out' = out @ new \<and> emits c c' (new @ [OutReport r])"
proof -
  obtain checked where checked: "check_new_order S c rq = Some checked"
    using assms by (auto simp: handle_new_def Option.bind_eq_Some_conv)
  show ?thesis
  proof (cases checked)
    case (Inl reason)
    then have rep: "out' = out" "reject_report rq reason c = (r, c')"
      using assms by (simp_all add: handle_new_def checked split_beta Let_def) (metis prod.collapse)
    show ?thesis unfolding rep(1) by (rule emits_only [OF report_emits(1) [OF rep(2)]])
  next
    case (Inr ck)
    show ?thesis
    proof (cases "counter_next (tc_next_order_id c)")
      case None
      then have rep: "out' = out"
        "reject_report rq reject_reason.CapacityExhausted (set_fault SequenceExhausted c) = (r, c')"
        using assms by (simp_all add: handle_new_def checked Inr split_beta Let_def del: counter_next_None)
          (metis prod.collapse)
      show ?thesis unfolding rep(1) by (rule emits_only [OF reject_faulted [OF rep(2)]])
    next
      case (Some oid)
      obtain filled c1 out1 where ex: "execute S (cn_instrument_index ck) (cn_account_index ck) rq oid
          (rq_side rq) (cn_execution_limit ck) (rq_quantity rq) (c\<lparr>tc_next_order_id := oid\<rparr>) out = Some (filled, c1, out1)"
        using assms Some
        by (cases "execute S (cn_instrument_index ck) (cn_account_index ck) rq oid (rq_side rq)
            (cn_execution_limit ck) (rq_quantity rq) (c\<lparr>tc_next_order_id := oid\<rparr>) out")
          (auto simp: handle_new_def checked Inr simp del: counter_next_Some)
      have tail: "out' = out1 \<and> emits c1 c' [OutReport r]"
        by (rule new_result_emits [where rq = rq and filled = filled and ?c1.0 = c1 and ?out1.0 = out1 and oid = oid and S = S
              and ii = "cn_instrument_index ck" and ai = "cn_account_index ck"])
          (use assms Some ex in \<open>simp add: handle_new_def checked Inr del: counter_next_Some\<close>)
      obtain new where "out1 = out @ new" "emits (c\<lparr>tc_next_order_id := oid\<rparr>) c1 new"
        using execute_emits [OF ex] by (elim exE conjE) (rule that)
      then have "\<exists>new. out1 = out @ new \<and> emits c c1 new"
        using silent_emits [OF silent_simps(7)] by (intro exI [of _ new]) simp
      from emits_after [OF this tail] show ?thesis .
    qed
  qed
qed

lemma handle_cancel_emits:
  assumes "handle_cancel S rq c = Some (r, c')"
  shows "emits c c' [OutReport r]"
  using assms
  by (auto simp: handle_cancel_def split_beta Let_def Option.bind_eq_Some_conv split: option.splits if_splits
      dest: report_emits(1)
      intro!: report_after silent_emits [OF silent_simps(3) emits_silent [OF release_reservation_silent silent_simps(15)]])

lemma replace_in_place_emits:
  assumes "replace_in_place S rq ai ii oid ex c = Some (r, c')"
  shows "emits c c' [OutReport r]"
proof (cases "checked_sub (o_total ex) (rq_quantity rq)")
  case None
  then show ?thesis
    using assms silent_emits [OF silent_simps(2) report_emits(1)]
    by (auto simp: replace_in_place_def simp del: checked_sub_None)
next
  case (Some l)
  obtain c1 b where c1: "release_reservation ai ii (o_side ex) l (o_price ex) c = Some c1"
    and last: "(if rq_quantity rq = o_filled ex then do {
            (_, b') \<leftarrow> book_remove S b oid;
            Some (replace_cancelled_report rq oid ex
              (drop_order_entry oid (rq_account rq, o_client ex) (set_book ii b' (set_book ii b c1))))
          }
          else
            (let (rep, c3) = base_report rq oid (set_book ii b c1) in
             case checked_sub (rq_quantity rq) (o_filled ex) of
               Some lots \<Rightarrow>
                 Some (rep\<lparr>er_kind := RepReplaced, er_client_order_id := o_client ex,
                           er_side := o_side ex, er_state := working_state (o_filled ex),
                           er_cumulative_filled := o_filled ex, er_remaining := lots\<rparr>, c3)
             | None \<Rightarrow> Some (reject_report rq ArithmeticOverflow (set_fault Accounting c3)))) = Some (r, c')"
    using assms Some
    by (simp add: replace_in_place_def Let_def del: checked_sub_Some set_book_twice)
      (auto simp: Option.bind_eq_Some_conv simp del: set_book_twice)
  note s1 = release_reservation_silent [OF c1]
  have "emits c1 c' [OutReport r]"
  proof (cases "rq_quantity rq = o_filled ex")
    case True
    obtain b' where rep: "replace_cancelled_report rq oid ex
        (drop_order_entry oid (rq_account rq, o_client ex) (set_book ii b' c1)) = (r, c')"
      using last True by (auto simp: Option.bind_eq_Some_conv)
    show ?thesis
      by (rule silent_emits [OF emits_silent [OF silent_simps(3,15)] report_emits(4) [OF rep]])
  next
    case False
    obtain rep c3 where rep: "base_report rq oid (set_book ii b c1) = (rep, c3)"
      by (cases "base_report rq oid (set_book ii b c1)")
    show ?thesis
      using last False rep silent_emits [OF silent_simps(3) base_report_stamp [OF rep]] reject_faulted
      by (cases "checked_sub (rq_quantity rq) (o_filled ex)") (auto simp del: checked_sub_Some checked_sub_None)
  qed
  then show ?thesis by (rule silent_emits [OF s1])
qed

lemma replace_requeue_emits:
  assumes "replace_requeue S rq ai ii oid ex c out = Some (r, c', out')"
  shows "\<exists>new. out' = out @ new \<and> emits c c' (new @ [OutReport r])"
proof -
  obtain b l c1 where c1: "release_reservation ai ii (o_side ex) l (o_price ex) (set_book ii b c) = Some c1"
    and last: "(let c2 = drop_order_entry oid (rq_account rq, o_client ex) c1 in
     if rq_quantity rq = o_filled ex
     then (let (rep, c3) = replace_cancelled_report rq oid ex c2 in Some (rep, c3, out))
     else
       (case checked_sub (rq_quantity rq) (o_filled ex) of
          None \<Rightarrow>
            (let (rep, c3) = reject_report rq ArithmeticOverflow (set_fault Accounting c2)
             in Some (rep, c3, out))
        | Some target \<Rightarrow> do {
            (filled, c3, out1) \<leftarrow> execute S ii ai rq oid (o_side ex) (rq_price rq) target c2 out;
            (case checked_add 64 (o_filled ex) filled of
               None \<Rightarrow>
                 (let (rep, c4) = reject_report rq ArithmeticOverflow (set_fault Accounting c3)
                  in Some (rep, c4, out1))
             | Some cumulative \<Rightarrow>
                 if cumulative = rq_quantity rq then
                   (let (rep, c4) = base_report rq oid c3
                    in Some (rep\<lparr>er_kind := RepFilled, er_state := StFilled,
                         er_client_order_id := o_client ex, er_side := o_side ex,
                         er_cumulative_filled := cumulative, er_remaining := 0\<rparr>, c4, out1))
                 else do {
                   c4 \<leftarrow> rest_order_with S ii ai (o_client ex) (o_side ex) (rq_price rq)
                     (rq_quantity rq) cumulative oid c3;
                   (let (rep, c5) = base_report rq oid c4;
                        (lots, c6) =
                          (case checked_sub (rq_quantity rq) cumulative of
                             Some l \<Rightarrow> (l, c5)
                           | None \<Rightarrow> (0, set_fault Accounting c5))
                    in Some (rep\<lparr>er_kind := RepReplaced, er_client_order_id := o_client ex,
                         er_side := o_side ex, er_state := working_state cumulative,
                         er_cumulative_filled := cumulative, er_remaining := lots\<rparr>, c6, out1))
                 })
          })) = Some (r, c', out')"
    using assms unfolding replace_requeue_def
    by (auto simp: Option.bind_eq_Some_conv simp del: remaining_Some)
  define c2 where "c2 = drop_order_entry oid (rq_account rq, o_client ex) c1"
  have s2: "silent c c2"
    unfolding c2_def
    by (rule silent_emits [OF silent_simps(3) emits_silent [OF release_reservation_silent [OF c1] silent_simps(15)]])
  show ?thesis
  proof (cases "rq_quantity rq = o_filled ex \<or> checked_sub (rq_quantity rq) (o_filled ex) = None")
    case True
    then have "out' = out \<and> emits c2 c' [OutReport r]"
      using last by (cases "rq_quantity rq = o_filled ex")
        (auto simp: c2_def [symmetric] split_beta Let_def simp del: checked_sub_None intro!: report_after)
    then show ?thesis using silent_emits [OF s2] by auto
  next
    case False
    then obtain target where t: "checked_sub (rq_quantity rq) (o_filled ex) = Some target" by blast
    obtain filled c3 out1 where ex: "execute S ii ai rq oid (o_side ex) (rq_price rq) target c2 out = Some (filled, c3, out1)"
      using last t False by (auto simp: c2_def [symmetric] Option.bind_eq_Some_conv simp del: checked_sub_Some)
    have tail: "(case checked_add 64 (o_filled ex) filled of
               None \<Rightarrow>
                 (let (rep, c4) = reject_report rq ArithmeticOverflow (set_fault Accounting c3)
                  in Some (rep, c4, out1))
             | Some cumulative \<Rightarrow>
                 if cumulative = rq_quantity rq then
                   (let (rep, c4) = base_report rq oid c3
                    in Some (rep\<lparr>er_kind := RepFilled, er_state := StFilled,
                         er_client_order_id := o_client ex, er_side := o_side ex,
                         er_cumulative_filled := cumulative, er_remaining := 0\<rparr>, c4, out1))
                 else do {
                   c4 \<leftarrow> rest_order_with S ii ai (o_client ex) (o_side ex) (rq_price rq)
                     (rq_quantity rq) cumulative oid c3;
                   (let (rep, c5) = base_report rq oid c4;
                        (lots, c6) =
                          (case checked_sub (rq_quantity rq) cumulative of
                             Some l \<Rightarrow> (l, c5)
                           | None \<Rightarrow> (0, set_fault Accounting c5))
                    in Some (rep\<lparr>er_kind := RepReplaced, er_client_order_id := o_client ex,
                         er_side := o_side ex, er_state := working_state cumulative,
                         er_cumulative_filled := cumulative, er_remaining := lots\<rparr>, c6, out1))
                 }) = Some (r, c', out')"
      using last t False ex by (simp add: c2_def [symmetric] del: checked_sub_Some)
    have "out' = out1 \<and> emits c3 c' [OutReport r]"
    proof (cases "checked_add 64 (o_filled ex) filled")
      case None
      then show ?thesis
        using tail by (auto simp: split_beta Let_def simp del: checked_add_None intro!: report_after)
    next
      case (Some cum)
      show ?thesis
      proof (cases "cum = rq_quantity rq")
        case True
        then show ?thesis using tail Some by (auto simp: split_beta Let_def simp del: checked_add_Some intro!: report_after)
      next
        case False
        obtain c4 where c4: "rest_order_with S ii ai (o_client ex) (o_side ex) (rq_price rq) (rq_quantity rq) cum oid c3 = Some c4"
          using tail Some False by (auto simp: Option.bind_eq_Some_conv simp del: checked_add_Some)
        obtain rep c5 where rep: "base_report rq oid c4 = (rep, c5)" by (cases "base_report rq oid c4")
        note e = silent_emits [OF rest_order_with_silent [OF c4] base_report_stamp [OF rep]]
        show ?thesis
          using tail Some False c4 rep e emits_silent [OF e silent_simps(2)]
          by (cases "checked_sub (rq_quantity rq) cum") (auto simp del: checked_add_Some checked_sub_Some checked_sub_None)
      qed
    qed
    then show ?thesis using execute_emits [OF ex] silent_emits [OF s2] emits_trans by blast
  qed
qed

lemma handle_replace_emits:
  assumes "handle_replace S rq c out = Some (r, c', out')"
  shows "\<exists>new. out' = out @ new \<and> emits c c' (new @ [OutReport r])"
proof -
  obtain checked where checked: "check_replace S c rq = Some checked"
    using assms by (auto simp: handle_replace_def Option.bind_eq_Some_conv)
  show ?thesis
  proof (cases checked)
    case (Inl reason)
    then show ?thesis using assms by (auto simp: handle_replace_def checked split_beta Let_def intro!: report_after)
  next
    case (Inr ck)
    show ?thesis
    proof (cases "rq_price rq = o_price (ck_existing ck) \<and> rq_quantity rq < o_total (ck_existing ck)")
      case True
      then have "replace_in_place S rq (ck_account_index ck) (ck_instrument_index ck) (ck_order_id ck) (ck_existing ck) c =
          Some (r, c')" "out' = out"
        using assms by (auto simp: handle_replace_def checked Inr Option.bind_eq_Some_conv)
      then show ?thesis using replace_in_place_emits by auto
    next
      case False
      then have "replace_requeue S rq (ck_account_index ck) (ck_instrument_index ck) (ck_order_id ck) (ck_existing ck) c out =
          Some (r, c', out')"
        using assms by (auto simp: handle_replace_def checked Inr Let_def split: if_splits)
      then show ?thesis by (rule replace_requeue_emits)
    qed
  qed
qed

section \<open>Inputs\<close>

lemma record_outcome_silent: "record_outcome ai rq fp r c = Some c' \<Longrightarrow> silent c c'"
  by (auto simp: record_outcome_def Option.bind_eq_Some_conv Let_def)

lemma apply_fresh_request_emits:
  assumes "apply_fresh_request S rq c out = Some (c', out')"
  shows "\<exists>new. out' = out @ new \<and> emits c c' new"
proof -
  obtain r c1 out1 where h: "(case rq_kind rq of
          New \<Rightarrow> handle_new S rq c out
        | Cancel \<Rightarrow> do { (r, c') \<leftarrow> handle_cancel S rq c; Some (r, c', out) }
        | Replace \<Rightarrow> handle_replace S rq c out) = Some (r, c1, out1)"
    and out': "out' = out1 @ [OutReport r]"
    and rec: "(case tc_account_index (if er_reject_reason r \<noteq> None then bump_metric em_requests_rejected_update c1
            else bump_metric em_requests_accepted_update c1) (rq_account rq) of
          Some ai \<Rightarrow> record_outcome ai rq (request_fingerprint rq) r
            (if er_reject_reason r \<noteq> None then bump_metric em_requests_rejected_update c1
             else bump_metric em_requests_accepted_update c1)
        | None \<Rightarrow> Some (if er_reject_reason r \<noteq> None then bump_metric em_requests_rejected_update c1
            else bump_metric em_requests_accepted_update c1)) = Some c'"
    using assms unfolding apply_fresh_request_def Let_def
    by (auto simp: Option.bind_eq_Some_conv simp del: not_None_eq)
  have "silent c1 (if er_reject_reason r \<noteq> None then bump_metric em_requests_rejected_update c1
      else bump_metric em_requests_accepted_update c1)" by simp
  then have c': "silent c1 c'"
    using rec silent_emits [OF _ record_outcome_silent] by (simp only: split: option.splits) blast+
  have "\<exists>new. out1 = out @ new \<and> emits c c1 (new @ [OutReport r])"
  proof (cases "rq_kind rq")
    case New
    then show ?thesis using h handle_new_emits by simp
  next
    case Cancel
    then show ?thesis using h handle_cancel_emits by (auto simp: Option.bind_eq_Some_conv)
  next
    case Replace
    then show ?thesis using h handle_replace_emits by simp
  qed
  then show ?thesis using out' emits_silent [OF _ c'] by auto
qed

lemma apply_request_emits:
  assumes "apply_request S rq c out = Some (c', out')"
  shows "\<exists>new. out' = out @ new \<and> emits c c' new"
proof (cases "tc_account_index c (rq_account rq)")
  case None
  then show ?thesis using assms apply_fresh_request_emits by (simp add: apply_request_def)
next
  case (Some ai)
  obtain a where a: "idx (tc_accounts c) ai = Some a"
    using assms Some by (auto simp: apply_request_def Option.bind_eq_Some_conv)
  consider "apply_fresh_request S rq c out = Some (c', out')"
    | old sq where "take_output_seq c = (sq, c')" "out' = out @ [OutReport (old\<lparr>er_output_seq := sq,
          er_engine_seq := tc_engine_seq c', er_engine_time_ns := tc_engine_time_ns c'\<rparr>)]"
    | r c1 where "reject_report rq DuplicateRequestConflict c = (r, c1)"
      "record_outcome ai rq (request_fingerprint rq) r c1 = Some c'" "out' = out @ [OutReport r]"
    using assms Some a unfolding apply_request_def
    by (simp del: idx_Some split: option.splits cache_hit.splits prod.splits)
      (auto simp: Option.bind_eq_Some_conv)
  then show ?thesis
  proof cases
    case 1
    then show ?thesis by (rule apply_fresh_request_emits)
  next
    case 2
    then show ?thesis using take_output_seq_emits [OF 2(1)] by auto
  next
    case 3
    then show ?thesis using emits_silent [OF report_emits(1) [OF 3(1)] record_outcome_silent [OF 3(2)]] by auto
  qed
qed

lemma pushed_emits:
  assumes "silent c c1" "Some (push_state ev c1 out) = Some (c', out')"
  shows "\<exists>new. out' = out @ new \<and> emits c c' new"
  using push_state_emits [of ev c1 out c' out'] silent_emits [OF assms(1)] assms(2) by auto

lemma apply_market_emits:
  assumes "apply_market ev c out = Some (c', out')"
  shows "\<exists>new. out' = out @ new \<and> emits c c' new"
proof (cases "tc_instrument_index (bump_metric em_market_events_update c) (me_instrument ev)")
  case None
  then show ?thesis using assms by (auto simp: apply_market_def)
next
  case (Some ii)
  then obtain u rs where "(out' = out \<and> c' = (bump_metric em_market_events_update c)\<lparr>tc_instruments := rs\<rparr>) \<or>
      Some (push_state u ((bump_metric em_market_events_update c)\<lparr>tc_instruments := rs\<rparr>) out) = Some (c', out')"
    using assms by (auto simp: apply_market_def Let_def split_beta Option.bind_eq_Some_conv split: if_splits)
  moreover have "silent c ((bump_metric em_market_events_update c)\<lparr>tc_instruments := rs\<rparr>)"
    by (rule emits_silent [OF silent_simps(4,10)])
  ultimately show ?thesis using pushed_emits by auto
qed

lemma apply_control_emits:
  assumes "apply_control cmd c out = Some (c', out')"
  shows "\<exists>new. out' = out @ new \<and> emits c c' new"
proof -
  let ?c1 = "bump_metric em_control_events_update c"
  consider "c' = ?c1" "out' = out" | ev k where "Some (push_state ev (?c1\<lparr>tc_global_kill := k\<rparr>) out) = Some (c', out')"
    | ev as where "Some (push_state ev (?c1\<lparr>tc_accounts := as\<rparr>) out) = Some (c', out')"
  proof (cases cmd)
    case (SetGlobalKill e)
    then show ?thesis using assms that by (auto simp: Let_def split: if_splits)
  next
    case (SetAccountEnabled a e)
    then show ?thesis using assms that(1,3)
      by (cases "tc_account_index ?c1 a") (auto simp: Let_def Option.bind_eq_Some_conv split: if_splits)
  next
    case (SetAccountLimits a l)
    then show ?thesis using assms that(1,3)
      by (cases "tc_account_index ?c1 a") (auto simp: Let_def Option.bind_eq_Some_conv)
  qed
  then show ?thesis
    using pushed_emits [OF emits_silent [OF silent_simps(4,11)]] pushed_emits [OF emits_silent [OF silent_simps(4,9)]]
    by cases auto
qed

text \<open>One input takes one engine sequence, and its outputs are numbered on from the last.\<close>

definition numbered :: "'s trading_core \<Rightarrow> 's trading_core \<Rightarrow> nat \<Rightarrow> output_event list \<Rightarrow> bool" where
  "numbered c c' n out \<longleftrightarrow>
     tc_fault c = None \<and> tc_engine_seq c' = tc_engine_seq c + n \<and> tc_output_seq c \<le> tc_output_seq c' \<and>
     map output_seq_of out = [Suc (tc_output_seq c)..<Suc (tc_output_seq c')] \<and>
     sorted (map engine_seq_of out) \<and>
     (\<forall>e \<in> set out. tc_engine_seq c < engine_seq_of e \<and> engine_seq_of e \<le> tc_engine_seq c')"

lemma sorted_const: "(\<And>x. x \<in> set xs \<Longrightarrow> f x = k) \<Longrightarrow> sorted (map f xs)"
  by (induction xs) auto

lemma core_apply_numbered:
  assumes "core_apply S i c = Some (c', out)" "tc_fault c' = None"
  shows "numbered c c' 1 out"
proof -
  have c: "tc_fault c = None" using assms by (cases "tc_fault c") (auto simp: core_apply_def)
  obtain n where n: "counter_next (tc_engine_seq c) = Some n"
    using assms c by (cases "counter_next (tc_engine_seq c)") (auto simp: core_apply_def set_fault_def)
  define c1 where "c1 = bump_metric em_inputs_applied_update (c\<lparr>tc_engine_seq := n, tc_engine_time_ns := in_recv_time_ns i\<rparr>)"
  have c1: "tc_engine_seq c1 = tc_engine_seq c + 1" "tc_output_seq c1 = tc_output_seq c"
    using n by (auto simp: c1_def bump_metric_def)
  obtain c2 m where run: "(case in_event i of MarketInput event \<Rightarrow> apply_market event c1 []
      | OrderInput rq \<Rightarrow> apply_request S rq c1 [] | ControlInput command \<Rightarrow> apply_control command c1 []) = Some (c2, out)"
    and c': "c' = c2\<lparr>tc_metrics := m\<rparr>"
    using assms(1) c n
    by (auto simp: core_apply_def c1_def [symmetric] Let_def Option.bind_eq_Some_conv simp del: counter_next_Some)
  have e: "emits c1 c2 out"
    using run by (cases "in_event i") (auto dest: apply_market_emits apply_request_emits apply_control_emits)
  have "engine_seq_of x = tc_engine_seq c1" if "x \<in> set out" for x
    using e assms(2) that by (auto simp: emits_def c')
  from sorted_const [OF this] show ?thesis
    using e assms(2) c c1 by (auto simp: emits_def numbered_def c' simp del: upt_Suc)
qed

lemma numbered_trans:
  assumes "numbered c c1 m xs" "numbered c1 c2 n ys"
  shows "numbered c c2 (m + n) (xs @ ys)"
proof -
  have "[Suc a..<Suc b] @ [Suc b..<Suc d] = [Suc a..<Suc d]" if "a \<le> b" "b \<le> d" for a b d :: nat
    using that by (metis Suc_le_mono le_Suc_ex upt_add_eq_append)
  then show ?thesis using assms by (fastforce simp: numbered_def sorted_append simp del: upt_Suc)
qed

lemma core_apply_fault_stays: "core_apply S i c = Some (c', out) \<Longrightarrow> tc_fault c \<noteq> None \<Longrightarrow> c' = c \<and> out = []"
  by (auto simp: core_apply_def)

lemma core_run_faulted: "tc_fault c \<noteq> None \<Longrightarrow> core_run S is c = Some (c, [])"
  by (induction "is") (auto simp: core_apply_def)

lemma core_run_numbered:
  assumes "core_run S is c = Some (c', out)" "tc_fault c' = None"
  shows "numbered c c' (length is) out"
  using assms
proof (induction "is" arbitrary: c out)
  case Nil
  then show ?case by (auto simp: numbered_def)
next
  case (Cons i "is")
  obtain c1 out1 outs where r: "core_apply S i c = Some (c1, out1)" "core_run S is c1 = Some (c', outs)"
    "out = out1 @ outs"
    using Cons.prems(1) by (auto simp: Option.bind_eq_Some_conv)
  have rest: "numbered c1 c' (length is) outs" by (rule Cons.IH [OF r(2) Cons.prems(2)])
  then have "tc_fault c1 = None" by (simp add: numbered_def)
  from numbered_trans [OF core_apply_numbered [OF r(1) this] rest] show ?case by (simp add: r(3))
qed

end
