(* ===== verification/Core_Demo.thy ===== *)
theory Core_Demo
  imports Core Book_Contract "HOL-Library.Code_Target_Numeral"
begin

text \<open>
  A concrete run of the engine, evaluated inside the logic: a snapshot makes the feed live, an account
  rests a bid of five lots and another account sells three lots into it.  The properties of the engine
  are instantiated with it.
\<close>

declare match_loop.simps [code] match_level.simps [code]

lemma fnv_bytes_literal [code]:
  "fnv_bytes 0 value hash = hash"
  "fnv_bytes (Suc n) value hash =
     fnv_bytes n (value div 256) ((xor hash (value mod 256) * 0x100000001b3) mod 18446744073709551616)"
  by simp_all

definition demo_config :: engine_config where
  "demo_config =
     \<lparr>ec_run_id = 1, ec_instruments = [instrument_config_new 1 ''LAB-USD''],
      ec_accounts = [account_config_new 1, account_config_new 2], ec_max_live_orders = 4,
      ec_max_market_age_ns = 1000, ec_market_protection_ticks = 50, ec_dedup_window = 1,
      ec_max_market_depth = 4\<rparr>"

definition demo_market :: "nat \<Rightarrow> market_event_kind \<Rightarrow> engine_input" where
  "demo_market n kind =
     \<lparr>in_ingress_seq = n, in_recv_time_ns = n, in_event = MarketInput
        \<lparr>me_instrument = 1, me_source_seq = n, me_source_time_ns = n, me_kind = kind\<rparr>\<rparr>"

definition demo_order :: "nat \<Rightarrow> account_id \<Rightarrow> side \<Rightarrow> price_ticks \<Rightarrow> quantity_lots \<Rightarrow> engine_input" where
  "demo_order n account sd price quantity =
     \<lparr>in_ingress_seq = n, in_recv_time_ns = n, in_event = OrderInput
        \<lparr>rq_kind = New, rq_account = account, rq_instrument = 1, rq_request_id = n, rq_client_seq = n,
         rq_client_order_id = n, rq_target_client_order_id = 0, rq_side = sd, rq_order_type = Limit,
         rq_price = price, rq_quantity = quantity\<rparr>\<rparr>"

definition demo_inputs :: "engine_input list" where
  "demo_inputs =
     [demo_market 0 (SnapshotBegin 5), demo_market 0 (SnapshotLevel Buy 99 10),
      demo_market 0 (SnapshotLevel Sell 101 10), demo_market 5 (SnapshotEnd 5 2),
      demo_order 6 1 Buy 100 5, demo_order 7 2 Sell 100 3]"

definition demo_ok :: "'s trading_core \<Rightarrow> output_event list \<Rightarrow> bool" where
  "demo_ok c out \<longleftrightarrow>
     tc_fault c = None \<and> tc_output_seq c = 7 \<and>
     map (\<lambda>a. map ip_position_lots (ac_positions a)) (tc_accounts c) = [[3], [-3]] \<and>
     map (\<lambda>a. map ip_open_buy_lots (ac_positions a)) (tc_accounts c) = [[2], [0]] \<and>
     tc_account_index c 1 = Some 0 \<and> tc_client_orders c (1, 6) = Some 1"

lemma demo_evaluated:
  "(case core_run vec_slab demo_inputs (core_new vec_slab demo_config) of
      Some (c, out) \<Rightarrow> demo_ok c out | None \<Rightarrow> False)"
  by code_simp

lemma demo_run:
  obtains c out where "core_run vec_slab demo_inputs (core_new vec_slab demo_config) = Some (c, out)" "demo_ok c out"
  using demo_evaluated by (cases "core_run vec_slab demo_inputs (core_new vec_slab demo_config)") auto

end
