(* ===== verification/Core_Properties.thy ===== *)
theory Core_Properties
  imports Core_Outputs Core_Demo
begin

text \<open>
  The properties of the engine over whole runs.  A run starts from a configuration whose instruments
  have positive tick and lot sizes and applies inputs whose fields are in the range of their types;
  the slab is any store with the documented behaviour of the crate.
\<close>

section \<open>Runs\<close>

definition sane_config :: "engine_config \<Rightarrow> bool" where
  "sane_config config \<longleftrightarrow> (\<forall>ic \<in> set (ec_instruments config). 0 < ic_tick_size ic \<and> 0 < ic_lot_size ic)"

definition typed_input :: "engine_input \<Rightarrow> bool" where
  "typed_input i \<longleftrightarrow> (case in_event i of OrderInput rq \<Rightarrow> rq_ok rq | _ \<Rightarrow> True)"

abbreviation any_room :: caps where
  "any_room \<equiv> \<lambda>_. room"

lemma typed_inputs: "list_all typed_input is \<Longrightarrow> list_all (input_ok any_room) is"
  by (auto simp: list_all_iff typed_input_def input_ok_def split: input_event.splits control_command.splits)

lemma sane_config_ok: "sane_config config \<Longrightarrow> config_ok any_room config"
  by (simp add: sane_config_def config_ok_def)

lemma run_mid:
  assumes "slab_store S" "config_ok R config" "list_all (input_ok R) is"
    "core_run S is (core_new S config) = Some (c, out)"
  shows "core_mid R S c"
  using slab_store.core_run_ok [OF assms(1) slab_store.core_new_ok [OF assms(1,2)] assms(3)] assms(4)
  by (metis option.inject prod.inject)

lemmas typed_run = run_mid [OF _ sane_config_ok typed_inputs]

lemma typed_ledger:
  assumes "slab_store S" "sane_config config" "list_all typed_input is"
    "core_run S is (core_new S config) = Some (c, out)" "tc_fault c = None"
  shows "ledger any_room c (lookups S c)"
  by (rule core_midD(5) [OF typed_run [OF assms(1-4)] assms(5)])

lemma demo_sane: "sane_config demo_config"
  by (simp add: sane_config_def demo_config_def instrument_config_new_def)

lemma demo_typed: "list_all typed_input demo_inputs"
  by (simp add: demo_inputs_def typed_input_def demo_market_def demo_order_def rq_ok_def in_signed_def)

lemmas demo = vec.slab_store_axioms demo_sane demo_typed

lemma demo_state:
  obtains c out x y p where "core_run vec_slab demo_inputs (core_new vec_slab demo_config) = Some (c, out)"
    "demo_ok c out" "tc_fault c = None" "tc_account_index c 1 = Some 0" "0 < length (tc_instruments c)"
    "tc_accounts c = [x, y]" "ac_positions x = [p]" "ip_position_lots p = 3" "ip_open_buy_lots p = 2"
proof -
  obtain c out where run: "core_run vec_slab demo_inputs (core_new vec_slab demo_config) = Some (c, out)"
    and ok: "demo_ok c out" by (rule demo_run)
  obtain x y p where acc: "tc_accounts c = [x, y]" "ac_positions x = [p]" "ip_position_lots p = 3" "ip_open_buy_lots p = 2"
    using ok by (auto simp: demo_ok_def map_eq_Cons_conv)
  have "shape c" by (rule core_midD(1) [OF typed_run [OF demo run]])
  then have "length (tc_instruments c) = 1" using acc by (auto simp: shape_def)
  with run ok acc show ?thesis by (intro that) (simp_all add: demo_ok_def)
qed

section \<open>Safety of runs\<close>

text \<open>C5. No sequence of well-typed inputs makes the engine panic, and the only fault it can ever raise
  is the exhaustion of a 64-bit sequence: the accounting fault, which the code raises when a reservation
  or a position would under- or overflow, is unreachable.\<close>

theorem engine_never_panics:
  assumes "slab_store S" "sane_config config" "list_all typed_input is"
  shows "\<exists>c out. core_run S is (core_new S config) = Some (c, out) \<and> tc_fault c \<in> {None, Some SequenceExhausted}"
proof -
  obtain c out where "core_run S is (core_new S config) = Some (c, out)" "core_mid any_room S c"
    by (rule slab_store.core_run_ok [OF assms(1) slab_store.core_new_ok [OF assms(1) sane_config_ok [OF assms(2)]]
          typed_inputs [OF assms(3)]])
  moreover from this(2) have "tc_fault c \<in> {None, Some SequenceExhausted}"
    using core_midD(4) [of any_room S c] by (cases "tc_fault c"; cases "the (tc_fault c)") simp_all
  ultimately show ?thesis by (intro exI conjI)
qed

theorem engine_never_panics_witness:
  "\<exists>c out. core_run vec_slab demo_inputs (core_new vec_slab demo_config) = Some (c, out) \<and>
     tc_fault c \<in> {None, Some SequenceExhausted}"
  by (rule engine_never_panics [OF demo])

text \<open>C1. In every state a run reaches without a fault, the reservations of an account on an instrument
  are exactly the sums over its orders resting in that instrument's book: the open lots per side and
  their notional value.\<close>

theorem reservations_match_book:
  assumes "slab_store S" "sane_config config" "list_all typed_input is"
    "core_run S is (core_new S config) = Some (c, out)" "tc_fault c = None"
    "tc_account_index c a = Some ai" "ii < length (tc_instruments c)"
  shows "ip_open_lots (pos_at c ai ii) sd = msum (lots_at a sd) (book_lookup S (book_at c ii)) \<and>
    ip_open_notional (pos_at c ai ii) sd = msum (value_at a sd) (book_lookup S (book_at c ii))"
proof -
  have "pos_ok any_room (lookups S c ii) a (pos_at c ai ii)"
    using typed_ledger [OF assms(1-5)] assms(6,7) unfolding ledger_def positions_ok_def by blast
  then show ?thesis using assms(7) by (simp add: pos_ok_def lookups_def)
qed

theorem reservations_match_book_witness:
  "\<exists>c out. core_run vec_slab demo_inputs (core_new vec_slab demo_config) = Some (c, out) \<and> tc_fault c = None \<and>
     msum (lots_at 1 Buy) (book_lookup vec_slab (book_at c 0)) = 2"
proof -
  obtain c out x y p where c: "core_run vec_slab demo_inputs (core_new vec_slab demo_config) = Some (c, out)"
    "tc_fault c = None" "tc_account_index c 1 = Some 0" "0 < length (tc_instruments c)"
    and p: "tc_accounts c = [x, y]" "ac_positions x = [p]" "ip_open_buy_lots p = 2" by (rule demo_state)
  have "msum (lots_at 1 Buy) (book_lookup vec_slab (book_at c 0)) = 2"
    using reservations_match_book [OF demo c, of Buy] p by (simp add: pos_at_def)
  with c show ?thesis by (intro exI conjI)
qed

text \<open>C4. Trading creates and destroys no position: in every state a run reaches without a fault the positions
  of all accounts on an instrument add up to zero.\<close>

theorem positions_net_to_zero:
  assumes "slab_store S" "sane_config config" "list_all typed_input is"
    "core_run S is (core_new S config) = Some (c, out)" "tc_fault c = None" "ii < length (tc_instruments c)"
  shows "(\<Sum>ai < length (tc_accounts c). ip_position_lots (pos_at c ai ii)) = 0"
  using typed_ledger [OF assms(1-5)] assms(6) by (simp add: ledger_def net_position_def)

theorem positions_net_to_zero_witness:
  "\<exists>c out. core_run vec_slab demo_inputs (core_new vec_slab demo_config) = Some (c, out) \<and> tc_fault c = None \<and>
     (\<Sum>ai < length (tc_accounts c). ip_position_lots (pos_at c ai 0)) = 0 \<and> ip_position_lots (pos_at c 0 0) = 3"
proof -
  obtain c out x y p where c: "core_run vec_slab demo_inputs (core_new vec_slab demo_config) = Some (c, out)"
    "tc_fault c = None" "0 < length (tc_instruments c)"
    and p: "tc_accounts c = [x, y]" "ac_positions x = [p]" "ip_position_lots p = 3" by (rule demo_state)
  have "ip_position_lots (pos_at c 0 0) = 3" using p by (simp add: pos_at_def)
  with c positions_net_to_zero [OF demo c] show ?thesis by (intro exI conjI)
qed

text \<open>C7. The position limit holds at every moment: if no limit configured or later set for an account exceeds
  \<open>m\<close> lots, then in every state a run reaches without a fault the account's position together with all its
  open orders of one side never exceeds \<open>m\<close>, long or short, on any instrument.\<close>

theorem position_limit_holds:
  assumes "slab_store S" "sane_config config" "list_all typed_input is"
    and limits: "\<And>x. x \<in> set (ec_accounts config) \<Longrightarrow> acf_id x = a \<Longrightarrow> lim_max_position_lots (acf_limits x) \<le> m"
      "\<And>i l. i \<in> set is \<Longrightarrow> in_event i = ControlInput (SetAccountLimits a l) \<Longrightarrow> lim_max_position_lots l \<le> m"
    and run: "core_run S is (core_new S config) = Some (c, out)" "tc_fault c = None"
    and at: "tc_account_index c a = Some ai" "ii < length (tc_instruments c)"
  shows "ip_position_lots (pos_at c ai ii) + int (ip_open_lots (pos_at c ai ii) Buy) \<le> int m \<and>
    - ip_position_lots (pos_at c ai ii) + int (ip_open_lots (pos_at c ai ii) Sell) \<le> int m"
proof -
  let ?R = "\<lambda>b sd. if b = a then min (room sd) (int m) else room sd"
  have "config_ok ?R config"
    using assms(2) limits(1) by (fastforce simp: config_ok_def sane_config_def)
  moreover have "list_all (input_ok ?R) is"
    using assms(3) limits(2)
    by (fastforce simp: list_all_iff typed_input_def input_ok_def split: input_event.splits control_command.splits)
  ultimately have "ledger ?R c (lookups S c)" by (rule core_midD(5) [OF run_mid [OF assms(1) _ _ run(1)] run(2)])
  then have "exposed sd (pos_at c ai ii) \<le> ?R a sd" for sd
    using at unfolding ledger_def positions_ok_def pos_ok_def by blast
  from this [of Buy] this [of Sell] show ?thesis by (simp add: exposed_def)
qed

theorem position_limit_holds_witness:
  "\<exists>c out. core_run vec_slab demo_inputs (core_new vec_slab demo_config) = Some (c, out) \<and>
     ip_position_lots (pos_at c 0 0) + int (ip_open_lots (pos_at c 0 0) Buy) \<le> int 100000"
proof -
  obtain c out where c: "core_run vec_slab demo_inputs (core_new vec_slab demo_config) = Some (c, out)"
    "tc_fault c = None" "tc_account_index c 1 = Some 0" "0 < length (tc_instruments c)" by (rule demo_state)
  have "ip_position_lots (pos_at c 0 0) + int (ip_open_lots (pos_at c 0 0) Buy) \<le> int 100000"
    by (rule position_limit_holds [OF demo _ _ c, THEN conjunct1])
      (auto simp: demo_config_def account_config_new_def demo_inputs_def demo_market_def demo_order_def)
  with c show ?thesis by (intro exI conjI)
qed

text \<open>C11. Every book of every reachable state passes the book's own consistency check, holds only open orders,
  in priority order at each price, and its best bid is below its best ask.\<close>

theorem books_pass_self_check:
  assumes "slab_store S" "sane_config config" "list_all typed_input is"
    "core_run S is (core_new S config) = Some (c, out)" "ii < length (tc_instruments c)"
  shows "check_invariants S (book_at c ii) = Some (Inr ()) \<and> fifo (book_queue S (book_at c ii)) \<and>
    uncrossed (book_queue S (book_at c ii))"
proof -
  have "book_good S (book_at c ii)" by (rule books_okD(1) [OF core_midD(2) [OF typed_run [OF assms(1-4)]] assms(5)])
  then show ?thesis using slab_store.check_invariants_ok [OF assms(1)] by (auto simp: book_good_def book_ok_def)
qed

theorem books_pass_self_check_witness:
  "\<exists>c out. core_run vec_slab demo_inputs (core_new vec_slab demo_config) = Some (c, out) \<and>
     check_invariants vec_slab (book_at c 0) = Some (Inr ())"
proof -
  obtain c out where c: "core_run vec_slab demo_inputs (core_new vec_slab demo_config) = Some (c, out)"
    "0 < length (tc_instruments c)" by (rule demo_state)
  from books_pass_self_check [OF demo this] have "check_invariants vec_slab (book_at c 0) = Some (Inr ())" by (rule conjunct1)
  with c(1) show ?thesis by (intro exI conjI)
qed

text \<open>C12. The order tables list exactly the resting orders: an order id is in the live table iff it rests in
  the book of the instrument given there, under an account with the given index, and a client order id
  resolves iff an order of that account with that id rests in some book.\<close>

theorem order_tables_exact:
  assumes "slab_store S" "sane_config config" "list_all typed_input is"
    "core_run S is (core_new S config) = Some (c, out)" "tc_fault c = None"
  shows "(tc_live_orders c oid = Some lo \<longleftrightarrow>
      (\<exists>d. lookups S c (lo_instrument_index lo) oid = Some d \<and>
         tc_account_index c (o_account d) = Some (lo_account_index lo))) \<and>
    (client_order_lookup c a cid = Some oid \<longleftrightarrow>
      (\<exists>ii d. lookups S c ii oid = Some d \<and> o_account d = a \<and> o_client d = cid))"
  using typed_ledger [OF assms] by (simp add: ledger_def live_ok_def clients_ok_def client_order_lookup_def)

theorem order_tables_exact_witness:
  "\<exists>c out ii d. core_run vec_slab demo_inputs (core_new vec_slab demo_config) = Some (c, out) \<and>
     lookups vec_slab c ii 1 = Some d \<and> o_account d = 1 \<and> o_client d = 6"
proof -
  obtain c out where c: "core_run vec_slab demo_inputs (core_new vec_slab demo_config) = Some (c, out)"
    "tc_fault c = None" and ok: "demo_ok c out" by (rule demo_state)
  have "client_order_lookup c 1 6 = Some 1" using ok by (simp add: demo_ok_def client_order_lookup_def)
  then obtain ii d where "lookups vec_slab c ii 1 = Some d" "o_account d = 1" "o_client d = 6"
    using order_tables_exact [OF demo c, of 1 undefined 1 6] by auto
  with c(1) show ?thesis by (intro exI conjI)
qed

text \<open>Every input is applied in the state its predecessors led to, and its outputs carry its number.\<close>

lemma core_run_stamped:
  assumes "core_run S is c = Some (c', out)" "tc_fault c' = None"
  shows "\<exists>outs. length outs = length is \<and> out = concat outs \<and>
    (\<forall>k < length is. \<exists>ck outk ck'. core_run S (take k is) c = Some (ck, outk) \<and> core_apply S (is ! k) ck = Some (ck', outs ! k) \<and>
       (\<forall>e \<in> set (outs ! k). engine_seq_of e = tc_engine_seq c + Suc k))"
  using assms
proof (induction "is" arbitrary: c out)
  case (Cons i "is")
  obtain c1 out1 rest where r: "core_apply S i c = Some (c1, out1)" "core_run S is c1 = Some (c', rest)" "out = out1 @ rest"
    using Cons.prems(1) by (auto simp: Option.bind_eq_Some_conv)
  have "tc_fault c1 = None" using core_run_numbered [OF r(2) Cons.prems(2)] by (simp add: numbered_def)
  then have n: "numbered c c1 1 out1" by (rule core_apply_numbered [OF r(1)])
  obtain outs where outs: "length outs = length is" "rest = concat outs"
    "\<forall>k < length is. \<exists>ck outk ck'. core_run S (take k is) c1 = Some (ck, outk) \<and> core_apply S (is ! k) ck = Some (ck', outs ! k) \<and>
       (\<forall>e \<in> set (outs ! k). engine_seq_of e = tc_engine_seq c1 + Suc k)"
    using Cons.IH [OF r(2) Cons.prems(2)] by blast
  have "\<exists>ck outk ck'. core_run S (take k (i # is)) c = Some (ck, outk) \<and>
      core_apply S ((i # is) ! k) ck = Some (ck', (out1 # outs) ! k) \<and>
      (\<forall>e \<in> set ((out1 # outs) ! k). engine_seq_of e = tc_engine_seq c + Suc k)" if "k < length (i # is)" for k
  proof (cases k)
    case 0
    then show ?thesis using r(1) n by (fastforce simp: numbered_def)
  next
    case (Suc j)
    then have "j < length is" using that by simp
    then obtain ck outk ck' where "core_run S (take j is) c1 = Some (ck, outk)" "core_apply S (is ! j) ck = Some (ck', outs ! j)"
        "\<forall>e \<in> set (outs ! j). engine_seq_of e = tc_engine_seq c1 + Suc j"
      using outs(3) by blast
    then show ?thesis using Suc r(1) n by (auto simp: numbered_def)
  qed
  then show ?case using outs(1,2) r(3) by (intro exI [of _ "out1 # outs"]) simp
qed simp

text \<open>C13. The outputs of a run are numbered without gaps from one, every input takes exactly one engine sequence,
  and every output carries the engine sequence of the input that caused it: the output list is the
  concatenation of what each input emits in the state its predecessors led to, and all that the input at
  position \<open>k\<close> emits is stamped \<open>k + 1\<close>.\<close>

theorem outputs_numbered:
  assumes "core_run S is (core_new S config) = Some (c, out)" "tc_fault c = None"
  shows "map output_seq_of out = [1..<Suc (tc_output_seq c)] \<and> tc_engine_seq c = length is \<and>
    (\<exists>outs. length outs = length is \<and> out = concat outs \<and>
      (\<forall>k < length is. \<exists>ck outk ck'. core_run S (take k is) (core_new S config) = Some (ck, outk) \<and>
         core_apply S (is ! k) ck = Some (ck', outs ! k) \<and> (\<forall>e \<in> set (outs ! k). engine_seq_of e = Suc k)))"
proof -
  have "tc_output_seq (core_new S config) = 0" "tc_engine_seq (core_new S config) = 0"
    by (simp_all add: core_new_def Let_def)
  then show ?thesis
    using core_run_numbered [OF assms] core_run_stamped [OF assms] by (auto simp: numbered_def simp del: upt_Suc)
qed

theorem outputs_numbered_witness:
  "\<exists>c out outs. core_run vec_slab demo_inputs (core_new vec_slab demo_config) = Some (c, out) \<and>
     map output_seq_of out = [1..<Suc 7] \<and> out = concat outs \<and> (\<forall>k < length outs. \<forall>e \<in> set (outs ! k). engine_seq_of e = Suc k)"
proof -
  obtain c out where c: "core_run vec_slab demo_inputs (core_new vec_slab demo_config) = Some (c, out)"
    "tc_fault c = None" and ok: "demo_ok c out" by (rule demo_state)
  have "map output_seq_of out = [1..<Suc 7]" using outputs_numbered [OF c] ok by (simp add: demo_ok_def del: upt_Suc)
  moreover obtain outs where "length outs = length demo_inputs" "out = concat outs"
      "\<forall>k < length outs. \<forall>e \<in> set (outs ! k). engine_seq_of e = Suc k"
    using outputs_numbered [OF c] by metis
  ultimately show ?thesis using c(1) by blast
qed

end
