(* ===== verification/Request_Properties.thy ===== *)
theory Request_Properties
  imports Core_Properties
begin

text \<open>
  The properties of single requests (\<open>TradingCore::apply_request\<close> and its handlers): what an accepted
  order has passed, that a rejected or repeated request changes nothing a trader can see, that the kill
  switch freezes trading, and that a cancel always goes through.
\<close>

section \<open>What trading consists of\<close>

definition same_trading :: "'s trading_core \<Rightarrow> 's trading_core \<Rightarrow> bool" where
  "same_trading c c' \<longleftrightarrow>
     tc_instruments c' = tc_instruments c \<and> tc_live_orders c' = tc_live_orders c \<and>
     tc_client_orders c' = tc_client_orders c \<and> tc_global_kill c' = tc_global_kill c \<and>
     map ac_positions (tc_accounts c') = map ac_positions (tc_accounts c) \<and>
     map ac_limits (tc_accounts c') = map ac_limits (tc_accounts c) \<and>
     map ac_enabled (tc_accounts c') = map ac_enabled (tc_accounts c)"

lemma same_trading_refl [simp]: "same_trading c c"
  by (simp add: same_trading_def)

lemma same_trading_trans: "same_trading c c1 \<Longrightarrow> same_trading c1 c2 \<Longrightarrow> same_trading c c2"
  by (simp add: same_trading_def)

lemma quiet_same: "quiet c c' \<Longrightarrow> same_trading c c'"
  by (simp add: quiet_def same_trading_def)

lemma metric_same [simp]: "same_trading c (bump_metric upd c)"
  by (simp add: same_trading_def bump_metric_def)

lemma record_outcome_same:
  assumes "record_outcome ai rq fp r c = Some c'"
  shows "same_trading c c'"
proof -
  obtain a cache and n :: nat where a: "ai < length (tc_accounts c)" "a = tc_accounts c ! ai"
    and c': "c' = c\<lparr>tc_accounts := (tc_accounts c)[ai := a\<lparr>ac_cache := cache, ac_last_client_seq := n\<rparr>]\<rparr>"
  proof -
    obtain a cache where a: "idx (tc_accounts c) ai = Some a"
      and c': "c' = c\<lparr>tc_accounts := (tc_accounts c)[ai := if er_reject_reason r = None \<and> 0 < rq_client_seq rq
        then a\<lparr>ac_cache := cache, ac_last_client_seq := rq_client_seq rq\<rparr> else a\<lparr>ac_cache := cache\<rparr>]\<rparr>"
      using assms by (auto simp: record_outcome_def Option.bind_eq_Some_conv Let_def)
    show ?thesis
      using a by (intro that [where a = a and cache = cache and n = "if er_reject_reason r = None \<and> 0 < rq_client_seq rq then rq_client_seq rq
          else ac_last_client_seq a"]) (auto simp: idx_def c' split: if_splits)
  qed
  show ?thesis using a by (simp add: same_trading_def c' map_update list_update_same_conv)
qed

definition demo_request :: "request_kind \<Rightarrow> account_id \<Rightarrow> order_request" where
  "demo_request kind account =
     \<lparr>rq_kind = kind, rq_account = account, rq_instrument = 1, rq_request_id = 8, rq_client_seq = 8,
      rq_client_order_id = 8, rq_target_client_order_id = 6, rq_side = Buy, rq_order_type = Limit,
      rq_price = 100, rq_quantity = 5\<rparr>"

lemma demo_request_ok: "rq_ok (demo_request kind account)"
  by (simp add: demo_request_def rq_ok_def in_signed_def)

section \<open>Handlers that reject\<close>

lemma report_reasons:
  "er_reject_reason (fst (base_report rq oid c)) = None"
  "er_reject_reason (fst (terminal_report rq oid kind filled c)) = None"
  "er_reject_reason (fst (cancelled_report rq oid n filled c)) = None"
  "er_reject_reason (fst (replace_cancelled_report rq oid ex c)) = None"
  "er_reject_reason (fst (reject_report rq reason c)) = Some reason"
  by (simp_all add: base_report_def terminal_report_def cancelled_report_def replace_cancelled_report_def
      reject_report_def split_beta Let_def)

lemma reject_after_fault: "tc_fault (snd (reject_report rq reason (set_fault f c))) \<noteq> None"
  using quiet_fault [OF quiet_reject_report [OF surjective_pairing], of rq reason "set_fault f c"]
  by (auto simp: set_fault_def)

lemma handle_new_rejected:
  assumes "handle_new S rq c out = Some (r, c', out')" "er_reject_reason r \<noteq> None" "tc_fault c' = None"
  shows "quiet c c' \<and> out' = out \<and> (\<exists>reason. check_new_order S c rq = Some (Inl reason))"
proof -
  obtain checked where checked: "check_new_order S c rq = Some checked"
    using assms(1) by (auto simp: handle_new_def Option.bind_eq_Some_conv)
  show ?thesis
  proof (cases checked)
    case (Inl reason)
    then have "out' = out" "reject_report rq reason c = (r, c')"
      using assms(1) by (simp_all add: handle_new_def checked split_beta Let_def) (metis prod.collapse)
    then show ?thesis using quiet_reject_report checked Inl by blast
  next
    case (Inr ck)
    have False
    proof (cases "counter_next (tc_next_order_id c)")
      case None
      then have "reject_report rq reject_reason.CapacityExhausted (set_fault SequenceExhausted c) = (r, c')"
        using assms(1) by (simp add: handle_new_def checked Inr split_beta Let_def prod_eq_iff del: counter_next_None)
      then show False using reject_after_fault [of rq reject_reason.CapacityExhausted SequenceExhausted c] assms(3) by simp
    next
      case (Some oid)
      obtain filled c1 out1 where ex: "execute S (cn_instrument_index ck) (cn_account_index ck) rq oid
          (rq_side rq) (cn_execution_limit ck) (rq_quantity rq) (c\<lparr>tc_next_order_id := oid\<rparr>) out = Some (filled, c1, out1)"
        using assms(1) Some
        by (cases "execute S (cn_instrument_index ck) (cn_account_index ck) rq oid (rq_side rq)
            (cn_execution_limit ck) (rq_quantity rq) (c\<lparr>tc_next_order_id := oid\<rparr>) out")
          (auto simp: handle_new_def checked Inr simp del: counter_next_Some)
      show False
        using assms Some ex reject_after_fault [of rq ArithmeticOverflow Accounting c1]
        by (cases "checked_sub (rq_quantity rq) filled")
          (auto simp: handle_new_def checked Inr Option.bind_eq_Some_conv report_reasons split_beta Let_def
            simp del: counter_next_Some checked_sub_Some checked_sub_None split: if_split_asm)
    qed
    then show ?thesis ..
  qed
qed

lemma reject_faults [simp]: "tc_fault (snd (reject_report rq reason (set_fault f c))) = None \<longleftrightarrow> False"
  using reject_after_fault by simp

lemma handle_cancel_rejected:
  assumes "handle_cancel S rq c = Some (r, c')" "er_reject_reason r \<noteq> None"
  shows "quiet c c'"
  using assms
  by (auto simp: handle_cancel_def report_reasons split_beta Let_def Option.bind_eq_Some_conv
      intro: quiet_reject_report [OF surjective_pairing] dest: quiet_reject_report split: option.splits if_splits)

lemma replace_in_place_accepts:
  assumes "replace_in_place S rq ai ii oid ex c = Some (r, c')" "tc_fault c' = None"
  shows "er_reject_reason r = None"
  using assms unfolding replace_in_place_def
  by (cases "checked_sub (o_total ex) (rq_quantity rq)"; cases "checked_sub (rq_quantity rq) (o_filled ex)")
    (auto simp: report_reasons split_beta Let_def Option.bind_eq_Some_conv prod_eq_iff
      simp del: checked_sub_Some checked_sub_None split: if_split_asm)

lemma requeue_result_accepts:
  assumes "(case checked_add 64 (o_filled ex) filled of
       None \<Rightarrow> (let (rep, c4) = reject_report rq ArithmeticOverflow (set_fault Accounting c3) in Some (rep, c4, out1))
     | Some cumulative \<Rightarrow>
         if cumulative = rq_quantity rq then
           (let (rep, c4) = base_report rq oid c3
            in Some (rep\<lparr>er_kind := RepFilled, er_state := StFilled,
                 er_client_order_id := o_client ex, er_side := o_side ex,
                 er_cumulative_filled := cumulative, er_remaining := 0\<rparr>, c4, out1))
         else do {
           c4 \<leftarrow> rest_order_with S ii ai (o_client ex) (o_side ex) (rq_price rq) (rq_quantity rq) cumulative oid c3;
           (let (rep, c5) = base_report rq oid c4;
                (lots, c6) =
                  (case checked_sub (rq_quantity rq) cumulative of
                     Some l \<Rightarrow> (l, c5)
                   | None \<Rightarrow> (0, set_fault Accounting c5))
            in Some (rep\<lparr>er_kind := RepReplaced, er_client_order_id := o_client ex,
                 er_side := o_side ex, er_state := working_state cumulative,
                 er_cumulative_filled := cumulative, er_remaining := lots\<rparr>, c6, out1))
         }) = Some (r, c', out')" "tc_fault c' = None"
  shows "er_reject_reason r = None"
proof (cases "checked_add 64 (o_filled ex) filled")
  case None
  then show ?thesis using assms by (auto simp: split_beta Let_def simp del: checked_add_None)
next
  case (Some cum)
  then show ?thesis
    using assms
    by (cases "cum = rq_quantity rq"; cases "checked_sub (rq_quantity rq) cum")
      (auto simp: split_beta Let_def report_reasons Option.bind_eq_Some_conv
        simp del: checked_add_Some checked_sub_Some checked_sub_None)
qed

lemma replace_requeue_accepts:
  assumes "replace_requeue S rq ai ii oid ex c out = Some (r, c', out')" "tc_fault c' = None"
  shows "er_reject_reason r = None"
proof (cases "rq_quantity rq = o_filled ex \<or> checked_sub (rq_quantity rq) (o_filled ex) = None")
  case True
  then show ?thesis
    using assms unfolding replace_requeue_def
    by (cases "rq_quantity rq = o_filled ex")
      (auto simp: report_reasons split_beta Let_def Option.bind_eq_Some_conv simp del: checked_sub_None remaining_Some)
next
  case False
  then obtain target where t: "checked_sub (rq_quantity rq) (o_filled ex) = Some target" by blast
  show ?thesis
    using assms False t unfolding replace_requeue_def
    by (auto simp: Option.bind_eq_Some_conv simp del: checked_sub_Some remaining_Some
        dest!: requeue_result_accepts)
qed

lemma handle_replace_rejected:
  assumes "handle_replace S rq c out = Some (r, c', out')" "er_reject_reason r \<noteq> None" "tc_fault c' = None"
  shows "quiet c c' \<and> out' = out"
proof -
  obtain checked where checked: "check_replace S c rq = Some checked"
    using assms(1) by (auto simp: handle_replace_def Option.bind_eq_Some_conv)
  show ?thesis
  proof (cases checked)
    case (Inl reason)
    then show ?thesis
      using assms(1) quiet_reject_report [OF surjective_pairing, where rq = rq and reason = reason and c = c]
      by (auto simp: handle_replace_def checked split_beta Let_def)
  next
    case (Inr ck)
    then show ?thesis
      using assms replace_in_place_accepts replace_requeue_accepts
      by (fastforce simp: handle_replace_def checked Let_def Option.bind_eq_Some_conv split: if_split_asm)
  qed
qed

section \<open>Fresh requests\<close>

lemma record_outcome_fault: "record_outcome ai rq fp r c = Some c' \<Longrightarrow> tc_fault c' = tc_fault c"
  by (auto simp: record_outcome_def Option.bind_eq_Some_conv Let_def)

lemma fresh_request:
  assumes "apply_fresh_request S rq c out = Some (c', out')"
  obtains r c1 c2 out1 where
    "(case rq_kind rq of
        New \<Rightarrow> handle_new S rq c out
      | Cancel \<Rightarrow> do { (r, c') \<leftarrow> handle_cancel S rq c; Some (r, c', out) }
      | Replace \<Rightarrow> handle_replace S rq c out) = Some (r, c1, out1)"
    "out' = out1 @ [OutReport r]" "same_trading c1 c'" "tc_fault c' = tc_fault c1"
    "same_trading c1 c2" "tc_account_index c2 = tc_account_index c1" "tc_accounts c2 = tc_accounts c1"
    "(case tc_account_index c2 (rq_account rq) of
        Some ai \<Rightarrow> record_outcome ai rq (request_fingerprint rq) r c2 | None \<Rightarrow> Some c2) = Some c'"
proof -
  obtain r c1 out1 upd where h: "(case rq_kind rq of
        New \<Rightarrow> handle_new S rq c out
      | Cancel \<Rightarrow> do { (r, c') \<leftarrow> handle_cancel S rq c; Some (r, c', out) }
      | Replace \<Rightarrow> handle_replace S rq c out) = Some (r, c1, out1)"
    and out': "out' = out1 @ [OutReport r]"
    and rec: "(case tc_account_index (bump_metric upd c1) (rq_account rq) of
        Some ai \<Rightarrow> record_outcome ai rq (request_fingerprint rq) r (bump_metric upd c1)
      | None \<Rightarrow> Some (bump_metric upd c1)) = Some c'"
    using assms unfolding apply_fresh_request_def Let_def
    by (auto simp: Option.bind_eq_Some_conv simp del: not_None_eq split: if_split_asm)
  have "same_trading (bump_metric upd c1) c'" "tc_fault c' = tc_fault (bump_metric upd c1)"
    using rec by (auto dest: record_outcome_same record_outcome_fault split: option.split_asm)
  then have "same_trading c1 c'" "tc_fault c' = tc_fault c1"
    using same_trading_trans [OF metric_same] by (auto simp: bump_metric_def)
  from that [OF h out' this metric_same _ _ rec] show ?thesis by (simp add: bump_metric_def)
qed

text \<open>C19. A rejected request is inert: it emits its report and nothing else, and no book, position, limit,
  live order or client order id changes, whatever the kind of the request and the reason of the rejection.\<close>

theorem rejected_request_inert:
  assumes "apply_fresh_request S rq c out = Some (c', out')" "tc_fault c' = None"
    "last out' = OutReport r" "er_reject_reason r \<noteq> None"
  shows "out' = out @ [OutReport r] \<and> same_trading c c'"
proof -
  obtain r' c1 c2 out1 where h: "(case rq_kind rq of
        New \<Rightarrow> handle_new S rq c out
      | Cancel \<Rightarrow> do { (r, c') \<leftarrow> handle_cancel S rq c; Some (r, c', out) }
      | Replace \<Rightarrow> handle_replace S rq c out) = Some (r', c1, out1)"
    "out' = out1 @ [OutReport r']" "same_trading c1 c'" "tc_fault c' = tc_fault c1"
    by (rule fresh_request [OF assms(1)])
  then have r: "r' = r" "tc_fault c1 = None" using assms(2,3) by simp_all
  have "quiet c c1 \<and> out1 = out"
  proof (cases "rq_kind rq")
    case New
    then show ?thesis using h(1) handle_new_rejected [of S rq c out r c1 out1] r assms(4) by simp
  next
    case Cancel
    then show ?thesis
      using h(1) handle_cancel_rejected [of S rq c r c1] r assms(4) by (auto simp: Option.bind_eq_Some_conv)
  next
    case Replace
    then show ?thesis using h(1) handle_replace_rejected [of S rq c out r c1 out1] r assms(4) by simp
  qed
  then show ?thesis using h(2,3) r(1) same_trading_trans [OF quiet_same] by blast
qed

theorem rejected_request_inert_witness:
  "\<exists>c' r. apply_fresh_request vec_slab (demo_request New 9) (core_new vec_slab demo_config) [] = Some (c', [OutReport r]) \<and>
     er_reject_reason r = Some UnknownAccount \<and> same_trading (core_new vec_slab demo_config) c'"
proof -
  have "(case apply_fresh_request vec_slab (demo_request New 9) (core_new vec_slab demo_config) [] of
      Some (c', out) \<Rightarrow> tc_fault c' = None \<and>
        (case out of
           [] \<Rightarrow> False
         | e # es \<Rightarrow> es = [] \<and> (case e of OutReport r \<Rightarrow> er_reject_reason r = Some UnknownAccount | _ \<Rightarrow> False))
    | None \<Rightarrow> False)"
    by code_simp
  then obtain c' r where ap: "apply_fresh_request vec_slab (demo_request New 9) (core_new vec_slab demo_config) [] =
      Some (c', [OutReport r])" "tc_fault c' = None" "er_reject_reason r = Some UnknownAccount"
    by (auto split: option.split_asm prod.split_asm list.split_asm output_event.split_asm)
  with rejected_request_inert [OF ap(1,2)] show ?thesis by simp
qed

section \<open>The kill switch\<close>

lemma kill_blocks:
  assumes "tc_global_kill c"
  shows "check_new_order S c rq \<noteq> Some (Inr ck)" "check_replace S c rq \<noteq> Some (Inr ck')"
  using assms
  by (auto simp: check_new_order_def check_replace_def try_else_Inr_iff Option.bind_eq_Some_conv
      check_trading_permitted_def Let_def)

lemma kill_handlers:
  assumes "tc_global_kill c"
  shows "handle_new S rq c out = Some (r, c', out') \<Longrightarrow> quiet c c' \<and> out' = out \<and> er_reject_reason r \<noteq> None"
    and "handle_replace S rq c out = Some (r, c', out') \<Longrightarrow> quiet c c' \<and> out' = out \<and> er_reject_reason r \<noteq> None"
proof -
  assume new: "handle_new S rq c out = Some (r, c', out')"
  obtain reason where "check_new_order S c rq = Some (Inl reason)"
    using new kill_blocks(1) [OF assms] by (auto simp: handle_new_def Option.bind_eq_Some_conv) (metis sum.exhaust)
  then show "quiet c c' \<and> out' = out \<and> er_reject_reason r \<noteq> None"
    using new quiet_reject_report [OF surjective_pairing, where rq = rq and reason = reason and c = c]
    by (auto simp: handle_new_def split_beta Let_def report_reasons)
next
  assume rep: "handle_replace S rq c out = Some (r, c', out')"
  obtain reason where "check_replace S c rq = Some (Inl reason)"
    using rep kill_blocks(2) [OF assms] by (auto simp: handle_replace_def Option.bind_eq_Some_conv) (metis sum.exhaust)
  then show "quiet c c' \<and> out' = out \<and> er_reject_reason r \<noteq> None"
    using rep quiet_reject_report [OF surjective_pairing, where rq = rq and reason = reason and c = c]
    by (auto simp: handle_replace_def split_beta Let_def report_reasons)
qed

section \<open>Repeated requests\<close>

definition request_hit :: "'s trading_core \<Rightarrow> order_request \<Rightarrow> cache_hit option" where
  "request_hit c rq =
     (case tc_account_index c (rq_account rq) of
        None \<Rightarrow> None
      | Some ai \<Rightarrow> cache_lookup (ac_cache (tc_accounts c ! ai)) (rq_request_id rq) (request_fingerprint rq))"

definition restamp :: "nat \<Rightarrow> 's trading_core \<Rightarrow> execution_report \<Rightarrow> execution_report" where
  "restamp sq c r = r\<lparr>er_output_seq := sq, er_engine_seq := tc_engine_seq c, er_engine_time_ns := tc_engine_time_ns c\<rparr>"

lemma apply_known:
  assumes "shape c" "tc_account_index c (rq_account rq) = Some ai"
  shows "apply_request S rq c out =
    (case request_hit c rq of
       Some (Retry previous) \<Rightarrow>
         Some (snd (take_output_seq c),
           out @ [OutReport (restamp (fst (take_output_seq c)) (snd (take_output_seq c)) previous)])
     | Some Conflict \<Rightarrow>
         map_option (\<lambda>c'. (c', out @ [OutReport (fst (reject_report rq DuplicateRequestConflict c))]))
           (record_outcome ai rq (request_fingerprint rq) (fst (reject_report rq DuplicateRequestConflict c))
             (snd (reject_report rq DuplicateRequestConflict c)))
     | None \<Rightarrow> apply_fresh_request S rq c out)"
proof -
  have "idx (tc_accounts c) ai = Some (tc_accounts c ! ai)" using shape_account(1) [OF assms] by (rule idx_less)
  then have "apply_request S rq c out =
      (case request_hit c rq of
         Some (Retry previous) \<Rightarrow>
           (let (sq, c') = take_output_seq c
            in Some (c', out @ [OutReport (previous\<lparr>er_output_seq := sq,
                 er_engine_seq := tc_engine_seq c', er_engine_time_ns := tc_engine_time_ns c'\<rparr>)]))
       | Some Conflict \<Rightarrow>
           (let (report, c') = reject_report rq DuplicateRequestConflict c in do {
              c'' \<leftarrow> record_outcome ai rq (request_fingerprint rq) report c';
              Some (c'', out @ [OutReport report])
            })
       | None \<Rightarrow> apply_fresh_request S rq c out)"
    using assms(2) by (simp only: apply_request_def request_hit_def option.case Option.bind.simps)
  then show ?thesis
    by (simp add: split_beta Let_def restamp_def map_conv_bind_option o_def cong: option.case_cong cache_hit.case_cong)
qed

lemma hit_known: "request_hit c rq = Some h \<Longrightarrow> \<exists>ai. tc_account_index c (rq_account rq) = Some ai"
  by (auto simp: request_hit_def split: option.splits)

lemma retry_step:
  assumes "request_hit c rq = Some (Retry previous)" "shape c"
  shows "\<exists>c' sq. apply_request S rq c out = Some (c', out @ [OutReport (restamp sq c' previous)]) \<and> quiet c c'"
proof -
  obtain ai where "tc_account_index c (rq_account rq) = Some ai" using hit_known [OF assms(1)] by blast
  then show ?thesis
    using quiet_take_output_seq [of c] unfolding apply_known [OF assms(2) \<open>tc_account_index c (rq_account rq) = Some ai\<close>]
    by (auto simp: assms(1))
qed

lemma apply_request_cases:
  assumes "apply_request S rq c out = Some (c', out')" "shape c"
  obtains (fresh) "request_hit c rq = None" "apply_fresh_request S rq c out = Some (c', out')"
    | (retry) r where "request_hit c rq = Some (Retry r)"
    | (conflict) r c1 ai where "request_hit c rq = Some Conflict" "tc_account_index c (rq_account rq) = Some ai"
        "out' = out @ [OutReport r]" "quiet c c1" "record_outcome ai rq (request_fingerprint rq) r c1 = Some c'"
proof (cases "tc_account_index c (rq_account rq)")
  case None
  then show ?thesis using assms(1) fresh by (simp add: request_hit_def apply_request_def)
next
  case (Some ai)
  note ap = assms(1) [unfolded apply_known [OF assms(2) Some]]
  consider "request_hit c rq = None" | r where "request_hit c rq = Some (Retry r)" | "request_hit c rq = Some Conflict"
    by (cases "request_hit c rq"; cases "the (request_hit c rq)") auto
  then show ?thesis
  proof cases
    case 1
    then show ?thesis using ap by (intro fresh) simp_all
  next
    case 2
    then show ?thesis by (rule retry)
  next
    case 3
    show ?thesis
      by (rule conflict [OF 3 Some _ quiet_reject_report [OF surjective_pairing]]) (use ap 3 in auto)
  qed
qed

lemma cache_record_lookup:
  assumes "cache_record rc rid fp r = Some rc'"
  shows "cache_lookup rc' rid fp' = Some (if fp' = fp then Retry r else Conflict)"
proof -
  obtain old index where n: "rc_next rc < length (rc_entries rc)"
    and rc': "rc_index rc' = index(rid \<mapsto> rc_next rc)"
      "rc_entries rc' = (rc_entries rc)[rc_next rc := Some \<lparr>cr_request_id = rid, cr_fingerprint = fp, cr_outcome = r\<rparr>]"
    using assms unfolding cache_record_def Let_def by (fastforce simp: idx_def Option.bind_eq_Some_conv split: if_split_asm)
  then show ?thesis by (simp add: cache_lookup_def idx_less)
qed

lemma record_outcome_hit:
  assumes "record_outcome ai rq (request_fingerprint rq) r c = Some c'" "tc_account_index c (rq_account rq) = Some ai"
  shows "request_hit c' rq = Some (Retry r)"
proof -
  obtain a cache n where a: "idx (tc_accounts c) ai = Some a"
    and cache: "cache_record (ac_cache a) (rq_request_id rq) (request_fingerprint rq) r = Some cache"
    and c': "c' = c\<lparr>tc_accounts := (tc_accounts c)[ai := n]\<rparr>" "ac_cache n = cache"
  proof -
    obtain a where a: "idx (tc_accounts c) ai = Some a"
      using assms(1) by (cases "idx (tc_accounts c) ai") (simp_all add: record_outcome_def)
    obtain cache where cache: "cache_record (ac_cache a) (rq_request_id rq) (request_fingerprint rq) r = Some cache"
      using assms(1) a by (cases "cache_record (ac_cache a) (rq_request_id rq) (request_fingerprint rq) r")
        (simp_all add: record_outcome_def del: idx_Some)
    show ?thesis
      by (rule that [OF a cache, of "if er_reject_reason r = None \<and> 0 < rq_client_seq rq
            then a\<lparr>ac_cache := cache, ac_last_client_seq := rq_client_seq rq\<rparr> else a\<lparr>ac_cache := cache\<rparr>"])
        (use assms(1) a cache in \<open>simp_all add: record_outcome_def Let_def del: idx_Some not_None_eq\<close>)
  qed
  have "ai < length (tc_accounts c)" using a by (simp add: idx_def split: if_splits)
  then show ?thesis
    using assms(2) cache_record_lookup [OF cache, of "request_fingerprint rq"] by (simp add: request_hit_def c')
qed

text \<open>C20. The kill switch freezes trading: while it is engaged, a new order or a replace in any state a run reaches
  emits exactly one report, a rejection unless the request repeats an earlier one, and leaves every book,
  position and order table as it was.\<close>

theorem kill_switch_freezes:
  assumes "slab_store S" "sane_config config" "list_all typed_input is"
    "core_run S is (core_new S config) = Some (c, out)" "tc_fault c = None"
    and kill: "tc_global_kill c" "rq_ok rq" "rq_kind rq \<noteq> Cancel"
  shows "\<exists>c' r. apply_request S rq c out0 = Some (c', out0 @ [OutReport r]) \<and> same_trading c c' \<and>
    (request_hit c rq = None \<longrightarrow> er_reject_reason r \<noteq> None)"
proof -
  note mid = typed_run [OF assms(1-4)]
  note sh = core_midD(1) [OF mid]
  obtain c' out' where ap: "apply_request S rq c out0 = Some (c', out')"
    by (rule slab_store.apply_request_ok [OF assms(1) mid assms(5) kill(2)])
  show ?thesis
  proof (rule apply_request_cases [OF ap sh])
    assume fresh: "apply_fresh_request S rq c out0 = Some (c', out')"
    obtain r c1 c2 out1 where h: "(case rq_kind rq of
          New \<Rightarrow> handle_new S rq c out0
        | Cancel \<Rightarrow> do { (r, c') \<leftarrow> handle_cancel S rq c; Some (r, c', out0) }
        | Replace \<Rightarrow> handle_replace S rq c out0) = Some (r, c1, out1)"
      "out' = out1 @ [OutReport r]" "same_trading c1 c'" by (rule fresh_request [OF fresh])
    have "quiet c c1 \<and> out1 = out0 \<and> er_reject_reason r \<noteq> None"
      using h(1) kill(3) kill_handlers [OF kill(1)] by (cases "rq_kind rq") auto
    then show ?thesis using ap h(2,3) same_trading_trans [OF quiet_same] by blast
  next
    fix previous assume "request_hit c rq = Some (Retry previous)"
    then show ?thesis using retry_step [OF _ sh, of rq previous S out0] quiet_same by fastforce
  next
    fix r c1 ai assume "request_hit c rq = Some Conflict" "out' = out0 @ [OutReport r]" "quiet c c1"
      "record_outcome ai rq (request_fingerprint rq) r c1 = Some c'"
    then show ?thesis using ap same_trading_trans [OF quiet_same record_outcome_same] by fastforce
  qed
qed

theorem kill_switch_freezes_witness:
  "\<exists>c c' r. tc_global_kill c \<and> apply_request vec_slab (demo_request New 1) c [] = Some (c', [OutReport r]) \<and> same_trading c c'"
proof -
  let ?is = "[\<lparr>in_ingress_seq = 1, in_recv_time_ns = 1, in_event = ControlInput (SetGlobalKill True)\<rparr>]"
  have "(case core_run vec_slab ?is (core_new vec_slab demo_config) of
      Some (c, out) \<Rightarrow> tc_fault c = None \<and> tc_global_kill c | None \<Rightarrow> False)" by code_simp
  then obtain c out where c: "core_run vec_slab ?is (core_new vec_slab demo_config) = Some (c, out)" "tc_fault c = None"
    "tc_global_kill c" by (auto split: option.split_asm)
  have "list_all typed_input ?is" by (simp add: typed_input_def)
  from kill_switch_freezes [OF demo(1,2) this c demo_request_ok, of New 1 "[]"] c(3) show ?thesis
    by (auto simp: demo_request_def)
qed

lemma handler_setup:
  assumes S: "slab_store S" and mid: "core_mid R S c" "tc_fault c = None" "rq_ok rq"
    and h: "(case rq_kind rq of
        New \<Rightarrow> handle_new S rq c out
      | Cancel \<Rightarrow> do { (r, c') \<leftarrow> handle_cancel S rq c; Some (r, c', out) }
      | Replace \<Rightarrow> handle_replace S rq c out) = Some (r, c1, out1)"
  shows "same_setup c c1"
proof (cases "rq_kind rq")
  case New
  obtain r' c' o' where "handle_new S rq c out = Some (r', c', o')" "same_setup c c'"
    by (rule slab_store.handle_new_ok [OF S mid])
  then show ?thesis using h New by simp
next
  case Cancel
  obtain r' c' where "handle_cancel S rq c = Some (r', c')" "same_setup c c'"
    by (rule slab_store.handle_cancel_ok [OF S mid(1,2)])
  then show ?thesis using h Cancel by simp
next
  case Replace
  obtain r' c' o' where "handle_replace S rq c out = Some (r', c', o')" "same_setup c c'"
    by (rule slab_store.handle_replace_ok [OF S mid])
  then show ?thesis using h Replace by simp
qed

section \<open>Cancels\<close>

text \<open>C21. A cancel always goes through: in every state a run reaches without a fault, also under the kill switch
  and for a disabled account, a cancel of a client order id that resolves returns a cancel report for
  that order, and afterwards the order is in no table and no book.\<close>

theorem cancel_always_works:
  assumes "slab_store S" "sane_config config" "list_all typed_input is"
    "core_run S is (core_new S config) = Some (c, out)" "tc_fault c = None"
    and key: "client_order_lookup c (rq_account rq) (rq_target_client_order_id rq) = Some oid"
  shows "\<exists>r c'. handle_cancel S rq c = Some (r, c') \<and> er_kind r = RepCancelled \<and> er_reject_reason r = None \<and>
    er_order_id r = oid \<and> client_order_lookup c' (rq_account rq) (rq_target_client_order_id rq) = None \<and>
    tc_live_orders c' oid = None \<and> (tc_fault c' = None \<longrightarrow> (\<forall>ii. lookups S c' ii oid = None))"
proof -
  note mid = typed_run [OF assms(1-4)]
  note L = core_midD(5) [OF mid assms(5)]
  obtain r c' where h: "handle_cancel S rq c = Some (r, c')" "core_mid any_room S c'"
    by (rule slab_store.handle_cancel_ok [OF assms(1) mid assms(5)])
  obtain ii d where d: "lookups S c ii oid = Some d" "o_account d = rq_account rq"
    using L key by (auto simp: ledger_def clients_ok_def client_order_lookup_def)
  have ok: "tc_account_index c (rq_account rq) \<noteq> None"
    using orders_okD(2) [OF ledgerD(1) [OF L] d(1)] d(2) by (simp add: order_ok_def)
  then obtain ai where ai: "tc_account_index c (rq_account rq) = Some ai" by blast
  have live: "tc_live_orders c oid = Some \<lparr>lo_account_index = ai, lo_instrument_index = ii\<rparr>"
    using L d ai by (simp add: ledger_def live_ok_def)
  obtain c1 and node :: order_node where base: "c' = snd (base_report rq oid (drop_order_entry oid (rq_account rq, rq_target_client_order_id rq) c1))"
    and r: "r = (fst (base_report rq oid (drop_order_entry oid (rq_account rq, rq_target_client_order_id rq) c1)))
      \<lparr>er_kind := RepCancelled, er_state := StCancelled, er_client_order_id := o_client node, er_side := o_side node,
       er_price := o_price node, er_total_quantity := o_total node, er_cumulative_filled := o_filled node, er_remaining := 0\<rparr>"
    using h(1) key live ai
    by (auto simp: handle_cancel_def client_order_lookup_def split_beta Let_def Option.bind_eq_Some_conv
        simp del: remaining_Some)
  have q: "quiet (drop_order_entry oid (rq_account rq, rq_target_client_order_id rq) c1) c'"
    unfolding base by (rule quiet_base_report [OF surjective_pairing])
  have gone: "tc_live_orders c' oid = None" "client_order_lookup c' (rq_account rq) (rq_target_client_order_id rq) = None"
    using q by (simp_all add: quiet_def drop_order_entry_def client_order_lookup_def)
  have "lookups S c' j oid = None" if "tc_fault c' = None" for j
  proof (rule ccontr)
    assume "lookups S c' j oid \<noteq> None"
    then obtain d' where d': "lookups S c' j oid = Some d'" by blast
    note L' = core_midD(5) [OF h(2) that]
    obtain ai' where "tc_account_index c' (o_account d') = Some ai'"
      using orders_okD(2) [OF ledgerD(1) [OF L'] d'] by (auto simp: order_ok_def)
    then have "tc_live_orders c' oid = Some \<lparr>lo_account_index = ai', lo_instrument_index = j\<rparr>"
      using L' d' by (simp add: ledger_def live_ok_def)
    then show False using gone(1) by simp
  qed
  then show ?thesis
    using h(1) gone by (intro exI [of _ r] exI [of _ c'])
      (simp add: r report_reasons, simp add: base_report_def split_beta Let_def)
qed

theorem cancel_always_works_witness:
  "\<exists>c out r c'. core_run vec_slab demo_inputs (core_new vec_slab demo_config) = Some (c, out) \<and>
     handle_cancel vec_slab (demo_request Cancel 1) c = Some (r, c') \<and> er_kind r = RepCancelled \<and>
     tc_live_orders c' 1 = None"
proof -
  obtain c out where c: "core_run vec_slab demo_inputs (core_new vec_slab demo_config) = Some (c, out)" "demo_ok c out"
    "tc_fault c = None" by (rule demo_state)
  have "client_order_lookup c (rq_account (demo_request Cancel 1)) (rq_target_client_order_id (demo_request Cancel 1)) = Some 1"
    using c(2) by (simp add: demo_ok_def demo_request_def client_order_lookup_def)
  from cancel_always_works [OF demo c(1,3) this] c(1) show ?thesis by blast
qed

section \<open>Accepted orders\<close>

lemma check_new_order_gates:
  assumes "check_new_order S c rq = Some (Inr ck)"
  shows "tc_account_index c (rq_account rq) = Some (cn_account_index ck)"
    "tc_instrument_index c (rq_instrument rq) = Some (cn_instrument_index ck)"
    "check_quantity c (cn_instrument_index ck) (rq_quantity rq) = Some (Inr ())"
    "rq_order_type rq = Limit \<Longrightarrow> check_price c (cn_instrument_index ck) (rq_price rq) = Some (Inr ())"
    "rq_order_type rq = Limit \<Longrightarrow> cn_execution_limit ck = rq_price rq"
    "client_order_lookup c (rq_account rq) (rq_client_order_id rq) = None"
    "check_trading_permitted c (cn_account_index ck) = Some (Inr ())"
    "check_client_sequence c (cn_account_index ck) (rq_client_seq rq) = Some (Inr ())"
    "\<exists>ref. check_reference_price c (cn_instrument_index ck) = Some (Inr ref) \<and>
       (rq_order_type rq = Market \<longrightarrow>
          protection_price ref (rq_side rq) (ec_market_protection_ticks (tc_config c)) = Inr (cn_execution_limit ck)) \<and>
       tick_distance (cn_execution_limit ck) ref \<le> collar_ticks (ac_limits (tc_accounts c ! cn_account_index ck))"
    "rq_quantity rq \<le> lim_max_order_quantity (ac_limits (tc_accounts c ! cn_account_index ck))"
    "\<exists>n. checked_notional (rq_quantity rq) (cn_execution_limit ck) = Some n \<and>
       n \<le> lim_max_order_notional (ac_limits (tc_accounts c ! cn_account_index ck))"
    "check_exposure c (cn_account_index ck) (cn_instrument_index ck) (rq_side rq) (rq_quantity rq) (cn_execution_limit ck)
       0 (cn_execution_limit ck) = Some (Inr ())"
    "\<not> is_full S (ir_book (tc_instruments c ! cn_instrument_index ck))"
  using assms
  by (cases "rq_order_type rq"; auto simp: check_new_order_def try_else_Inr_iff bind_convs split: if_splits)+

lemma gate_facts:
  "check_quantity c ii q = Some (Inr ()) \<Longrightarrow> 0 < q \<and> ic_lot_size (ir_config (tc_instruments c ! ii)) dvd q"
  "check_price c ii p = Some (Inr ()) \<Longrightarrow> ic_min_price_ticks (ir_config (tc_instruments c ! ii)) \<le> p \<and>
     p \<le> ic_max_price_ticks (ir_config (tc_instruments c ! ii)) \<and> ic_tick_size (ir_config (tc_instruments c ! ii)) dvd p"
  "check_trading_permitted c ai = Some (Inr ()) \<Longrightarrow> \<not> tc_global_kill c \<and> ac_enabled (tc_accounts c ! ai)"
  "check_client_sequence c ai n = Some (Inr ()) \<Longrightarrow> ac_last_client_seq (tc_accounts c ! ai) < n"
  "check_reference_price c ii = Some (Inr ref) \<Longrightarrow> mv_reference_price (ir_market (tc_instruments c ! ii)) = Some ref \<and>
     mv_state (ir_market (tc_instruments c ! ii)) = Live \<and>
     tc_engine_time_ns c - mv_last_update_time_ns (ir_market (tc_instruments c ! ii)) \<le> ec_max_market_age_ns (tc_config c)"
  "checked_notional q p = Some n \<Longrightarrow> n = q * unsigned_abs p"
  by (auto simp: check_quantity_def check_price_def check_trading_permitted_def check_client_sequence_def
      check_reference_price_def checked_notional_def rem_unsigned_def rem_signed_def Let_def bind_convs sgn_0_0
      split: if_split_asm)

text \<open>The position with a further open order.\<close>

fun with_order :: "instrument_position \<Rightarrow> side \<Rightarrow> quantity_lots \<Rightarrow> price_ticks \<Rightarrow> instrument_position" where
  "with_order ip Buy q p =
     ip\<lparr>ip_open_buy_lots := ip_open_buy_lots ip + q, ip_open_buy_notional := ip_open_buy_notional ip + q * unsigned_abs p\<rparr>"
| "with_order ip Sell q p =
     ip\<lparr>ip_open_sell_lots := ip_open_sell_lots ip + q, ip_open_sell_notional := ip_open_sell_notional ip + q * unsigned_abs p\<rparr>"

fun worst_position :: "instrument_position \<Rightarrow> side \<Rightarrow> nat" where
  "worst_position ip Buy = unsigned_abs (ip_position_lots ip + int (ip_open_buy_lots ip))"
| "worst_position ip Sell = unsigned_abs (ip_position_lots ip - int (ip_open_sell_lots ip))"

lemma protection_price_Inr:
  "protection_price ref sd ticks = Inr p \<Longrightarrow> p = (case sd of Buy \<Rightarrow> ref + ticks | Sell \<Rightarrow> ref - ticks)"
  by (cases sd) (auto simp: protection_price_def checked_add_ticks_def checked_sub_ticks_def)

lemma projected_position_new:
  "projected_position ip sd q p 0 p = Some proj \<Longrightarrow> proj = with_order ip sd q p"
  by (cases sd) (auto simp: projected_position_def checked_notional_def bind_convs Let_def split: if_splits)

lemma worst_case_position_Some: "worst_case_position ip sd = Some n \<Longrightarrow> n = worst_position ip sd"
  by (cases sd) (auto simp: bind_convs)

lemma check_exposure_gates:
  assumes "check_exposure c ai ii sd q p 0 p = Some (Inr ())"
  shows "\<exists>ip gross. tc_position c ai ii = Some ip \<and>
    worst_position (with_order ip sd q p) sd \<le> lim_max_position_lots (ac_limits (tc_accounts c ! ai)) \<and>
    gross_exposure c ai ii (with_order ip sd q p) (zip [0..<length (tc_instruments c)] (tc_instruments c)) 0 = Some (Inr gross) \<and>
    gross \<le> lim_max_gross_exposure (ac_limits (tc_accounts c ! ai))"
proof -
  obtain ip proj worst gross where "tc_position c ai ii = Some ip" "projected_position ip sd q p 0 p = Some proj"
    "worst_case_position proj sd = Some worst" "worst \<le> lim_max_position_lots (ac_limits (tc_accounts c ! ai))"
    "gross_exposure c ai ii proj (zip [0..<length (tc_instruments c)] (tc_instruments c)) 0 = Some (Inr gross)"
    "gross \<le> lim_max_gross_exposure (ac_limits (tc_accounts c ! ai))"
    using assms by (auto simp: check_exposure_def try_else_Inr_iff bind_convs not_less)
  then show ?thesis
    using projected_position_new [of ip sd q p proj] worst_case_position_Some [of proj sd worst]
    by (intro exI [of _ ip] exI [of _ gross]) simp
qed

text \<open>C22. An accepted new order has passed every gate of the risk check: the kill switch is off, the account is
  enabled, the client sequence is new, the client order id is free, the market data is live and fresh with a
  reference price, the quantity is a positive multiple of the lot size within the limit, a limit price is on
  the tick grid inside the price domain, and, at the execution limit, which is the price of a limit order and
  the reference moved by the protection ticks for a market order, the order is inside the collar, its notional
  within the limit, the position with all open orders and this one within the limit, the gross exposure over
  all instruments with this order open within the limit; and the book has room.\<close>

theorem accepted_order_within_limits:
  assumes "handle_new S rq c out = Some (r, c', out')" "er_reject_reason r = None"
  shows "\<exists>ai ii p ref ip gross. tc_account_index c (rq_account rq) = Some ai \<and>
    tc_instrument_index c (rq_instrument rq) = Some ii \<and> tc_position c ai ii = Some ip \<and>
    (let a = tc_accounts c ! ai; l = ac_limits a; ins = tc_instruments c ! ii; ic = ir_config ins; q = rq_quantity rq in
     \<not> tc_global_kill c \<and> ac_enabled a \<and> ac_last_client_seq a < rq_client_seq rq \<and>
     client_order_lookup c (rq_account rq) (rq_client_order_id rq) = None \<and>
     mv_state (ir_market ins) = Live \<and> mv_reference_price (ir_market ins) = Some ref \<and>
     tc_engine_time_ns c - mv_last_update_time_ns (ir_market ins) \<le> ec_max_market_age_ns (tc_config c) \<and>
     0 < q \<and> q \<le> lim_max_order_quantity l \<and> ic_lot_size ic dvd q \<and>
     (case rq_order_type rq of
        Limit \<Rightarrow> p = rq_price rq \<and> ic_min_price_ticks ic \<le> p \<and> p \<le> ic_max_price_ticks ic \<and> ic_tick_size ic dvd p
      | Market \<Rightarrow> p = (case rq_side rq of Buy \<Rightarrow> ref + ec_market_protection_ticks (tc_config c)
          | Sell \<Rightarrow> ref - ec_market_protection_ticks (tc_config c))) \<and>
     tick_distance p ref \<le> collar_ticks l \<and> q * unsigned_abs p \<le> lim_max_order_notional l \<and>
     worst_position (with_order ip (rq_side rq) q p) (rq_side rq) \<le> lim_max_position_lots l \<and>
     gross_exposure c ai ii (with_order ip (rq_side rq) q p)
       (zip [0..<length (tc_instruments c)] (tc_instruments c)) 0 = Some (Inr gross) \<and>
     gross \<le> lim_max_gross_exposure l \<and> \<not> is_full S (ir_book ins))"
proof -
  obtain ck where ck: "check_new_order S c rq = Some (Inr ck)"
  proof (cases "check_new_order S c rq")
    case (Some checked)
    then show ?thesis
      using assms that by (cases checked) (auto simp: handle_new_def split_beta Let_def report_reasons)
  qed (use assms in \<open>simp add: handle_new_def\<close>)
  note g = check_new_order_gates [OF ck]
  obtain ref where ref: "check_reference_price c (cn_instrument_index ck) = Some (Inr ref)"
    "rq_order_type rq = Market \<longrightarrow>
       protection_price ref (rq_side rq) (ec_market_protection_ticks (tc_config c)) = Inr (cn_execution_limit ck)"
    "tick_distance (cn_execution_limit ck) ref \<le> collar_ticks (ac_limits (tc_accounts c ! cn_account_index ck))"
    using g(9) by blast
  obtain ip gross where x: "tc_position c (cn_account_index ck) (cn_instrument_index ck) = Some ip"
    "worst_position (with_order ip (rq_side rq) (rq_quantity rq) (cn_execution_limit ck)) (rq_side rq) \<le>
       lim_max_position_lots (ac_limits (tc_accounts c ! cn_account_index ck))"
    "gross_exposure c (cn_account_index ck) (cn_instrument_index ck)
       (with_order ip (rq_side rq) (rq_quantity rq) (cn_execution_limit ck))
       (zip [0..<length (tc_instruments c)] (tc_instruments c)) 0 = Some (Inr gross)"
    "gross \<le> lim_max_gross_exposure (ac_limits (tc_accounts c ! cn_account_index ck))"
    using check_exposure_gates [OF g(12)] by blast
  have price: "case rq_order_type rq of
      Limit \<Rightarrow> cn_execution_limit ck = rq_price rq \<and>
        ic_min_price_ticks (ir_config (tc_instruments c ! cn_instrument_index ck)) \<le> cn_execution_limit ck \<and>
        cn_execution_limit ck \<le> ic_max_price_ticks (ir_config (tc_instruments c ! cn_instrument_index ck)) \<and>
        ic_tick_size (ir_config (tc_instruments c ! cn_instrument_index ck)) dvd cn_execution_limit ck
    | Market \<Rightarrow> cn_execution_limit ck = (case rq_side rq of Buy \<Rightarrow> ref + ec_market_protection_ticks (tc_config c)
        | Sell \<Rightarrow> ref - ec_market_protection_ticks (tc_config c))"
    using g(4,5) gate_facts(2) ref(2) protection_price_Inr by (cases "rq_order_type rq") auto
  show ?thesis
    using g(1,2,6,10,11,13) gate_facts(1) [OF g(3)] gate_facts(3) [OF g(7)] gate_facts(4) [OF g(8)]
      gate_facts(5) [OF ref(1)] gate_facts(6) [of "rq_quantity rq" "cn_execution_limit ck"] ref(3) x price
    unfolding Let_def
    by (intro exI [of _ "cn_account_index ck"] exI [of _ "cn_instrument_index ck"] exI [of _ "cn_execution_limit ck"]
        exI [of _ ref] exI [of _ ip] exI [of _ gross] conjI) auto
qed

theorem accepted_order_within_limits_witness:
  "\<exists>c out r c' out' ai. core_run vec_slab (take 4 demo_inputs) (core_new vec_slab demo_config) = Some (c, out) \<and>
     handle_new vec_slab (demo_request New 1) c [] = Some (r, c', out') \<and> er_reject_reason r = None \<and>
     tc_account_index c 1 = Some ai \<and> ac_enabled (tc_accounts c ! ai)"
proof -
  have "(case core_run vec_slab (take 4 demo_inputs) (core_new vec_slab demo_config) of
      Some (c, out) \<Rightarrow>
        (case handle_new vec_slab (demo_request New 1) c [] of
           Some (r, c', out') \<Rightarrow> er_reject_reason r = None | None \<Rightarrow> False)
    | None \<Rightarrow> False)" by code_simp
  then obtain c out r c' out' where c: "core_run vec_slab (take 4 demo_inputs) (core_new vec_slab demo_config) = Some (c, out)"
    "handle_new vec_slab (demo_request New 1) c [] = Some (r, c', out')" "er_reject_reason r = None"
    by (auto split: option.split_asm prod.split_asm)
  from accepted_order_within_limits [OF c(2,3)] c show ?thesis by (auto simp: Let_def demo_request_def)
qed

end
