(* ===== verification/Retry_Properties.thy ===== *)
theory Retry_Properties
  imports Request_Properties
begin

text \<open>
  Repeated requests.  The cache of an account is a ring: an entry survives until as many further requests of
  the account were recorded as the ring has slots, or another request with its id is recorded.  Over whole
  runs this makes exact retries idempotent, and shows what a conflicting duplicate does to them.
\<close>

section \<open>Entries of the ring\<close>

text \<open>The cache holds an entry that the next \<open>k\<close> records of other requests leave in place.\<close>

definition held_entry :: "request_cache \<Rightarrow> request_id \<Rightarrow> nat \<Rightarrow> execution_report \<Rightarrow> nat \<Rightarrow> bool" where
  "held_entry rc rid fp r k \<longleftrightarrow>
     (let n = length (rc_entries rc); slot = (rc_next rc + k) mod n in
      k < n \<and> rc_next rc < n \<and> rc_index rc rid = Some slot \<and>
      rc_entries rc ! slot = Some \<lparr>cr_request_id = rid, cr_fingerprint = fp, cr_outcome = r\<rparr>)"

lemma held_entry_lookup: "held_entry rc rid fp r k \<Longrightarrow> cache_lookup rc rid fp = Some (Retry r)"
  by (auto simp: held_entry_def cache_lookup_def Let_def idx_def intro!: mod_less_divisor)

lemma cache_record_fields:
  assumes "cache_record rc rid fp r = Some rc'"
  shows "rc_next rc < length (rc_entries rc)" "rc_next rc' = (rc_next rc + 1) mod length (rc_entries rc)"
    "rc_entries rc' = (rc_entries rc)[rc_next rc := Some \<lparr>cr_request_id = rid, cr_fingerprint = fp, cr_outcome = r\<rparr>]"
    "rc_index rc' rid = Some (rc_next rc)"
    "rid' \<noteq> rid \<Longrightarrow> rc_index rc rid' = Some slot \<Longrightarrow> slot \<noteq> rc_next rc \<Longrightarrow> rc_index rc' rid' = Some slot"
  using assms by (auto simp: cache_record_def Let_def bind_convs split: option.splits if_splits)

lemma held_entry_new:
  assumes "cache_record rc rid fp r = Some rc'"
  shows "held_entry rc' rid fp r (length (rc_entries rc) - 1)"
proof -
  note f = cache_record_fields [OF assms]
  let ?n = "length (rc_entries rc)"
  have "((rc_next rc + 1) mod ?n + (?n - 1)) mod ?n = (rc_next rc + 1 + (?n - 1)) mod ?n" by (rule mod_add_left_eq)
  also have "rc_next rc + 1 + (?n - 1) = rc_next rc + ?n" using f(1) by simp
  finally have "((rc_next rc + 1) mod ?n + (?n - 1)) mod ?n = rc_next rc" using f(1) by simp
  moreover have "0 < ?n" "(rc_next rc + 1) mod ?n < ?n" using f(1) by (auto intro!: mod_less_divisor)
  ultimately show ?thesis using f(1-4) by (simp add: held_entry_def Let_def)
qed

lemma held_entry_record:
  assumes "held_entry rc rid fp r (Suc k)" "rid' \<noteq> rid" "cache_record rc rid' fp' r' = Some rc'"
  shows "held_entry rc' rid fp r k"
proof -
  note f = cache_record_fields [OF assms(3)]
  let ?n = "length (rc_entries rc)"
  let ?slot = "(rc_next rc + Suc k) mod ?n"
  have h: "Suc k < ?n" "rc_index rc rid = Some ?slot"
    "rc_entries rc ! ?slot = Some \<lparr>cr_request_id = rid, cr_fingerprint = fp, cr_outcome = r\<rparr>"
    using assms(1) by (simp_all add: held_entry_def Let_def)
  have ne: "?slot \<noteq> rc_next rc"
  proof (cases "rc_next rc + Suc k < ?n")
    case False
    then have "?slot = rc_next rc + Suc k - ?n" using f(1) h(1) by (simp add: le_mod_geq)
    then show ?thesis using h(1) False by linarith
  qed (simp add: mod_less)
  have "((rc_next rc + 1) mod ?n + k) mod ?n = (rc_next rc + 1 + k) mod ?n" by (rule mod_add_left_eq)
  then have eq: "((rc_next rc + 1) mod ?n + k) mod ?n = ?slot" by simp
  have lt: "(rc_next rc + 1) mod ?n < ?n" using f(1) by (intro mod_less_divisor) linarith
  have "rc_index rc' rid = Some ?slot" using f(5) [OF assms(2) [symmetric] h(2) ne] .
  moreover have "rc_entries rc' ! ?slot = rc_entries rc ! ?slot" unfolding f(3) using ne by (intro nth_list_update_neq) simp
  ultimately show ?thesis
    unfolding held_entry_def Let_def f(2) f(3) length_list_update eq
    using h lt f(3) by simp
qed

section \<open>What an input does to the caches\<close>

definition caches :: "'s trading_core \<Rightarrow> request_cache list" where
  "caches c = map ac_cache (tc_accounts c)"

lemma record_outcome_caches:
  assumes "record_outcome ai rq fp r c = Some c'"
  shows "\<exists>rc. ai < length (caches c) \<and> cache_record (caches c ! ai) (rq_request_id rq) fp r = Some rc \<and>
    caches c' = (caches c)[ai := rc] \<and> tc_account_index c' = tc_account_index c"
proof -
  obtain a rc where a: "idx (tc_accounts c) ai = Some a" "cache_record (ac_cache a) (rq_request_id rq) fp r = Some rc"
    and c': "c' = c\<lparr>tc_accounts := (tc_accounts c)[ai := if er_reject_reason r = None \<and> 0 < rq_client_seq rq
        then a\<lparr>ac_cache := rc, ac_last_client_seq := rq_client_seq rq\<rparr> else a\<lparr>ac_cache := rc\<rparr>]\<rparr>"
    using assms by (auto simp: record_outcome_def Option.bind_eq_Some_conv Let_def simp del: idx_Some)
  then show ?thesis by (auto simp: caches_def map_update idx_def split: if_splits)
qed

lemma caches_quiet: "quiet c c' \<Longrightarrow> caches c' = caches c \<and> tc_account_index c' = tc_account_index c"
  by (simp add: quiet_def caches_def)

lemma caches_push_state:
  "push_state ev c out = (c', out') \<Longrightarrow> caches c' = caches c \<and> tc_account_index c' = tc_account_index c"
  by (rule caches_quiet [OF quiet_push_state])

definition caches_step :: "'s trading_core \<Rightarrow> input_event \<Rightarrow> 's trading_core \<Rightarrow> bool" where
  "caches_step c ev c' \<longleftrightarrow>
     tc_account_index c' = tc_account_index c \<and>
     (caches c' = caches c \<or>
      (\<exists>rq ai r rc. ev = OrderInput rq \<and> tc_account_index c (rq_account rq) = Some ai \<and> ai < length (caches c) \<and>
         (\<forall>previous. request_hit c rq \<noteq> Some (Retry previous)) \<and>
         cache_record (caches c ! ai) (rq_request_id rq) (request_fingerprint rq) r = Some rc \<and>
         caches c' = (caches c)[ai := rc]))"

lemma request_records:
  assumes S: "slab_store S" and mid: "core_mid R S c" "tc_fault c = None" "rq_ok rq"
    and ap: "apply_request S rq c out = Some (c', out')"
    and ai: "tc_account_index c (rq_account rq) = Some ai"
    and new: "\<And>previous. request_hit c rq \<noteq> Some (Retry previous)"
  shows "\<exists>r rc. last out' = OutReport r \<and> tc_account_index c' = tc_account_index c \<and> ai < length (caches c) \<and>
    cache_record (caches c ! ai) (rq_request_id rq) (request_fingerprint rq) r = Some rc \<and>
    caches c' = (caches c)[ai := rc]"
proof (rule apply_request_cases [OF ap core_midD(1) [OF mid(1)]])
  assume fresh: "apply_fresh_request S rq c out = Some (c', out')"
  obtain r c1 c2 out1 where h: "(case rq_kind rq of
        New \<Rightarrow> handle_new S rq c out
      | Cancel \<Rightarrow> do { (r, c') \<leftarrow> handle_cancel S rq c; Some (r, c', out) }
      | Replace \<Rightarrow> handle_replace S rq c out) = Some (r, c1, out1)"
    and out': "out' = out1 @ [OutReport r]" and idx: "tc_account_index c2 = tc_account_index c1"
    and acc: "tc_accounts c2 = tc_accounts c1"
    and rec: "(case tc_account_index c2 (rq_account rq) of
        Some ai \<Rightarrow> record_outcome ai rq (request_fingerprint rq) r c2 | None \<Rightarrow> Some c2) = Some c'"
    by (rule fresh_request [OF fresh])
  have "caches c2 = caches c" "tc_account_index c2 = tc_account_index c"
    using handler_setup [OF S mid h] idx acc by (simp_all add: same_setup_def caches_def)
  then show ?thesis using rec ai record_outcome_caches [of ai rq "request_fingerprint rq" r c2 c'] out' by auto
next
  fix previous assume "request_hit c rq = Some (Retry previous)"
  then show ?thesis using new by blast
next
  fix r c1 ai' assume "tc_account_index c (rq_account rq) = Some ai'" "out' = out @ [OutReport r]" "quiet c c1"
    "record_outcome ai' rq (request_fingerprint rq) r c1 = Some c'"
  then show ?thesis
    using ai record_outcome_caches [of ai rq "request_fingerprint rq" r c1 c'] caches_quiet [of c c1] by auto
qed

lemma request_caches:
  assumes S: "slab_store S" and mid: "core_mid R S c" "tc_fault c = None" "rq_ok rq"
    and ap: "apply_request S rq c out = Some (c', out')"
  shows "caches_step c (OrderInput rq) c'"
proof (cases "tc_account_index c (rq_account rq)")
  case None
  have fresh: "apply_fresh_request S rq c out = Some (c', out')" using ap None by (simp add: apply_request_def)
  obtain r c1 c2 out1 where h: "(case rq_kind rq of
        New \<Rightarrow> handle_new S rq c out
      | Cancel \<Rightarrow> do { (r, c') \<leftarrow> handle_cancel S rq c; Some (r, c', out) }
      | Replace \<Rightarrow> handle_replace S rq c out) = Some (r, c1, out1)"
    and idx: "tc_account_index c2 = tc_account_index c1" and acc: "tc_accounts c2 = tc_accounts c1"
    and rec: "(case tc_account_index c2 (rq_account rq) of
        Some ai \<Rightarrow> record_outcome ai rq (request_fingerprint rq) r c2 | None \<Rightarrow> Some c2) = Some c'"
    by (rule fresh_request [OF fresh])
  have "caches c2 = caches c" "tc_account_index c2 = tc_account_index c"
    using handler_setup [OF S mid h] idx acc by (simp_all add: same_setup_def caches_def)
  then show ?thesis using rec None by (auto simp: caches_step_def)
next
  case (Some ai)
  show ?thesis
  proof (cases "\<exists>previous. request_hit c rq = Some (Retry previous)")
    case True
    then obtain previous where "request_hit c rq = Some (Retry previous)" by blast
    then have "quiet c c'" using retry_step [OF _ core_midD(1) [OF mid(1)], of rq previous S out] ap by auto
    then show ?thesis using caches_quiet by (auto simp: caches_step_def)
  next
    case False
    then have new: "\<And>previous. request_hit c rq \<noteq> Some (Retry previous)" by blast
    from request_records [OF S mid ap Some new] new Some show ?thesis unfolding caches_step_def by blast
  qed
qed

lemma market_caches: "apply_market ev c out = Some (c', out') \<Longrightarrow> caches_step c (MarketInput ev) c'"
  by (auto simp: apply_market_def caches_step_def Let_def Option.bind_eq_Some_conv bump_metric_def
      dest!: caches_push_state split: option.splits prod.splits if_splits) (simp_all add: caches_def)

lemma control_caches:
  assumes "apply_control cmd c out = Some (c', out')"
  shows "caches_step c (ControlInput cmd) c'"
proof -
  have upd: "caches (c\<lparr>tc_accounts := (tc_accounts c)[ai := a]\<rparr>) = caches c"
    if "ac_cache a = ac_cache (tc_accounts c ! ai)" for c :: "'a trading_core" and ai a
    using that by (simp add: caches_def map_update) (metis length_map list_update_id nth_map list_update_beyond not_le)
  show ?thesis
    using assms upd
    by (cases cmd) (auto simp: caches_step_def Let_def Option.bind_eq_Some_conv bump_metric_def caches_def
        dest!: caches_push_state split: option.splits prod.splits if_splits)
qed

lemma applied_seq:
  assumes "core_apply S i c = Some (c', out)" "tc_fault c' = None"
  obtains n where "counter_next (tc_engine_seq c) = Some n"
  using assms by (cases "counter_next (tc_engine_seq c)")
    (auto simp: core_apply_def set_fault_def split: if_split_asm simp del: counter_next_None counter_next_Some)

lemma core_apply_step:
  assumes "core_apply S i c = Some (c', out)" "tc_fault c = None" "counter_next (tc_engine_seq c) = Some n" "core_mid R S c"
  obtains c1 c2 m where "c1 = bump_metric em_inputs_applied_update
      (c\<lparr>tc_engine_seq := n, tc_engine_time_ns := in_recv_time_ns i\<rparr>)"
    "(case in_event i of
        MarketInput event \<Rightarrow> apply_market event c1 []
      | OrderInput rq \<Rightarrow> apply_request S rq c1 []
      | ControlInput command \<Rightarrow> apply_control command c1 []) = Some (c2, out)"
    "c' = c2\<lparr>tc_metrics := m\<rparr>" "core_mid R S c1" "tc_fault c1 = None"
    "caches c1 = caches c" "tc_account_index c1 = tc_account_index c" "request_hit c1 = request_hit c"
proof -
  define c1 where "c1 = bump_metric em_inputs_applied_update
    (c\<lparr>tc_engine_seq := n, tc_engine_time_ns := in_recv_time_ns i\<rparr>)"
  have "core_mid R S c1"
    using assms(4) ledger_cong [of c1 c R] unfolding core_mid_def
    by (auto simp: c1_def bump_metric_def shape_def books_ok_def caps_ok_def lookups_def book_at_def fun_eq_iff)
  moreover have "tc_fault c1 = None" "caches c1 = caches c" "tc_account_index c1 = tc_account_index c"
    "request_hit c1 = request_hit c"
    using assms(2) by (simp_all add: c1_def bump_metric_def caches_def request_hit_def fun_eq_iff cong: option.case_cong)
  moreover obtain c2 where "(case in_event i of
        MarketInput event \<Rightarrow> apply_market event c1 []
      | OrderInput rq \<Rightarrow> apply_request S rq c1 []
      | ControlInput command \<Rightarrow> apply_control command c1 []) = Some (c2, out)"
    "c' = c2\<lparr>tc_metrics := (tc_metrics c2)\<lparr>em_reports_emitted :=
       wrapping_add 64 (em_reports_emitted (tc_metrics c2)) (count_reports out)\<rparr>\<rparr>"
    using assms(1-3) unfolding core_apply_def c1_def [symmetric]
    by (auto simp: Let_def Option.bind_eq_Some_conv c1_def [symmetric] simp del: counter_next_Some)
  ultimately show ?thesis using that [OF c1_def] by blast
qed

lemma core_apply_caches:
  assumes S: "slab_store S" and mid: "core_mid R S c" and i: "typed_input i" and ap: "core_apply S i c = Some (c', out)"
  shows "caches_step c (in_event i) c'"
proof (cases "tc_fault c = None \<and> counter_next (tc_engine_seq c) \<noteq> None")
  case False
  then show ?thesis using ap
    by (cases "tc_fault c") (auto simp: core_apply_def caches_step_def caches_def set_fault_def
        simp del: counter_next_None counter_next_Some)
next
  case True
  then obtain n where n: "tc_fault c = None" "counter_next (tc_engine_seq c) = Some n" by blast
  obtain c1 c2 m where run: "(case in_event i of
        MarketInput event \<Rightarrow> apply_market event c1 []
      | OrderInput rq \<Rightarrow> apply_request S rq c1 []
      | ControlInput command \<Rightarrow> apply_control command c1 []) = Some (c2, out)"
    and c': "c' = c2\<lparr>tc_metrics := m\<rparr>" and c1: "core_mid R S c1" "tc_fault c1 = None"
    and same: "caches c1 = caches c" "tc_account_index c1 = tc_account_index c" "request_hit c1 = request_hit c"
    by (rule core_apply_step [OF ap n mid])
  have "caches_step c1 (in_event i) c2"
  proof (cases "in_event i")
    case (MarketInput ev)
    then show ?thesis using run market_caches by simp
  next
    case (OrderInput rq)
    then show ?thesis using run request_caches [OF S c1] i by (simp add: typed_input_def)
  next
    case (ControlInput cmd)
    then show ?thesis using run control_caches by simp
  qed
  then show ?thesis unfolding caches_step_def same c' by (simp add: caches_def)
qed

section \<open>Entries over a run\<close>

definition cache_sizes :: "'s trading_core \<Rightarrow> nat list" where
  "cache_sizes c = map (\<lambda>rc. length (rc_entries rc)) (caches c)"

text \<open>The engine remembers the outcome of a request, also after \<open>k\<close> other requests of its account.\<close>

definition remembers :: "'s trading_core \<Rightarrow> order_request \<Rightarrow> execution_report \<Rightarrow> nat \<Rightarrow> bool" where
  "remembers c rq r k \<longleftrightarrow>
     (\<exists>ai k'. tc_account_index c (rq_account rq) = Some ai \<and> ai < length (caches c) \<and> k \<le> k' \<and>
        held_entry (caches c ! ai) (rq_request_id rq) (request_fingerprint rq) r k')"

definition other_request :: "order_request \<Rightarrow> engine_input \<Rightarrow> bool" where
  "other_request rq i \<longleftrightarrow> (case in_event i of OrderInput rq' \<Rightarrow> rq_account rq' = rq_account rq \<and> rq' \<noteq> rq | _ \<Rightarrow> False)"

definition id_reused :: "order_request \<Rightarrow> engine_input \<Rightarrow> bool" where
  "id_reused rq i \<longleftrightarrow>
     (case in_event i of
        OrderInput rq' \<Rightarrow> rq_account rq' = rq_account rq \<and> rq_request_id rq' = rq_request_id rq \<and> rq' \<noteq> rq
      | _ \<Rightarrow> False)"

lemma remembers_hit: "remembers c rq r k \<Longrightarrow> request_hit c rq = Some (Retry r)"
  by (auto simp: remembers_def request_hit_def caches_def dest: held_entry_lookup)

lemma remembers_mono: "remembers c rq r k \<Longrightarrow> l \<le> k \<Longrightarrow> remembers c rq r l"
  unfolding remembers_def by (meson le_trans)

lemma cache_sizes_step: "caches_step c ev c' \<Longrightarrow> cache_sizes c' = cache_sizes c"
  by (auto simp: caches_step_def cache_sizes_def map_update cache_record_fields(3))
    (metis length_map list_update_id nth_map)

lemma remembers_step:
  assumes step: "caches_step c (in_event i) c'" and shape: "shape c" and id: "\<not> id_reused rq i"
    and mem: "remembers c rq r (k + (if other_request rq i then 1 else 0))"
  shows "remembers c' rq r k"
proof (cases "caches c' = caches c")
  case True
  then show ?thesis using step mem by (auto simp: remembers_def caches_step_def intro: add_leD1)
next
  case False
  then obtain rq' ai' r' rc where ev: "in_event i = OrderInput rq'" and ai': "tc_account_index c (rq_account rq') = Some ai'"
    and new: "\<forall>previous. request_hit c rq' \<noteq> Some (Retry previous)" and l: "ai' < length (caches c)"
    and rec: "cache_record (caches c ! ai') (rq_request_id rq') (request_fingerprint rq') r' = Some rc"
    and c': "caches c' = (caches c)[ai' := rc]" "tc_account_index c' = tc_account_index c"
    using step by (auto simp: caches_step_def)
  obtain ai k' where ai: "tc_account_index c (rq_account rq) = Some ai" "ai < length (caches c)"
    and k': "k + (if other_request rq i then 1 else 0) \<le> k'"
    and held: "held_entry (caches c ! ai) (rq_request_id rq) (request_fingerprint rq) r k'"
    using mem by (auto simp: remembers_def)
  have ne: "rq' \<noteq> rq" using new remembers_hit [OF mem] by auto
  show ?thesis
  proof (cases "rq_account rq' = rq_account rq")
    case False
    then have "ai' \<noteq> ai" using account_index_inj [OF shape] ai ai' by metis
    then show ?thesis using ai k' held c' by (auto simp: remembers_def intro: add_leD1)
  next
    case True
    then have same: "ai' = ai" "other_request rq i" using ai ai' ev ne by (simp_all add: other_request_def)
    have "rq_request_id rq' \<noteq> rq_request_id rq" using id ev True ne by (simp add: id_reused_def)
    moreover have "held_entry (caches c ! ai) (rq_request_id rq) (request_fingerprint rq) r (Suc (k' - 1))"
      using held k' same(2) by simp
    ultimately have "held_entry rc (rq_request_id rq) (request_fingerprint rq) r (k' - 1)"
      using held_entry_record rec same(1) by metis
    then show ?thesis using ai k' same c' by (auto simp: remembers_def intro!: exI [of _ "k' - 1"])
  qed
qed

lemma remembers_run:
  assumes "slab_store S" "core_mid any_room S c" "list_all typed_input later" "core_run S later c = Some (c', out)"
    "list_all (\<lambda>i. \<not> id_reused rq i) later" "remembers c rq r (length (filter (other_request rq) later))"
  shows "remembers c' rq r 0 \<and> core_mid any_room S c'"
  using assms(2-)
proof (induction later arbitrary: c out)
  case (Cons i later)
  obtain c1 out1 rest where ap: "core_apply S i c = Some (c1, out1)" and run: "core_run S later c1 = Some (c', rest)"
    using Cons.prems(3) by (auto simp: Option.bind_eq_Some_conv)
  have "core_mid any_room S c1"
    using slab_store.core_apply_ok [OF assms(1) Cons.prems(1), of i] typed_inputs [of "[i]"] Cons.prems(2) ap by auto
  moreover have "remembers c1 rq r (length (filter (other_request rq) later))"
    by (rule remembers_step [OF core_apply_caches [OF assms(1) Cons.prems(1) _ ap] core_midD(1) [OF Cons.prems(1)]])
      (use Cons.prems(2,4,5) in auto)
  ultimately show ?case using Cons.IH [OF _ _ run] Cons.prems(2,4) by simp
qed simp

lemma run_sizes:
  assumes "slab_store S" "core_mid any_room S c" "list_all typed_input is" "core_run S is c = Some (c', out)"
  shows "cache_sizes c' = cache_sizes c \<and> core_mid any_room S c'"
  using assms(2-)
proof (induction "is" arbitrary: c out)
  case (Cons i "is")
  obtain c1 out1 rest where ap: "core_apply S i c = Some (c1, out1)" and run: "core_run S is c1 = Some (c', rest)"
    using Cons.prems(3) by (auto simp: Option.bind_eq_Some_conv)
  have "core_mid any_room S c1"
    using slab_store.core_apply_ok [OF assms(1) Cons.prems(1), of i] typed_inputs [of "[i]"] Cons.prems(2) ap by auto
  moreover have "cache_sizes c1 = cache_sizes c"
    by (rule cache_sizes_step [OF core_apply_caches [OF assms(1) Cons.prems(1) _ ap]]) (use Cons.prems(2) in simp)
  ultimately show ?case using Cons.IH [OF _ _ run] Cons.prems(2) by simp
qed simp

lemma cache_size:
  assumes "slab_store S" "sane_config config" "list_all typed_input is" "core_run S is (core_new S config) = Some (c, out)"
    "ai < length (caches c)"
  shows "length (rc_entries (caches c ! ai)) = max (ec_dedup_window config) 1"
proof -
  have "cache_sizes (core_new S config) = replicate (length (ec_accounts config)) (max (ec_dedup_window config) 1)"
    by (simp add: cache_sizes_def caches_def core_new_def Let_def account_new_def cache_new_def comp_def map_replicate_const)
  moreover have "cache_sizes c = cache_sizes (core_new S config)"
    using run_sizes [OF assms(1) slab_store.core_new_ok [OF assms(1) sane_config_ok [OF assms(2)]] assms(3,4)] ..
  ultimately have "cache_sizes c = replicate (length (caches c)) (max (ec_dedup_window config) 1)"
    by (metis cache_sizes_def length_map length_replicate)
  then have "cache_sizes c ! ai = max (ec_dedup_window config) 1" using assms(5) by simp
  then show ?thesis using assms(5) by (simp add: cache_sizes_def)
qed

lemma first_application:
  assumes "slab_store S" "sane_config config" "list_all typed_input is" "core_run S is (core_new S config) = Some (c, out)"
    and i: "typed_input i" "in_event i = OrderInput rq" "tc_account_index c (rq_account rq) = Some ai"
    and new: "\<And>previous. request_hit c rq \<noteq> Some (Retry previous)"
    and ap: "core_apply S i c = Some (c1, out1)" "tc_fault c1 = None"
  shows "\<exists>r. last out1 = OutReport r \<and> remembers c1 rq r (max (ec_dedup_window config) 1 - 1) \<and> core_mid any_room S c1"
proof -
  note mid = typed_run [OF assms(1-4)]
  have fault: "tc_fault c = None" using ap by (cases "tc_fault c") (auto simp: core_apply_def)
  obtain n where n: "counter_next (tc_engine_seq c) = Some n" by (rule applied_seq [OF ap])
  obtain c2 c3 m where run: "apply_request S rq c2 [] = Some (c3, out1)"
    and c1: "c1 = c3\<lparr>tc_metrics := m\<rparr>" and c2: "core_mid any_room S c2" "tc_fault c2 = None"
    and same: "caches c2 = caches c" "tc_account_index c2 = tc_account_index c" "request_hit c2 = request_hit c"
    by (rule core_apply_step [OF ap(1) fault n mid]) (simp add: i(2))
  obtain r rc where r: "last out1 = OutReport r" and idx: "tc_account_index c3 = tc_account_index c2"
    and rec: "ai < length (caches c2)"
      "cache_record (caches c2 ! ai) (rq_request_id rq) (request_fingerprint rq) r = Some rc" "caches c3 = (caches c2)[ai := rc]"
    using request_records [OF assms(1) c2 _ run] i new same by (auto simp: typed_input_def)
  have "caches c1 = caches c3" "tc_account_index c1 = tc_account_index c3" by (simp_all add: c1 caches_def)
  then have "remembers c1 rq r (length (rc_entries (caches c ! ai)) - 1)"
    using held_entry_new [OF rec(2)] rec i(3) same idx by (auto simp: remembers_def)
  moreover have "core_mid any_room S c1"
    using slab_store.core_apply_ok [OF assms(1) mid, of i] typed_inputs [of "[i]"] i(1) ap(1) by auto
  ultimately show ?thesis using r cache_size [OF assms(1-4), of ai] rec(1) same(1) by auto
qed

lemma retried:
  assumes mid: "core_mid any_room S c" and hit: "request_hit c rq = Some (Retry r)"
    and i: "in_event i = OrderInput rq" and ap: "core_apply S i c = Some (c', out)" "tc_fault c' = None"
  shows "out = [OutReport (r\<lparr>er_output_seq := Suc (tc_output_seq c), er_engine_seq := Suc (tc_engine_seq c),
       er_engine_time_ns := in_recv_time_ns i\<rparr>)] \<and>
    c' = c\<lparr>tc_engine_seq := Suc (tc_engine_seq c), tc_engine_time_ns := in_recv_time_ns i,
       tc_output_seq := Suc (tc_output_seq c), tc_metrics := tc_metrics c'\<rparr>"
proof -
  have fault: "tc_fault c = None" using ap by (cases "tc_fault c") (auto simp: core_apply_def)
  obtain n where n: "counter_next (tc_engine_seq c) = Some n" by (rule applied_seq [OF ap])
  obtain c1 c2 m where c1: "c1 = bump_metric em_inputs_applied_update
      (c\<lparr>tc_engine_seq := n, tc_engine_time_ns := in_recv_time_ns i\<rparr>)"
    and step: "(case in_event i of
        MarketInput event \<Rightarrow> apply_market event c1 []
      | OrderInput rq \<Rightarrow> apply_request S rq c1 []
      | ControlInput command \<Rightarrow> apply_control command c1 []) = Some (c2, out)" and c': "c' = c2\<lparr>tc_metrics := m\<rparr>"
    and mid1: "core_mid any_room S c1" and same: "request_hit c1 = request_hit c"
    by (rule core_apply_step [OF ap(1) fault n mid])
  have run: "apply_request S rq c1 [] = Some (c2, out)" using step unfolding i by simp
  obtain ai where ai: "tc_account_index c1 (rq_account rq) = Some ai" using hit_known [of c1 rq] hit same by auto
  have res: "c2 = snd (take_output_seq c1)" "out = [OutReport (restamp (fst (take_output_seq c1)) c2 r)]"
    using run unfolding apply_known [OF core_midD(1) [OF mid1] ai] by (auto simp: same hit)
  have sq: "tc_output_seq c1 = tc_output_seq c" by (simp add: c1 bump_metric_def)
  obtain k where k: "counter_next (tc_output_seq c) = Some k"
  proof (cases "counter_next (tc_output_seq c)")
    case None
    have "tc_fault c2 = Some SequenceExhausted" unfolding res(1) take_output_seq_def sq None by (simp add: set_fault_def)
    moreover have "tc_fault c2 = None" using ap(2) unfolding c' by simp
    ultimately show ?thesis by simp
  next
    case (Some k)
    then show ?thesis by (rule that)
  qed
  have nk: "n = Suc (tc_engine_seq c)" "k = Suc (tc_output_seq c)"
    using n k by simp_all
  have t: "take_output_seq c1 = (k, c1\<lparr>tc_output_seq := k\<rparr>)" unfolding take_output_seq_def sq k by simp
  show ?thesis unfolding res(2) c' res(1) t unfolding restamp_def c1 nk bump_metric_def by simp
qed

text \<open>C18. Exact retries are idempotent over whole runs.  Once a known account's request was applied, and as long
  as fewer other requests of that account than its cache has slots were applied since and none of them
  reused the request id, applying the same request again emits exactly one report: the report of the
  first application with the sequence numbers and the time of the repetition.  Apart from these counters,
  the engine time and the metrics the whole engine state is unchanged.\<close>

theorem retry_idempotent:
  assumes "slab_store S" "sane_config config" "list_all typed_input is" "core_run S is (core_new S config) = Some (c, out)"
    and first: "typed_input i" "in_event i = OrderInput rq" "tc_account_index c (rq_account rq) = Some ai"
      "\<forall>previous. request_hit c rq \<noteq> Some (Retry previous)" "core_apply S i c = Some (c1, out1)" "tc_fault c1 = None"
    and later: "list_all typed_input later" "core_run S later c1 = Some (c2, out2)"
      "list_all (\<lambda>j. \<not> id_reused rq j) later"
      "length (filter (other_request rq) later) < max (ec_dedup_window config) 1"
    and again: "in_event i' = OrderInput rq" "core_apply S i' c2 = Some (c3, out3)" "tc_fault c3 = None"
  shows "\<exists>r. last out1 = OutReport r \<and>
    out3 = [OutReport (r\<lparr>er_output_seq := Suc (tc_output_seq c2), er_engine_seq := Suc (tc_engine_seq c2),
       er_engine_time_ns := in_recv_time_ns i'\<rparr>)] \<and>
    c3 = c2\<lparr>tc_engine_seq := Suc (tc_engine_seq c2), tc_engine_time_ns := in_recv_time_ns i',
       tc_output_seq := Suc (tc_output_seq c2), tc_metrics := tc_metrics c3\<rparr>"
proof -
  obtain r where r: "last out1 = OutReport r" "remembers c1 rq r (max (ec_dedup_window config) 1 - 1)" "core_mid any_room S c1"
    using first_application [OF assms(1-4) first(1-3) _ first(5,6)] first(4) by blast
  have "remembers c1 rq r (length (filter (other_request rq) later))"
    by (rule remembers_mono [OF r(2)]) (use later(4) in linarith)
  then have "remembers c2 rq r 0" "core_mid any_room S c2"
    using remembers_run [OF assms(1) r(3) later(1,2,3)] by blast+
  from retried [OF this(2) remembers_hit [OF this(1)] again] r(1) show ?thesis by blast
qed

text \<open>In the demo run the buyer's order is sent again after the seller traded with it.\<close>

abbreviation demo_new :: "order_node option list trading_core" where
  "demo_new \<equiv> core_new vec_slab demo_config"

abbreviation demo_buy :: engine_input where
  "demo_buy \<equiv> demo_order 6 1 Buy 100 5"

definition demo_buy_request :: order_request where
  "demo_buy_request =
     \<lparr>rq_kind = New, rq_account = 1, rq_instrument = 1, rq_request_id = 6, rq_client_seq = 6,
      rq_client_order_id = 6, rq_target_client_order_id = 0, rq_side = Buy, rq_order_type = Limit,
      rq_price = 100, rq_quantity = 5\<rparr>"

lemma demo_buy_event: "in_event (demo_order 6 1 Buy 100 5) = OrderInput demo_buy_request"
  by (simp add: demo_order_def demo_buy_request_def)

lemma demo_retry_evaluated:
  "(case core_run vec_slab (take 4 demo_inputs) demo_new of
      Some (c, out) \<Rightarrow> tc_account_index c 1 = Some 0 \<and> request_hit c demo_buy_request = None \<and>
        (case core_apply vec_slab demo_buy c of
           Some (c1, out1) \<Rightarrow> tc_fault c1 = None \<and>
             (case core_run vec_slab [demo_order 7 2 Sell 100 3] c1 of
                Some (c2, out2) \<Rightarrow>
                  (case core_apply vec_slab demo_buy c2 of Some (c3, out3) \<Rightarrow> tc_fault c3 = None | None \<Rightarrow> False)
              | None \<Rightarrow> False)
         | None \<Rightarrow> False)
    | None \<Rightarrow> False)"
  by code_simp

theorem retry_idempotent_witness:
  "\<exists>c out c1 out1 c2 out2 c3 r. core_run vec_slab (take 4 demo_inputs) demo_new = Some (c, out) \<and>
     core_apply vec_slab demo_buy c = Some (c1, out1) \<and> last out1 = OutReport r \<and>
     core_run vec_slab [demo_order 7 2 Sell 100 3] c1 = Some (c2, out2) \<and>
     core_apply vec_slab demo_buy c2 = Some (c3, [OutReport (r\<lparr>er_output_seq := Suc (tc_output_seq c2),
       er_engine_seq := Suc (tc_engine_seq c2), er_engine_time_ns := 6\<rparr>)])"
proof -
  obtain c out c1 out1 c2 out2 c3 out3 where run: "core_run vec_slab (take 4 demo_inputs) demo_new = Some (c, out)"
    and ai: "tc_account_index c 1 = Some 0" and hit: "request_hit c demo_buy_request = None"
    and first: "core_apply vec_slab demo_buy c = Some (c1, out1)" "tc_fault c1 = None"
    and later: "core_run vec_slab [demo_order 7 2 Sell 100 3] c1 = Some (c2, out2)"
    and again: "core_apply vec_slab demo_buy c2 = Some (c3, out3)" "tc_fault c3 = None"
    using demo_retry_evaluated by (auto split: option.split_asm prod.split_asm simp del: core_run.simps)
  have "list_all typed_input (take 4 demo_inputs)" "typed_input demo_buy" "list_all typed_input [demo_order 7 2 Sell 100 3]"
    using demo_typed by (simp_all add: demo_inputs_def)
  moreover have "list_all (\<lambda>j. \<not> id_reused demo_buy_request j) [demo_order 7 2 Sell 100 3]"
    "length (filter (other_request demo_buy_request) [demo_order 7 2 Sell 100 3]) < max (ec_dedup_window demo_config) 1"
    by (simp_all add: id_reused_def other_request_def demo_order_def demo_buy_request_def)
  moreover have "tc_account_index c (rq_account demo_buy_request) = Some 0" using ai by (simp add: demo_buy_request_def)
  moreover have "\<forall>previous. request_hit c demo_buy_request \<noteq> Some (Retry previous)" using hit by simp
  moreover have "in_recv_time_ns demo_buy = 6" by (simp add: demo_order_def)
  ultimately show ?thesis
    using retry_idempotent [OF demo(1,2) _ run _ demo_buy_event _ _ first _ later _ _ demo_buy_event again]
      run first later again by auto
qed

section \<open>Conflicting duplicates\<close>

lemma lookup_other:
  "cache_lookup rc rid fp = Some (Retry r) \<Longrightarrow> fp' \<noteq> fp \<Longrightarrow> cache_lookup rc rid fp' = Some Conflict"
  by (cases "rc_index rc rid"; cases "idx (rc_entries rc) (the (rc_index rc rid))";
      cases "the (idx (rc_entries rc) (the (rc_index rc rid)))")
    (simp_all add: cache_lookup_def del: idx_Some idx_None split: if_split_asm)

lemma conflict_step:
  assumes mid: "core_mid any_room S c" and hit: "request_hit c rq = Some Conflict"
    and i: "in_event i = OrderInput rq" and ap: "core_apply S i c = Some (c', out)" "tc_fault c' = None"
  shows "\<exists>r. out = [OutReport r] \<and> er_reject_reason r = Some DuplicateRequestConflict \<and>
    (\<forall>q. rq_account q = rq_account rq \<longrightarrow> rq_request_id q = rq_request_id rq \<longrightarrow>
       request_hit c' q = Some (if request_fingerprint q = request_fingerprint rq then Retry r else Conflict))"
proof -
  have fault: "tc_fault c = None" using ap by (cases "tc_fault c") (auto simp: core_apply_def)
  obtain n where n: "counter_next (tc_engine_seq c) = Some n" by (rule applied_seq [OF ap])
  obtain c1 c2 m where run: "apply_request S rq c1 [] = Some (c2, out)" and c': "c' = c2\<lparr>tc_metrics := m\<rparr>"
    and mid1: "core_mid any_room S c1" and same: "request_hit c1 = request_hit c"
    by (rule core_apply_step [OF ap(1) fault n mid]) (simp add: i)
  obtain ai where ai: "tc_account_index c1 (rq_account rq) = Some ai" using hit_known [of c1 rq] hit same by auto
  let ?r = "fst (reject_report rq DuplicateRequestConflict c1)" and ?c = "snd (reject_report rq DuplicateRequestConflict c1)"
  have out: "out = [OutReport ?r]" and rec: "record_outcome ai rq (request_fingerprint rq) ?r ?c = Some c2"
    using run unfolding apply_known [OF core_midD(1) [OF mid1] ai] by (auto simp: same hit)
  have q: "caches ?c = caches c1" "tc_account_index ?c = tc_account_index c1"
    using caches_quiet [OF quiet_reject_report [OF surjective_pairing]] by auto
  obtain rc where rc: "ai < length (caches c1)" "caches c2 = (caches c1)[ai := rc]" "tc_account_index c2 = tc_account_index c1"
    and r: "cache_record (caches c1 ! ai) (rq_request_id rq) (request_fingerprint rq) ?r = Some rc"
    using record_outcome_caches [OF rec] q by auto
  have "ac_cache (tc_accounts c2 ! ai) = rc" using rc(1,2) unfolding caches_def by (metis length_list_update length_map nth_list_update_eq nth_map)
  then show ?thesis
    using out rc(3) ai cache_record_lookup [OF r] by (auto simp: c' request_hit_def report_reasons)
qed

text \<open>C23. A conflicting duplicate destroys the idempotence of the original request.  The engine remembers the
  outcome of a request; a request of the same account with the same id and another fingerprint is
  rejected as a conflict, and because that arm records its rejection under the same id, an exact
  repetition of the original is rejected as a conflict too, and that rejection takes the place of the
  original outcome in the cache, which answers the next repetition with it.\<close>

theorem conflict_hides_original:
  assumes "slab_store S" "sane_config config" "list_all typed_input is" "core_run S is (core_new S config) = Some (c, out)"
    and hit: "request_hit c rq = Some (Retry previous)"
    and other: "rq_account rq' = rq_account rq" "rq_request_id rq' = rq_request_id rq"
      "request_fingerprint rq' \<noteq> request_fingerprint rq"
    and i: "in_event i = OrderInput rq'" "typed_input i" "core_apply S i c = Some (c1, out1)" "tc_fault c1 = None"
    and again: "in_event i' = OrderInput rq" "core_apply S i' c1 = Some (c2, out2)" "tc_fault c2 = None"
  shows "\<exists>r1 r2. out1 = [OutReport r1] \<and> er_reject_reason r1 = Some DuplicateRequestConflict \<and>
    out2 = [OutReport r2] \<and> er_reject_reason r2 = Some DuplicateRequestConflict \<and>
    request_hit c2 rq = Some (Retry r2)"
proof -
  note mid = typed_run [OF assms(1-4)]
  have mid1: "core_mid any_room S c1"
    using slab_store.core_apply_ok [OF assms(1) mid, of i] typed_inputs [of "[i]"] i(2,3) by auto
  obtain ai where "tc_account_index c (rq_account rq) = Some ai"
    "cache_lookup (ac_cache (tc_accounts c ! ai)) (rq_request_id rq) (request_fingerprint rq) = Some (Retry previous)"
    using hit by (auto simp: request_hit_def split: option.splits)
  then have conflict: "request_hit c rq' = Some Conflict"
    using other lookup_other by (simp add: request_hit_def)
  obtain r1 where r1: "out1 = [OutReport r1]" "er_reject_reason r1 = Some DuplicateRequestConflict"
    and hit1: "request_hit c1 rq = Some Conflict"
    using conflict_step [OF mid conflict i(1,3,4)] other by (metis (full_types))
  obtain r2 where "out2 = [OutReport r2]" "er_reject_reason r2 = Some DuplicateRequestConflict"
    "request_hit c2 rq = Some (Retry r2)"
    using conflict_step [OF mid1 hit1 again] by (metis (full_types))
  with r1 show ?thesis by blast
qed

lemma demo_conflict_evaluated:
  "(case core_run vec_slab demo_inputs demo_new of
      Some (c, out) \<Rightarrow> (case request_hit c demo_buy_request of Some (Retry previous) \<Rightarrow> True | _ \<Rightarrow> False) \<and>
        (case core_apply vec_slab (demo_order 6 1 Buy 100 4) c of
           Some (c1, out1) \<Rightarrow> tc_fault c1 = None \<and>
             (case core_apply vec_slab demo_buy c1 of Some (c2, out2) \<Rightarrow> tc_fault c2 = None | None \<Rightarrow> False)
         | None \<Rightarrow> False)
    | None \<Rightarrow> False)"
  by code_simp

lemma demo_fingerprints: "request_fingerprint (demo_buy_request\<lparr>rq_quantity := 4\<rparr>) \<noteq> request_fingerprint demo_buy_request"
  by code_simp

theorem conflict_hides_original_witness:
  "\<exists>c out previous c1 r1 c2 r2. core_run vec_slab demo_inputs demo_new = Some (c, out) \<and>
     request_hit c demo_buy_request = Some (Retry previous) \<and>
     core_apply vec_slab (demo_order 6 1 Buy 100 4) c = Some (c1, [OutReport r1]) \<and>
     core_apply vec_slab demo_buy c1 = Some (c2, [OutReport r2]) \<and>
     er_reject_reason r2 = Some DuplicateRequestConflict"
proof -
  obtain c out previous c1 out1 c2 out2 where run: "core_run vec_slab demo_inputs demo_new = Some (c, out)"
    and hit: "request_hit c demo_buy_request = Some (Retry previous)"
    and i: "core_apply vec_slab (demo_order 6 1 Buy 100 4) c = Some (c1, out1)" "tc_fault c1 = None"
    and again: "core_apply vec_slab demo_buy c1 = Some (c2, out2)" "tc_fault c2 = None"
    using demo_conflict_evaluated by (auto split: option.split_asm prod.split_asm cache_hit.split_asm)
  have "in_event (demo_order 6 1 Buy 100 4) = OrderInput (demo_buy_request\<lparr>rq_quantity := 4\<rparr>)"
    "typed_input (demo_order 6 1 Buy 100 4)"
    by (simp_all add: demo_order_def demo_buy_request_def typed_input_def rq_ok_def in_signed_def)
  from conflict_hides_original [OF demo run hit _ _ demo_fingerprints this i demo_buy_event again] run hit i again
  show ?thesis by auto
qed

end
