(* ===== verification/Wire_Reader.thy ===== *)
theory Wire_Reader
  imports Types "HOL-Library.Word"
begin

text \<open>
  Little-endian bytes and the bounds-checked cursor of the protocol crate (\<open>protocol/src/read.rs\<close>,
  \<open>protocol/src/error.rs\<close>).  A read is a function from the cursor to an error or to a value with the
  moved cursor, \<open>read_then\<close> is the \<open>?\<close> operator.

  \<open>codec p e V\<close> says that the read \<open>p\<close> and the encoding \<open>e\<close> are inverse to each other: \<open>p\<close> accepts
  exactly the encodings of the values in \<open>V\<close>, wherever they stand, and moves the cursor behind them.
  The rules build such a fact for a message from the facts for its fields.
\<close>

section \<open>Bytes\<close>

type_synonym byte = "8 word"

fun le_bytes :: "nat \<Rightarrow> nat \<Rightarrow> byte list" where
  "le_bytes 0 v = []"
| "le_bytes (Suc n) v = of_nat v # le_bytes n (v div 256)"

fun le_value :: "byte list \<Rightarrow> nat" where
  "le_value [] = 0"
| "le_value (b # bs) = unat b + 256 * le_value bs"

text \<open>\<open>as u64\<close> on an \<open>i64\<close> and \<open>as i64\<close> on a \<open>u64\<close>.\<close>

definition as_u64 :: "int \<Rightarrow> nat" where
  "as_u64 x = nat (x mod 2 ^ 64)"

definition as_i64 :: "nat \<Rightarrow> int" where
  "as_i64 v = (if v < 2 ^ 63 then int v else int v - 2 ^ 64)"

section \<open>Errors\<close>

datatype decode_error_kind = Truncated | BadMagic | UnsupportedVersion | BadEndian | FrameLength
  | UnknownMessageType | ReservedFlags | PayloadLength | Checksum | InvalidField | InstrumentTable

record decode_error =
  de_kind :: decode_error_kind
  de_offset :: nat
  de_source_seq :: "nat option"

definition decode_error_new :: "decode_error_kind \<Rightarrow> nat \<Rightarrow> decode_error" where
  "decode_error_new kind offset = \<lparr>de_kind = kind, de_offset = offset, de_source_seq = None\<rparr>"

definition with_source_seq :: "decode_error \<Rightarrow> nat \<Rightarrow> decode_error" where
  "with_source_seq e n = e\<lparr>de_source_seq := Some n\<rparr>"

section \<open>The cursor\<close>

record reader =
  rd_bytes :: "byte list"
  rd_offset :: nat

type_synonym 'a read = "reader \<Rightarrow> decode_error + 'a \<times> reader"

definition reader_new :: "byte list \<Rightarrow> reader" where
  "reader_new bs = \<lparr>rd_bytes = bs, rd_offset = 0\<rparr>"

definition reader_remaining :: "reader \<Rightarrow> nat" where
  "reader_remaining r = length (rd_bytes r) - rd_offset r"

definition reader_take :: "nat \<Rightarrow> byte list read" where
  "reader_take len r =
     (case checked_add 64 (rd_offset r) len of
        None \<Rightarrow> Inl (decode_error_new Truncated (rd_offset r))
      | Some end_at \<Rightarrow>
          if length (rd_bytes r) < end_at then Inl (decode_error_new Truncated (rd_offset r))
          else Inr (take len (drop (rd_offset r) (rd_bytes r)), r\<lparr>rd_offset := end_at\<rparr>))"

definition read_then :: "'a read \<Rightarrow> ('a \<Rightarrow> 'b read) \<Rightarrow> 'b read" where
  "read_then p q r = (case p r of Inl e \<Rightarrow> Inl e | Inr (x, r') \<Rightarrow> q x r')"

definition read_ok :: "'a \<Rightarrow> 'a read" where
  "read_ok x r = Inr (x, r)"

definition read_map :: "('a \<Rightarrow> 'b) \<Rightarrow> 'a read \<Rightarrow> 'b read" where
  "read_map f p = read_then p (\<lambda>x. read_ok (f x))"

definition reader_skip :: "nat \<Rightarrow> unit read" where
  "reader_skip len = read_map (\<lambda>_. ()) (reader_take len)"

definition read_u8 :: "nat read" where
  "read_u8 = read_map le_value (reader_take 1)"

definition read_u16 :: "nat read" where
  "read_u16 = read_map le_value (reader_take 2)"

definition read_u32 :: "nat read" where
  "read_u32 = read_map le_value (reader_take 4)"

definition read_u64 :: "nat read" where
  "read_u64 = read_map le_value (reader_take 8)"

definition read_i64 :: "int read" where
  "read_i64 = read_map as_i64 read_u64"

definition read_u128 :: "nat read" where
  "read_u128 = read_map le_value (reader_take 16)"

definition invalid_field :: "reader \<Rightarrow> decode_error" where
  "invalid_field r = decode_error_new InvalidField (rd_offset r)"

text \<open>\<open>from_wire(reader.u8()?).ok_or_else(|| reader.invalid_field())\<close>.\<close>

definition read_fail :: "'a read" where
  "read_fail r = Inl (invalid_field r)"

definition read_enum :: "(nat \<Rightarrow> 'a option) \<Rightarrow> 'a read" where
  "read_enum from_wire =
     read_then read_u8 (\<lambda>v. case from_wire v of None \<Rightarrow> read_fail | Some x \<Rightarrow> read_ok x)"

section \<open>Bytes and values\<close>

lemma length_le_bytes [simp]: "length (le_bytes n v) = n"
  by (induction n arbitrary: v) auto

lemma le_value_bytes [simp]: "le_value (le_bytes n v) = v mod 256 ^ n"
proof (induction n arbitrary: v)
  case (Suc n)
  have "v mod 256 + 256 * (v div 256 mod 256 ^ n) = v mod (256 * 256 ^ n)"
    by (simp add: mod_mult2_eq)
  then show ?case using Suc by (simp add: unat_of_nat)
qed simp

lemma le_value_bound: "le_value bs < 256 ^ length bs"
proof (induction bs)
  case (Cons b bs)
  have "unat b < 256" using unsigned_less [of b] by simp
  then have "unat b + 256 * le_value bs < 256 * (le_value bs + 1)" by simp
  also have "\<dots> \<le> 256 * 256 ^ length bs" using Cons by simp
  finally show ?case by simp
qed simp

lemma le_bytes_value: "le_bytes (length bs) (le_value bs) = bs"
proof (induction bs)
  case (Cons b bs)
  have "unat b < 256" using unsigned_less [of b] by simp
  moreover have "word_of_nat (unat b + 256 * le_value bs) = b"
    unfolding word_unat_eq_iff unat_of_nat using \<open>unat b < 256\<close> by simp
  ultimately show ?case using Cons by simp
qed simp

lemma as_i64_u64:
  assumes "in_signed 64 x"
  shows "as_i64 (as_u64 x) = x"
proof (cases "0 \<le> x")
  case False
  have "x mod 2 ^ 64 = (x + 2 ^ 64) mod 2 ^ 64" by simp
  also have "\<dots> = x + 2 ^ 64"
    by (rule mod_pos_pos_trivial) (use assms False in \<open>auto simp: in_signed_def\<close>)
  finally show ?thesis using assms by (auto simp: as_i64_def as_u64_def in_signed_def)
qed (use assms in \<open>auto simp: as_i64_def as_u64_def in_signed_def\<close>)

lemma as_u64_i64: "v < 2 ^ 64 \<Longrightarrow> as_u64 (as_i64 v) = v \<and> in_signed 64 (as_i64 v)"
  by (auto simp: as_i64_def as_u64_def in_signed_def)

lemma as_u64_bound: "as_u64 x < 2 ^ 64"
  unfolding as_u64_def by (simp add: nat_less_iff)

section \<open>Inverse reads and encodings\<close>

definition rd_wf :: "reader \<Rightarrow> bool" where
  "rd_wf r \<longleftrightarrow> rd_offset r \<le> length (rd_bytes r) \<and> length (rd_bytes r) < 2 ^ 64"

definition rd_rest :: "reader \<Rightarrow> byte list" where
  "rd_rest r = drop (rd_offset r) (rd_bytes r)"

definition codec :: "'a read \<Rightarrow> ('a \<Rightarrow> byte list) \<Rightarrow> ('a \<Rightarrow> bool) \<Rightarrow> bool" where
  "codec p e V \<longleftrightarrow>
     (\<forall>r v r'. rd_wf r \<longrightarrow>
        (p r = Inr (v, r') \<longleftrightarrow>
           V v \<and> (\<exists>behind. rd_rest r = e v @ behind) \<and> r' = r\<lparr>rd_offset := rd_offset r + length (e v)\<rparr>))"

lemma codecI:
  assumes "\<And>r v r'. rd_wf r \<Longrightarrow> p r = Inr (v, r') \<longleftrightarrow>
      V v \<and> (\<exists>behind. rd_rest r = e v @ behind) \<and> r' = r\<lparr>rd_offset := rd_offset r + length (e v)\<rparr>"
  shows "codec p e V"
  using assms by (simp add: codec_def)

lemma codecD:
  assumes "codec p e V" "rd_wf r"
  shows "p r = Inr (v, r') \<longleftrightarrow>
      V v \<and> (\<exists>behind. rd_rest r = e v @ behind) \<and> r' = r\<lparr>rd_offset := rd_offset r + length (e v)\<rparr>"
  using assms unfolding codec_def by blast

lemma rd_advance:
  assumes "rd_wf r" "rd_rest r = xs @ behind" "r' = r\<lparr>rd_offset := rd_offset r + length xs\<rparr>"
  shows "rd_wf r'" "rd_rest r' = behind"
proof -
  have "length (rd_bytes r) - rd_offset r = length xs + length behind"
    using arg_cong [OF assms(2), of length] by (simp add: rd_rest_def)
  then show "rd_wf r'" using assms(1) by (auto simp: rd_wf_def assms(3))
  have "rd_rest r' = drop (length xs) (rd_rest r)" by (simp add: rd_rest_def assms(3) add.commute)
  then show "rd_rest r' = behind" by (simp add: assms(2))
qed

lemma codec_cong:
  assumes "codec p e V" "\<And>v. V' v \<longleftrightarrow> V v" "\<And>v. V v \<Longrightarrow> e' v = e v"
  shows "codec p e' V'"
proof (rule codecI)
  fix r v r'
  assume r: "rd_wf r"
  show "p r = Inr (v, r') \<longleftrightarrow>
      V' v \<and> (\<exists>behind. rd_rest r = e' v @ behind) \<and> r' = r\<lparr>rd_offset := rd_offset r + length (e' v)\<rparr>"
    using codecD [OF assms(1) r, of v r'] assms(2,3) [of v] by auto
qed

lemma codec_ok: "codec (read_ok x) (\<lambda>_. []) (\<lambda>v. v = x)"
  by (rule codecI) (auto simp: read_ok_def)

lemma codec_fail: "codec read_fail e (\<lambda>_. False)"
  by (rule codecI) (simp add: read_fail_def)

lemma codec_then:
  assumes p: "codec p e V" and q: "\<And>x. V x \<Longrightarrow> codec (q x) e' (W x)" and sel: "\<And>x w. W x w \<Longrightarrow> sel w = x"
  shows "codec (read_then p q) (\<lambda>w. e (sel w) @ e' w) (\<lambda>w. V (sel w) \<and> W (sel w) w)"
proof (rule codecI)
  fix r w r''
  assume r: "rd_wf r"
  let ?r = "\<lambda>x. r\<lparr>rd_offset := rd_offset r + length (e x)\<rparr>"
  have "read_then p q r = Inr (w, r'') \<longleftrightarrow> (\<exists>x r'. p r = Inr (x, r') \<and> q x r' = Inr (w, r''))"
    by (auto simp: read_then_def split: sum.split)
  also have "\<dots> \<longleftrightarrow> (\<exists>x. V x \<and> (\<exists>behind. rd_rest r = e x @ behind) \<and> q x (?r x) = Inr (w, r''))"
    using codecD [OF p r] by auto
  also have "\<dots> \<longleftrightarrow> (\<exists>x. V x \<and> (\<exists>behind. rd_rest r = e x @ e' w @ behind) \<and> W x w \<and>
      r'' = (?r x)\<lparr>rd_offset := rd_offset (?r x) + length (e' w)\<rparr>)"
  proof -
    have "(\<exists>behind. rd_rest r = e x @ behind) \<and> q x (?r x) = Inr (w, r'') \<longleftrightarrow>
        (\<exists>behind. rd_rest r = e x @ e' w @ behind) \<and> W x w \<and>
        r'' = (?r x)\<lparr>rd_offset := rd_offset (?r x) + length (e' w)\<rparr>" if V: "V x" for x
    proof (cases "\<exists>behind. rd_rest r = e x @ behind")
      case True
      then obtain behind where behind: "rd_rest r = e x @ behind" by blast
      note a = rd_advance [OF r behind refl]
      show ?thesis using codecD [OF q [OF V] a(1), of w r''] a(2) behind by auto
    qed auto
    then show ?thesis by blast
  qed
  also have "\<dots> \<longleftrightarrow> (V (sel w) \<and> W (sel w) w) \<and> (\<exists>behind. rd_rest r = (e (sel w) @ e' w) @ behind) \<and>
      r'' = r\<lparr>rd_offset := rd_offset r + length (e (sel w) @ e' w)\<rparr>"
    using sel by (auto simp: add.assoc)
  finally show "read_then p q r = Inr (w, r'') \<longleftrightarrow>
      (V (sel w) \<and> W (sel w) w) \<and> (\<exists>behind. rd_rest r = (e (sel w) @ e' w) @ behind) \<and>
      r'' = r\<lparr>rd_offset := rd_offset r + length (e (sel w) @ e' w)\<rparr>" .
qed

lemma codec_map:
  assumes p: "codec p e V" and g: "\<And>x. V x \<Longrightarrow> g (f x) = x"
  shows "codec (read_map f p) (\<lambda>w. e (g w)) (\<lambda>w. V (g w) \<and> w = f (g w))"
proof -
  have "codec (read_map f p) (\<lambda>w. e (g w) @ []) (\<lambda>w. V (g w) \<and> (V (g w) \<and> w = f (g w)))"
    unfolding read_map_def
    by (rule codec_then [OF p, where W = "\<lambda>x w. V x \<and> w = f x"]) (auto intro: codec_cong [OF codec_ok] simp: g)
  then show ?thesis by (rule codec_cong) auto
qed

section \<open>Fields\<close>

lemma codec_take: "codec (reader_take n) (\<lambda>bs. bs) (\<lambda>bs. length bs = n)"
proof (rule codecI)
  fix r v r'
  assume r: "rd_wf r"
  have len: "length (rd_rest r) = length (rd_bytes r) - rd_offset r" by (simp add: rd_rest_def)
  show "reader_take n r = Inr (v, r') \<longleftrightarrow>
      length v = n \<and> (\<exists>behind. rd_rest r = v @ behind) \<and> r' = r\<lparr>rd_offset := rd_offset r + length v\<rparr>"
  proof (cases "rd_offset r + n \<le> length (rd_bytes r)")
    case True
    then have n: "n \<le> length (rd_rest r)" using len by simp
    have iff: "length v = n \<and> (\<exists>behind. rd_rest r = v @ behind) \<longleftrightarrow> v = take n (rd_rest r)"
    proof
      assume "v = take n (rd_rest r)"
      then show "length v = n \<and> (\<exists>behind. rd_rest r = v @ behind)"
        using n append_take_drop_id [of n "rd_rest r"] by (metis length_take min_absorb2)
    qed auto
    have "reader_take n r = Inr (take n (rd_rest r), r\<lparr>rd_offset := rd_offset r + n\<rparr>)"
      using True r by (simp add: reader_take_def checked_add_def rd_wf_def rd_rest_def)
    then show ?thesis using iff by auto
  next
    case False
    have "\<not> (length v = n \<and> (\<exists>behind. rd_rest r = v @ behind))"
    proof
      assume "length v = n \<and> (\<exists>behind. rd_rest r = v @ behind)"
      then have "n \<le> length (rd_rest r)" by (metis append_take_drop_id length_append le_add1)
      then show False using False r len by (auto simp: rd_wf_def)
    qed
    then show ?thesis
      using False by (auto simp: reader_take_def checked_add_def)
  qed
qed

lemma codec_le: "codec (read_map le_value (reader_take n)) (le_bytes n) (\<lambda>v. v < 256 ^ n)"
proof (rule codec_cong [OF codec_map [OF codec_take, where g = "le_bytes n"]])
  show "le_bytes n (le_value bs) = bs" if "length bs = n" for bs
    using le_bytes_value [of bs] that by simp
  show "v < 256 ^ n \<longleftrightarrow> length (le_bytes n v) = n \<and> v = le_value (le_bytes n v)" for v
    using le_value_bound [of "le_bytes n v"] by (metis length_le_bytes le_value_bytes mod_less)
qed simp

lemma codec_u8: "codec read_u8 (le_bytes 1) (\<lambda>v. v < 2 ^ 8)"
  and codec_u16: "codec read_u16 (le_bytes 2) (\<lambda>v. v < 2 ^ 16)"
  and codec_u32: "codec read_u32 (le_bytes 4) (\<lambda>v. v < 2 ^ 32)"
  and codec_u64: "codec read_u64 (le_bytes 8) (\<lambda>v. v < 2 ^ 64)"
  and codec_u128: "codec read_u128 (le_bytes 16) (\<lambda>v. v < 2 ^ 128)"
  unfolding read_u8_def read_u16_def read_u32_def read_u64_def read_u128_def
  by (rule codec_cong [OF codec_le]; simp)+

lemma codec_i64: "codec read_i64 (\<lambda>x. le_bytes 8 (as_u64 x)) (in_signed 64)"
  unfolding read_i64_def
proof (rule codec_cong [OF codec_map [OF codec_u64, where g = as_u64]])
  show "as_u64 (as_i64 v) = v" if "v < 2 ^ 64" for v using as_u64_i64 [OF that] by simp
  show "in_signed 64 x \<longleftrightarrow> as_u64 x < 2 ^ 64 \<and> x = as_i64 (as_u64 x)" for x
    using as_i64_u64 [of x] as_u64_i64 [OF as_u64_bound, of x] as_u64_bound [of x] by auto
qed simp

lemma codec_enum:
  assumes "\<And>v x. v < 2 ^ 8 \<Longrightarrow> from_wire v = Some x \<longleftrightarrow> wire x = v" "\<And>x. wire x < 2 ^ 8"
  shows "codec (read_enum from_wire) (\<lambda>x. le_bytes 1 (wire x)) (\<lambda>_. True)"
  unfolding read_enum_def
proof (rule codec_cong)
  show "codec (read_then read_u8 (\<lambda>v. case from_wire v of None \<Rightarrow> read_fail | Some x \<Rightarrow> read_ok x))
      (\<lambda>x. le_bytes 1 (wire x) @ []) (\<lambda>x. wire x < 2 ^ 8 \<and> wire x = wire x)"
  proof (rule codec_then [OF codec_u8, where W = "\<lambda>v x. wire x = v"])
    fix v :: nat
    assume v: "v < 2 ^ 8"
    show "codec (case from_wire v of None \<Rightarrow> read_fail | Some x \<Rightarrow> read_ok x) (\<lambda>_. []) (\<lambda>x. wire x = v)"
    proof (cases "from_wire v")
      case None
      then have "wire x \<noteq> v" for x using assms(1) [OF v, of x] by simp
      then show ?thesis using None by (auto intro: codec_cong [OF codec_fail])
    next
      case (Some y)
      then have "wire x = v \<longleftrightarrow> x = y" for x using assms(1) [OF v, of x] by auto
      then show ?thesis using Some by (auto intro: codec_cong [OF codec_ok])
    qed
  qed simp
qed (use assms(2) in simp_all)

lemma codec_new:
  assumes "codec p e V" "length bs < 2 ^ 64"
  shows "p (reader_new bs) = Inr (v, r) \<longleftrightarrow>
    V v \<and> (\<exists>behind. bs = e v @ behind) \<and> r = \<lparr>rd_bytes = bs, rd_offset = length (e v)\<rparr>"
  using codecD [OF assms(1), of "reader_new bs" v r] assms(2)
  by (simp add: rd_wf_def rd_rest_def reader_new_def)

section \<open>Self-delimiting formats\<close>

text \<open>What the clients of an encoding rely on: decoding inverts encoding whatever follows, and only
  encodings of valid values are accepted.  Then no encoding is a proper prefix of another, every
  truncation is an error, and data behind a message does not change it.\<close>

locale wire_format =
  fixes enc :: "'a \<Rightarrow> byte list" and dec :: "byte list \<Rightarrow> 'e + 'a \<times> nat" and valid :: "'a \<Rightarrow> bool"
  assumes round_trip: "valid x \<Longrightarrow> length (enc x @ behind) < 2 ^ 64 \<Longrightarrow>
      dec (enc x @ behind) = Inr (x, length (enc x))"
    and canonical: "length bs < 2 ^ 64 \<Longrightarrow> dec bs = Inr (x, n) \<Longrightarrow>
      valid x \<and> (\<exists>behind. bs = enc x @ behind) \<and> n = length (enc x)"
begin

lemma prefix_free:
  assumes "valid x" "valid y" "enc x @ xs = enc y @ ys" "length (enc x @ xs) < 2 ^ 64"
  shows "x = y \<and> xs = ys"
proof -
  have "dec (enc y @ ys) = Inr (y, length (enc y))"
    by (rule round_trip [OF assms(2)]) (use assms(3,4) in metis)
  then have "x = y" using round_trip [OF assms(1,4)] unfolding assms(3) by simp
  then show ?thesis using assms(3) by simp
qed

lemma truncated:
  assumes "valid x" "n < length (enc x)" "length (enc x) < 2 ^ 64"
  shows "\<exists>e. dec (take n (enc x)) = Inl e"
proof (rule ccontr)
  assume "\<nexists>e. dec (take n (enc x)) = Inl e"
  then obtain y m where dec: "dec (take n (enc x)) = Inr (y, m)" by (metis sum.exhaust surj_pair)
  have "length (take n (enc x)) < 2 ^ 64" using assms(2,3) by simp
  from canonical [OF this dec] obtain behind where y: "valid y" "take n (enc x) = enc y @ behind" by blast
  have eq: "enc y @ (behind @ drop n (enc x)) = enc x @ []"
    unfolding append_assoc [symmetric] y(2) [symmetric] by simp
  have "length (enc y @ (behind @ drop n (enc x))) < 2 ^ 64" unfolding eq using assms(3) by simp
  from prefix_free [OF y(1) assms(1) eq this] have "drop n (enc x) = []" by blast
  then show False using assms(2) by simp
qed

lemma stream_inj:
  assumes nonempty: "\<And>x. valid x \<Longrightarrow> enc x \<noteq> []"
  shows "list_all valid xs \<Longrightarrow> list_all valid ys \<Longrightarrow> length (concat (map enc xs)) < 2 ^ 64 \<Longrightarrow>
    concat (map enc xs) = concat (map enc ys) \<Longrightarrow> xs = ys"
proof (induction xs arbitrary: ys)
  case Nil
  then show ?case using nonempty by (cases ys) auto
next
  case (Cons x xs)
  show ?case
  proof (cases ys)
    case Nil
    then show ?thesis using Cons.prems nonempty by auto
  next
    case (Cons y zs)
    then have eq: "enc x @ concat (map enc xs) = enc y @ concat (map enc zs)" using Cons.prems(4) by simp
    have ok: "valid x" "valid y" "length (enc x @ concat (map enc xs)) < 2 ^ 64"
      using Cons.prems(1-3) \<open>ys = y # zs\<close> by simp_all
    note same = prefix_free [OF ok(1,2) eq ok(3)]
    show ?thesis using same Cons.IH [of zs] Cons.prems(1-3) \<open>ys = y # zs\<close> by simp
  qed
qed

lemma extend:
  assumes "dec bs = Inr (x, n)" "length (bs @ behind) < 2 ^ 64"
  shows "dec (bs @ behind) = Inr (x, n)"
proof -
  have "length bs < 2 ^ 64" using assms(2) by simp
  from canonical [OF this assms(1)] obtain ys where x: "valid x" "bs = enc x @ ys" "n = length (enc x)" by blast
  have "dec (enc x @ (ys @ behind)) = Inr (x, length (enc x))"
    by (rule round_trip [OF x(1)]) (use assms(2) x(2) in simp)
  then show ?thesis by (simp add: x(2,3))
qed

end

lemma wire_format_reader:
  assumes p: "codec p e V"
    and dec: "\<And>bs. dec bs = (case p (reader_new bs) of Inl e \<Rightarrow> Inl e | Inr (x, r) \<Rightarrow> Inr (x, rd_offset r))"
  shows "wire_format e dec V"
proof
  fix x behind
  assume V: "V x" and len: "length (e x @ behind) < 2 ^ 64"
  have "p (reader_new (e x @ behind)) = Inr (x, \<lparr>rd_bytes = e x @ behind, rd_offset = length (e x)\<rparr>)"
    using V by (simp add: codec_new [OF p len])
  then show "dec (e x @ behind) = Inr (x, length (e x))" by (simp add: dec)
next
  fix bs x n
  assume len: "length bs < 2 ^ 64" and "dec bs = Inr (x, n)"
  then obtain r where "p (reader_new bs) = Inr (x, r)" "n = rd_offset r"
    unfolding dec by (cases "p (reader_new bs)") auto
  then show "V x \<and> (\<exists>behind. bs = e x @ behind) \<and> n = length (e x)"
    unfolding codec_new [OF p len] by simp
qed

end
