(* ===== verification/Canonical.thy ===== *)
theory Canonical
  imports Wire_Reader
begin

text \<open>
  The canonical encoding of output events (\<open>protocol/src/canonical.rs\<close>), which feeds the output digest
  and the journal: \<open>encode_output\<close>, \<open>decode_output\<close> and the readers of the enums.  The lemmas show that
  the two are inverse to each other, field by field.
\<close>

section \<open>Encoding\<close>

definition trade_bytes :: "trade_event \<Rightarrow> byte list" where
  "trade_bytes t =
     le_bytes 8 (te_output_seq t) @ le_bytes 8 (te_engine_seq t) @ le_bytes 8 (te_engine_time_ns t) @
     le_bytes 8 (te_trade_id t) @ le_bytes 4 (te_instrument t) @ le_bytes 8 (te_maker_order_id t) @
     le_bytes 8 (te_taker_order_id t) @ le_bytes 4 (te_maker_account t) @ le_bytes 4 (te_taker_account t) @
     le_bytes 1 (side_wire (te_aggressor t)) @ le_bytes 8 (as_u64 (te_price t)) @ le_bytes 8 (te_quantity t)"

definition reject_byte :: "reject_reason option \<Rightarrow> nat" where
  "reject_byte reason = (case reason of None \<Rightarrow> 0 | Some r \<Rightarrow> reject_wire r)"

definition report_bytes :: "execution_report \<Rightarrow> byte list" where
  "report_bytes r =
     le_bytes 8 (er_output_seq r) @ le_bytes 8 (er_engine_seq r) @ le_bytes 8 (er_engine_time_ns r) @
     le_bytes 4 (er_account r) @ le_bytes 4 (er_instrument r) @ le_bytes 8 (er_request_id r) @
     le_bytes 8 (er_client_order_id r) @ le_bytes 8 (er_order_id r) @
     le_bytes 1 (report_kind_wire (er_kind r)) @ le_bytes 1 (order_state_wire (er_state r)) @
     le_bytes 1 (side_wire (er_side r)) @ le_bytes 1 (order_type_wire (er_order_type r)) @
     le_bytes 8 (as_u64 (er_price r)) @ le_bytes 8 (er_total_quantity r) @
     le_bytes 8 (er_cumulative_filled r) @ le_bytes 8 (er_remaining r) @
     le_bytes 8 (er_last_fill_quantity r) @ le_bytes 8 (as_u64 (er_last_fill_price r)) @
     le_bytes 1 (reject_byte (er_reject_reason r))"

fun state_event_tag :: "engine_state_event \<Rightarrow> nat" where
  "state_event_tag KillSwitchEngaged = 1"
| "state_event_tag KillSwitchReleased = 2"
| "state_event_tag (AccountEnabledChanged _ _) = 3"
| "state_event_tag (AccountLimitsChanged _) = 4"
| "state_event_tag (FeedStateChanged _ _) = 5"

fun state_event_fields :: "engine_state_event \<Rightarrow> byte list" where
  "state_event_fields KillSwitchEngaged = []"
| "state_event_fields KillSwitchReleased = []"
| "state_event_fields (AccountEnabledChanged account enabled) =
     le_bytes 4 account @ le_bytes 1 (of_bool enabled)"
| "state_event_fields (AccountLimitsChanged account) = le_bytes 4 account"
| "state_event_fields (FeedStateChanged instrument state) =
     le_bytes 4 instrument @ le_bytes 1 (feed_state_wire state)"

definition state_event_bytes :: "engine_state_event \<Rightarrow> byte list" where
  "state_event_bytes ev = le_bytes 1 (state_event_tag ev) @ state_event_fields ev"

definition state_bytes :: "state_event \<Rightarrow> byte list" where
  "state_bytes s =
     le_bytes 8 (se_output_seq s) @ le_bytes 8 (se_engine_seq s) @ le_bytes 8 (se_engine_time_ns s) @
     state_event_bytes (se_event s)"

fun output_tag :: "output_event \<Rightarrow> nat" where
  "output_tag (OutTrade _) = 1"
| "output_tag (OutReport _) = 2"
| "output_tag (OutState _) = 3"

fun output_fields :: "output_event \<Rightarrow> byte list" where
  "output_fields (OutTrade t) = trade_bytes t"
| "output_fields (OutReport r) = report_bytes r"
| "output_fields (OutState s) = state_bytes s"

definition output_bytes :: "output_event \<Rightarrow> byte list" where
  "output_bytes ev = le_bytes 1 (output_tag ev) @ output_fields ev"

definition encode_output :: "output_event \<Rightarrow> byte list \<Rightarrow> byte list" where
  "encode_output ev out = out @ output_bytes ev"

section \<open>Decoding\<close>

definition read_side :: "side read" where
  "read_side = read_enum side_from_wire"

definition report_kind_from_wire :: "nat \<Rightarrow> report_kind option" where
  "report_kind_from_wire v =
     (if v = 1 then Some RepAccepted else if v = 2 then Some RepRejected
      else if v = 3 then Some RepPartiallyFilled else if v = 4 then Some RepFilled
      else if v = 5 then Some RepCancelled else if v = 6 then Some RepReplaced else None)"

definition read_report_kind :: "report_kind read" where
  "read_report_kind = read_enum report_kind_from_wire"

definition order_state_from_wire :: "nat \<Rightarrow> order_state option" where
  "order_state_from_wire v =
     (if v = 1 then Some StWorking else if v = 2 then Some StPartiallyFilled
      else if v = 3 then Some StFilled else if v = 4 then Some StCancelled else None)"

definition read_order_state :: "order_state read" where
  "read_order_state = read_enum order_state_from_wire"

definition feed_state_from_wire :: "nat \<Rightarrow> feed_state option" where
  "feed_state_from_wire v =
     (if v = 1 then Some Unsynchronized else if v = 2 then Some ApplyingSnapshot
      else if v = 3 then Some Live else if v = 4 then Some Gap else None)"

definition read_feed_state :: "feed_state read" where
  "read_feed_state = read_enum feed_state_from_wire"

definition read_reject :: "reject_reason option read" where
  "read_reject = read_enum (\<lambda>v.
     if v = 0 then Some None else map_option Some (find (\<lambda>r. reject_wire r = v) all_reject_reasons))"

definition bool_from_wire :: "nat \<Rightarrow> bool option" where
  "bool_from_wire v = (if v = 0 then Some False else if v = 1 then Some True else None)"

definition read_trade :: "trade_event read" where
  "read_trade =
     read_then read_u64 (\<lambda>output_seq. read_then read_u64 (\<lambda>engine_seq. read_then read_u64 (\<lambda>time.
     read_then read_u64 (\<lambda>trade_id. read_then read_u32 (\<lambda>instrument. read_then read_u64 (\<lambda>maker.
     read_then read_u64 (\<lambda>taker. read_then read_u32 (\<lambda>maker_account. read_then read_u32 (\<lambda>taker_account.
     read_then read_side (\<lambda>aggressor. read_then read_i64 (\<lambda>price. read_then read_u64 (\<lambda>quantity.
     read_ok \<lparr>te_output_seq = output_seq, te_engine_seq = engine_seq, te_engine_time_ns = time,
       te_trade_id = trade_id, te_instrument = instrument, te_maker_order_id = maker,
       te_taker_order_id = taker, te_maker_account = maker_account, te_taker_account = taker_account,
       te_aggressor = aggressor, te_price = price, te_quantity = quantity\<rparr>))))))))))))"

definition read_report :: "execution_report read" where
  "read_report =
     read_then read_u64 (\<lambda>output_seq. read_then read_u64 (\<lambda>engine_seq. read_then read_u64 (\<lambda>time.
     read_then read_u32 (\<lambda>account. read_then read_u32 (\<lambda>instrument. read_then read_u64 (\<lambda>request.
     read_then read_u64 (\<lambda>client. read_then read_u64 (\<lambda>order. read_then read_report_kind (\<lambda>kind.
     read_then read_order_state (\<lambda>state. read_then read_side (\<lambda>sd.
     read_then (read_enum order_type_from_wire) (\<lambda>order_type. read_then read_i64 (\<lambda>price.
     read_then read_u64 (\<lambda>total_quantity. read_then read_u64 (\<lambda>cumulative. read_then read_u64 (\<lambda>rest.
     read_then read_u64 (\<lambda>last_quantity. read_then read_i64 (\<lambda>last_price. read_then read_reject (\<lambda>reason.
     read_ok \<lparr>er_output_seq = output_seq, er_engine_seq = engine_seq, er_engine_time_ns = time,
       er_account = account, er_instrument = instrument, er_request_id = request,
       er_client_order_id = client, er_order_id = order, er_kind = kind, er_state = state,
       er_side = sd, er_order_type = order_type, er_price = price,
       er_total_quantity = total_quantity, er_cumulative_filled = cumulative, er_remaining = rest,
       er_last_fill_quantity = last_quantity, er_last_fill_price = last_price,
       er_reject_reason = reason\<rparr>)))))))))))))))))))"

definition read_engine_state_event :: "engine_state_event read" where
  "read_engine_state_event =
     read_then read_u8 (\<lambda>tag.
       if tag = 1 then read_ok KillSwitchEngaged
       else if tag = 2 then read_ok KillSwitchReleased
       else if tag = 3 then
         read_then read_u32 (\<lambda>account. read_then (read_enum bool_from_wire) (\<lambda>enabled.
         read_ok (AccountEnabledChanged account enabled)))
       else if tag = 4 then read_then read_u32 (\<lambda>account. read_ok (AccountLimitsChanged account))
       else if tag = 5 then
         read_then read_u32 (\<lambda>instrument. read_then read_feed_state (\<lambda>state.
         read_ok (FeedStateChanged instrument state)))
       else read_fail)"

definition read_state :: "state_event read" where
  "read_state =
     read_then read_u64 (\<lambda>output_seq. read_then read_u64 (\<lambda>engine_seq. read_then read_u64 (\<lambda>time.
     read_then read_engine_state_event (\<lambda>event.
     read_ok \<lparr>se_output_seq = output_seq, se_engine_seq = engine_seq, se_engine_time_ns = time,
       se_event = event\<rparr>))))"

definition read_output :: "output_event read" where
  "read_output =
     read_then read_u8 (\<lambda>tag.
       if tag = 1 then read_map OutTrade read_trade
       else if tag = 2 then read_map OutReport read_report
       else if tag = 3 then read_map OutState read_state
       else read_fail)"

definition decode_output :: "byte list \<Rightarrow> decode_error + output_event \<times> nat" where
  "decode_output bs =
     (case read_output (reader_new bs) of
        Inl e \<Rightarrow> Inl e
      | Inr (event, r) \<Rightarrow> Inr (event, rd_offset r))"

section \<open>Values that fit the wire\<close>

definition trade_fits :: "trade_event \<Rightarrow> bool" where
  "trade_fits t \<longleftrightarrow>
     te_output_seq t < 2 ^ 64 \<and> te_engine_seq t < 2 ^ 64 \<and> te_engine_time_ns t < 2 ^ 64 \<and>
     te_trade_id t < 2 ^ 64 \<and> te_instrument t < 2 ^ 32 \<and> te_maker_order_id t < 2 ^ 64 \<and>
     te_taker_order_id t < 2 ^ 64 \<and> te_maker_account t < 2 ^ 32 \<and> te_taker_account t < 2 ^ 32 \<and>
     in_signed 64 (te_price t) \<and> te_quantity t < 2 ^ 64"

definition report_fits :: "execution_report \<Rightarrow> bool" where
  "report_fits r \<longleftrightarrow>
     er_output_seq r < 2 ^ 64 \<and> er_engine_seq r < 2 ^ 64 \<and> er_engine_time_ns r < 2 ^ 64 \<and>
     er_account r < 2 ^ 32 \<and> er_instrument r < 2 ^ 32 \<and> er_request_id r < 2 ^ 64 \<and>
     er_client_order_id r < 2 ^ 64 \<and> er_order_id r < 2 ^ 64 \<and> in_signed 64 (er_price r) \<and>
     er_total_quantity r < 2 ^ 64 \<and> er_cumulative_filled r < 2 ^ 64 \<and> er_remaining r < 2 ^ 64 \<and>
     er_last_fill_quantity r < 2 ^ 64 \<and> in_signed 64 (er_last_fill_price r)"

fun state_event_fits :: "engine_state_event \<Rightarrow> bool" where
  "state_event_fits (AccountEnabledChanged account _) \<longleftrightarrow> account < 2 ^ 32"
| "state_event_fits (AccountLimitsChanged account) \<longleftrightarrow> account < 2 ^ 32"
| "state_event_fits (FeedStateChanged instrument _) \<longleftrightarrow> instrument < 2 ^ 32"
| "state_event_fits _ \<longleftrightarrow> True"

definition state_fits :: "state_event \<Rightarrow> bool" where
  "state_fits s \<longleftrightarrow>
     se_output_seq s < 2 ^ 64 \<and> se_engine_seq s < 2 ^ 64 \<and> se_engine_time_ns s < 2 ^ 64 \<and>
     state_event_fits (se_event s)"

fun output_fits :: "output_event \<Rightarrow> bool" where
  "output_fits (OutTrade t) \<longleftrightarrow> trade_fits t"
| "output_fits (OutReport r) \<longleftrightarrow> report_fits r"
| "output_fits (OutState s) \<longleftrightarrow> state_fits s"

section \<open>Enums\<close>

lemma codec_side: "codec read_side (\<lambda>x. le_bytes 1 (side_wire x)) (\<lambda>_. True)"
  unfolding read_side_def
proof (rule codec_enum)
  show "side_from_wire v = Some x \<longleftrightarrow> side_wire x = v" for v x by (cases x) (auto simp: side_from_wire_def)
  show "side_wire x < 2 ^ 8" for x by (cases x) simp_all
qed

lemma codec_order_type: "codec (read_enum order_type_from_wire) (\<lambda>x. le_bytes 1 (order_type_wire x)) (\<lambda>_. True)"
proof (rule codec_enum)
  show "order_type_from_wire v = Some x \<longleftrightarrow> order_type_wire x = v" for v x by (cases x) (auto simp: order_type_from_wire_def)
  show "order_type_wire x < 2 ^ 8" for x by (cases x) simp_all
qed

lemma codec_report_kind: "codec read_report_kind (\<lambda>x. le_bytes 1 (report_kind_wire x)) (\<lambda>_. True)"
  unfolding read_report_kind_def
proof (rule codec_enum)
  show "report_kind_from_wire v = Some x \<longleftrightarrow> report_kind_wire x = v" for v x by (cases x) (auto simp: report_kind_from_wire_def)
  show "report_kind_wire x < 2 ^ 8" for x by (cases x) simp_all
qed

lemma codec_order_state: "codec read_order_state (\<lambda>x. le_bytes 1 (order_state_wire x)) (\<lambda>_. True)"
  unfolding read_order_state_def
proof (rule codec_enum)
  show "order_state_from_wire v = Some x \<longleftrightarrow> order_state_wire x = v" for v x by (cases x) (auto simp: order_state_from_wire_def)
  show "order_state_wire x < 2 ^ 8" for x by (cases x) simp_all
qed

lemma codec_feed_state: "codec read_feed_state (\<lambda>x. le_bytes 1 (feed_state_wire x)) (\<lambda>_. True)"
  unfolding read_feed_state_def
proof (rule codec_enum)
  show "feed_state_from_wire v = Some x \<longleftrightarrow> feed_state_wire x = v" for v x by (cases x) (auto simp: feed_state_from_wire_def)
  show "feed_state_wire x < 2 ^ 8" for x by (cases x) simp_all
qed

lemma codec_bool: "codec (read_enum bool_from_wire) (\<lambda>x. le_bytes 1 (of_bool x)) (\<lambda>_. True)"
  by (rule codec_enum) (auto simp: bool_from_wire_def)

lemma reject_wire_inj: "reject_wire r = reject_wire s \<longleftrightarrow> r = s"
  by (cases r; cases s; simp)

lemma codec_reject: "codec read_reject (\<lambda>x. le_bytes 1 (reject_byte x)) (\<lambda>_. True)"
  unfolding read_reject_def
proof (rule codec_enum)
  show "reject_byte x < 2 ^ 8" for x
    using reject_wire_pos by (auto simp: reject_byte_def split: option.split intro: le_less_trans [where y = 28])
  have found: "find (\<lambda>r. reject_wire r = v) all_reject_reasons = Some r \<longleftrightarrow> reject_wire r = v" for v r
    using set_all_reject_reasons reject_wire_inj
    by (cases "find (\<lambda>r. reject_wire r = v) all_reject_reasons") (auto simp: find_None_iff find_Some_iff)
  show "(if v = 0 then Some None else map_option Some (find (\<lambda>r. reject_wire r = v) all_reject_reasons)) = Some x \<longleftrightarrow>
      reject_byte x = v" for v x
    using reject_wire_pos by (cases x) (auto simp: reject_byte_def found)
qed

section \<open>Messages\<close>

lemma trade_eq:
  fixes t :: trade_event
  shows
    "t = \<lparr>te_output_seq = x0, te_engine_seq = x1, te_engine_time_ns = x2, te_trade_id = x3,
     te_instrument = x4, te_maker_order_id = x5, te_taker_order_id = x6, te_maker_account = x7,
     te_taker_account = x8, te_aggressor = x9, te_price = x10, te_quantity = x11\<rparr>
     \<longleftrightarrow> te_output_seq t = x0 \<and> te_engine_seq t = x1 \<and> te_engine_time_ns
     t = x2 \<and> te_trade_id t = x3 \<and> te_instrument t = x4 \<and> te_maker_order_id t = x5
     \<and> te_taker_order_id t = x6 \<and> te_maker_account t = x7 \<and> te_taker_account t = x8
     \<and> te_aggressor t = x9 \<and> te_price t = x10 \<and> te_quantity t = x11"
  by (cases t) auto

lemma codec_trade: "codec read_trade trade_bytes trade_fits"
  unfolding read_trade_def
  by (rule codec_cong,
    rule codec_then [where sel = te_output_seq, OF codec_u64], rule codec_then [where sel = te_engine_seq, OF codec_u64],
    rule codec_then [where sel = te_engine_time_ns, OF codec_u64], rule codec_then [where sel = te_trade_id, OF codec_u64],
    rule codec_then [where sel = te_instrument, OF codec_u32], rule codec_then [where sel = te_maker_order_id, OF codec_u64],
    rule codec_then [where sel = te_taker_order_id, OF codec_u64], rule codec_then [where sel = te_maker_account, OF codec_u32],
    rule codec_then [where sel = te_taker_account, OF codec_u32], rule codec_then [where sel = te_aggressor, OF codec_side],
    rule codec_then [where sel = te_price, OF codec_i64], rule codec_then [where sel = te_quantity, OF codec_u64], rule codec_ok)
    (simp_all add: trade_bytes_def trade_fits_def trade_eq)

lemma report_eq:
  fixes t :: execution_report
  shows
    "t = \<lparr>er_output_seq = x0, er_engine_seq = x1, er_engine_time_ns = x2, er_account = x3,
     er_instrument = x4, er_request_id = x5, er_client_order_id = x6, er_order_id = x7, er_kind =
     x8, er_state = x9, er_side = x10, er_order_type = x11, er_price = x12, er_total_quantity = x13,
     er_cumulative_filled = x14, er_remaining = x15, er_last_fill_quantity = x16, er_last_fill_price
     = x17, er_reject_reason = x18\<rparr> \<longleftrightarrow> er_output_seq t = x0 \<and>
     er_engine_seq t = x1 \<and> er_engine_time_ns t = x2 \<and> er_account t = x3 \<and>
     er_instrument t = x4 \<and> er_request_id t = x5 \<and> er_client_order_id t = x6 \<and>
     er_order_id t = x7 \<and> er_kind t = x8 \<and> er_state t = x9 \<and> er_side t = x10 \<and>
     er_order_type t = x11 \<and> er_price t = x12 \<and> er_total_quantity t = x13 \<and>
     er_cumulative_filled t = x14 \<and> er_remaining t = x15 \<and> er_last_fill_quantity t = x16
     \<and> er_last_fill_price t = x17 \<and> er_reject_reason t = x18"
  by (cases t) auto

lemma codec_report: "codec read_report report_bytes report_fits"
  unfolding read_report_def
  by (rule codec_cong,
    rule codec_then [where sel = er_output_seq, OF codec_u64], rule codec_then [where sel = er_engine_seq, OF codec_u64],
    rule codec_then [where sel = er_engine_time_ns, OF codec_u64], rule codec_then [where sel = er_account, OF codec_u32],
    rule codec_then [where sel = er_instrument, OF codec_u32], rule codec_then [where sel = er_request_id, OF codec_u64],
    rule codec_then [where sel = er_client_order_id, OF codec_u64], rule codec_then [where sel = er_order_id, OF codec_u64],
    rule codec_then [where sel = er_kind, OF codec_report_kind], rule codec_then [where sel = er_state, OF codec_order_state],
    rule codec_then [where sel = er_side, OF codec_side], rule codec_then [where sel = er_order_type, OF codec_order_type],
    rule codec_then [where sel = er_price, OF codec_i64], rule codec_then [where sel = er_total_quantity, OF codec_u64],
    rule codec_then [where sel = er_cumulative_filled, OF codec_u64], rule codec_then [where sel = er_remaining, OF codec_u64],
    rule codec_then [where sel = er_last_fill_quantity, OF codec_u64], rule codec_then [where sel = er_last_fill_price, OF codec_i64],
    rule codec_then [where sel = er_reject_reason, OF codec_reject], rule codec_ok)
    (simp_all add: report_bytes_def report_fits_def report_eq)

text \<open>A tagged union: one read per tag.  The fields of a constructor are selected by a function that is
  arbitrary elsewhere.\<close>

lemma codec_state_event_3:
  "codec (read_then read_u32 (\<lambda>account. read_then (read_enum bool_from_wire) (\<lambda>enabled.
     read_ok (AccountEnabledChanged account enabled)))) state_event_fields
     (\<lambda>ev. state_event_tag ev = 3 \<and> state_event_fits ev)"
  by (rule codec_cong,
      rule codec_then [where sel = "\<lambda>ev. case ev of AccountEnabledChanged a _ \<Rightarrow> a | _ \<Rightarrow> 0", OF codec_u32],
      rule codec_then [where sel = "\<lambda>ev. case ev of AccountEnabledChanged _ b \<Rightarrow> b | _ \<Rightarrow> False", OF codec_bool],
      rule codec_ok)
    (auto split: engine_state_event.splits)

lemma codec_state_event_4:
  "codec (read_then read_u32 (\<lambda>account. read_ok (AccountLimitsChanged account))) state_event_fields
     (\<lambda>ev. state_event_tag ev = 4 \<and> state_event_fits ev)"
  by (rule codec_cong,
      rule codec_then [where sel = "\<lambda>ev. case ev of AccountLimitsChanged a \<Rightarrow> a | _ \<Rightarrow> 0", OF codec_u32],
      rule codec_ok)
    (auto split: engine_state_event.splits)

lemma codec_state_event_5:
  "codec (read_then read_u32 (\<lambda>instrument. read_then read_feed_state (\<lambda>state.
     read_ok (FeedStateChanged instrument state)))) state_event_fields
     (\<lambda>ev. state_event_tag ev = 5 \<and> state_event_fits ev)"
  by (rule codec_cong,
      rule codec_then [where sel = "\<lambda>ev. case ev of FeedStateChanged i _ \<Rightarrow> i | _ \<Rightarrow> 0", OF codec_u32],
      rule codec_then [where sel = "\<lambda>ev. case ev of FeedStateChanged _ s \<Rightarrow> s | _ \<Rightarrow> Gap", OF codec_feed_state],
      rule codec_ok)
    (auto split: engine_state_event.splits)

lemma state_event_tag_range: "state_event_tag ev \<in> {1, 2, 3, 4, 5}"
  by (cases ev) simp_all

lemma state_event_tag_small: "state_event_tag ev < 256"
  by (cases ev) simp_all

lemma codec_engine_state_event: "codec read_engine_state_event state_event_bytes state_event_fits"
  unfolding read_engine_state_event_def
proof (rule codec_cong [OF codec_then [OF codec_u8, where sel = state_event_tag and e' = state_event_fields and
      W = "\<lambda>tag ev. state_event_tag ev = tag \<and> state_event_fits ev"]])
  fix tag :: nat
  have "state_event_tag ev = 1 \<longleftrightarrow> ev = KillSwitchEngaged"
    "state_event_tag ev = 2 \<longleftrightarrow> ev = KillSwitchReleased" for ev
    by (cases ev; simp)+
  then show "codec (if tag = 1 then read_ok KillSwitchEngaged
       else if tag = 2 then read_ok KillSwitchReleased
       else if tag = 3 then
         read_then read_u32 (\<lambda>account. read_then (read_enum bool_from_wire) (\<lambda>enabled.
         read_ok (AccountEnabledChanged account enabled)))
       else if tag = 4 then read_then read_u32 (\<lambda>account. read_ok (AccountLimitsChanged account))
       else if tag = 5 then
         read_then read_u32 (\<lambda>instrument. read_then read_feed_state (\<lambda>state.
         read_ok (FeedStateChanged instrument state)))
       else read_fail) state_event_fields (\<lambda>ev. state_event_tag ev = tag \<and> state_event_fits ev)"
    using codec_state_event_3 codec_state_event_4 codec_state_event_5 state_event_tag_range
    by (auto intro!: codec_cong [OF codec_ok] codec_cong [OF codec_fail])
qed (simp_all add: state_event_bytes_def state_event_tag_small)

lemma state_eq:
  fixes t :: state_event
  shows
    "t = \<lparr>se_output_seq = x0, se_engine_seq = x1, se_engine_time_ns = x2, se_event =
     x3\<rparr> \<longleftrightarrow> se_output_seq t = x0 \<and> se_engine_seq t = x1 \<and>
     se_engine_time_ns t = x2 \<and> se_event t = x3"
  by (cases t) auto

lemma codec_state: "codec read_state state_bytes state_fits"
  unfolding read_state_def
  by (rule codec_cong,
    rule codec_then [where sel = se_output_seq, OF codec_u64], rule codec_then [where sel = se_engine_seq, OF codec_u64],
    rule codec_then [where sel = se_engine_time_ns, OF codec_u64], rule codec_then [where sel = se_event, OF codec_engine_state_event], rule codec_ok)
    (simp_all add: state_bytes_def state_fits_def state_eq)

lemma output_tag_range: "output_tag ev \<in> {1, 2, 3}"
  by (cases ev) simp_all

lemma output_tag_small: "output_tag ev < 256"
  by (cases ev) simp_all

lemma codec_output: "codec read_output output_bytes output_fits"
  unfolding read_output_def
proof (rule codec_cong [OF codec_then [OF codec_u8, where sel = output_tag and e' = output_fields and
      W = "\<lambda>tag ev. output_tag ev = tag \<and> output_fits ev"]])
  fix tag :: nat
  have 1: "codec (read_map OutTrade read_trade) output_fields (\<lambda>ev. output_tag ev = 1 \<and> output_fits ev)"
    by (rule codec_cong [OF codec_map [OF codec_trade, where g = "\<lambda>ev. case ev of OutTrade t \<Rightarrow> t"]])
      (auto split: output_event.splits)
  have 2: "codec (read_map OutReport read_report) output_fields (\<lambda>ev. output_tag ev = 2 \<and> output_fits ev)"
    by (rule codec_cong [OF codec_map [OF codec_report, where g = "\<lambda>ev. case ev of OutReport t \<Rightarrow> t"]])
      (auto split: output_event.splits)
  have 3: "codec (read_map OutState read_state) output_fields (\<lambda>ev. output_tag ev = 3 \<and> output_fits ev)"
    by (rule codec_cong [OF codec_map [OF codec_state, where g = "\<lambda>ev. case ev of OutState t \<Rightarrow> t"]])
      (auto split: output_event.splits)
  show "codec (if tag = 1 then read_map OutTrade read_trade
       else if tag = 2 then read_map OutReport read_report
       else if tag = 3 then read_map OutState read_state
       else read_fail) output_fields (\<lambda>ev. output_tag ev = tag \<and> output_fits ev)"
    using 1 2 3 output_tag_range by (auto intro!: codec_cong [OF codec_fail])
qed (simp_all add: output_bytes_def output_tag_small)

interpretation canonical: wire_format output_bytes decode_output output_fits
  by (rule wire_format_reader [OF codec_output decode_output_def])

end
