(* ===== verification/Codec.thy ===== *)
theory Codec
  imports Canonical
begin

text \<open>
  The binary feed format (\<open>protocol/src/codec.rs\<close>): the file header with its instrument table and the
  length-delimited, checksummed frames.  \<open>crc\<close> stands for \<open>crc32fast::hash\<close>; what is used of it is that
  it returns a \<open>u32\<close>, and for the detection of corruption that it tells two inputs apart that differ in
  one byte.
\<close>

section \<open>Constants\<close>

definition wire_magic :: "byte list" where
  "wire_magic = [0x52, 0x4C, 0x54, 0x4C]"

definition format_major :: nat where
  "format_major = 1"

definition format_minor :: nat where
  "format_minor = 0"

definition endian_marker :: nat where
  "endian_marker = 0x1234"

definition schema_version :: nat where
  "schema_version = 1"

definition max_frame_len :: nat where
  "max_frame_len = 4096"

definition max_instruments :: nat where
  "max_instruments = 256"

definition instrument_len :: nat where
  "instrument_len = 30"

lemmas wire_constants = wire_magic_def format_major_def format_minor_def endian_marker_def
  schema_version_def max_frame_len_def max_instruments_def instrument_len_def

definition read_error :: "decode_error_kind \<Rightarrow> nat \<Rightarrow> 'a read" where
  "read_error kind offset r = Inl (decode_error_new kind offset)"

section \<open>The file header\<close>

record instrument_spec =
  is_id :: instrument_id
  is_symbol :: "byte list"
  is_tick_size :: int
  is_lot_size :: nat
  is_price_scale :: nat
  is_quantity_scale :: nat

text \<open>The symbol is cut or padded with zero bytes to eight bytes.\<close>

definition instrument_spec_new :: "instrument_id \<Rightarrow> byte list \<Rightarrow> int \<Rightarrow> nat \<Rightarrow> instrument_spec" where
  "instrument_spec_new i symbol tick_size lot_size =
     \<lparr>is_id = i, is_symbol = take 8 symbol @ replicate (8 - length symbol) 0, is_tick_size = tick_size,
      is_lot_size = lot_size, is_price_scale = 2, is_quantity_scale = 0\<rparr>"

record file_header =
  fh_run_id :: nat
  fh_seed :: nat
  fh_start_wall_time_ns :: nat
  fh_instruments :: "instrument_spec list"

definition instrument_bytes :: "instrument_spec \<Rightarrow> byte list" where
  "instrument_bytes i =
     le_bytes 4 (is_id i) @ is_symbol i @ le_bytes 8 (as_u64 (is_tick_size i)) @ le_bytes 8 (is_lot_size i) @
     le_bytes 1 (is_price_scale i) @ le_bytes 1 (is_quantity_scale i)"

definition header_length :: "file_header \<Rightarrow> nat" where
  "header_length h = 46 + length (fh_instruments h) * instrument_len + 4"

definition header_body :: "file_header \<Rightarrow> byte list" where
  "header_body h =
     wire_magic @ le_bytes 2 format_major @ le_bytes 2 format_minor @ le_bytes 2 endian_marker @
     le_bytes 2 (header_length h) @ le_bytes 16 (fh_run_id h) @ le_bytes 8 (fh_seed h) @
     le_bytes 8 (fh_start_wall_time_ns h) @ le_bytes 2 (length (fh_instruments h)) @
     concat (map instrument_bytes (fh_instruments h))"

definition header_bytes :: "(byte list \<Rightarrow> nat) \<Rightarrow> file_header \<Rightarrow> byte list" where
  "header_bytes crc h = header_body h @ le_bytes 4 (crc (header_body h))"

definition encode_header :: "(byte list \<Rightarrow> nat) \<Rightarrow> file_header \<Rightarrow> byte list \<Rightarrow> byte list" where
  "encode_header crc h out = out @ header_bytes crc h"

definition read_instrument :: "instrument_spec read" where
  "read_instrument =
     read_then read_u32 (\<lambda>i. read_then (reader_take 8) (\<lambda>symbol. read_then read_i64 (\<lambda>tick_size.
     read_then read_u64 (\<lambda>lot_size. read_then read_u8 (\<lambda>price_scale. read_then read_u8 (\<lambda>quantity_scale.
     read_ok \<lparr>is_id = i, is_symbol = symbol, is_tick_size = tick_size, is_lot_size = lot_size,
       is_price_scale = price_scale, is_quantity_scale = quantity_scale\<rparr>))))))"

text \<open>The table, one entry per pass of the loop: a tick or lot size that is not positive and a
  repeated id are errors.\<close>

fun read_instruments :: "nat \<Rightarrow> instrument_spec list \<Rightarrow> instrument_spec list read" where
  "read_instruments 0 table = read_ok table"
| "read_instruments (Suc n) table =
     read_then read_instrument (\<lambda>i.
       if is_tick_size i \<le> 0 \<or> is_lot_size i = 0 \<or> (\<exists>x \<in> set table. is_id x = is_id i)
       then (\<lambda>r. read_error InstrumentTable (rd_offset r) r)
       else read_instruments n (table @ [i]))"

definition read_header :: "(byte list \<Rightarrow> nat) \<Rightarrow> byte list \<Rightarrow> (file_header \<times> nat) read" where
  "read_header crc bs =
     read_then (reader_take 4) (\<lambda>magic.
     if magic \<noteq> wire_magic then read_error BadMagic 0 else
     read_then read_u16 (\<lambda>major. read_then read_u16 (\<lambda>minor.
     if major \<noteq> format_major \<or> format_minor < minor then read_error UnsupportedVersion 4 else
     read_then read_u16 (\<lambda>endian.
     if endian \<noteq> endian_marker then read_error BadEndian 8 else
     read_then read_u16 (\<lambda>header_len.
     if header_len < 50 \<or> length bs < header_len then read_error Truncated 10 else
     read_then read_u128 (\<lambda>run_id. read_then read_u64 (\<lambda>seed. read_then read_u64 (\<lambda>start.
     read_then read_u16 (\<lambda>count.
     if max_instruments < count then read_error InstrumentTable 44 else
     if header_len \<noteq> 46 + count * instrument_len + 4 then read_error InstrumentTable 10 else
     read_then (read_instruments count []) (\<lambda>instruments.
     read_then read_u32 (\<lambda>stored.
     if stored \<noteq> crc (take (header_len - 4) bs) then read_error Checksum (header_len - 4) else
     read_ok (\<lparr>fh_run_id = run_id, fh_seed = seed, fh_start_wall_time_ns = start,
       fh_instruments = instruments\<rparr>, header_len))))))))))))"

definition decode_header :: "(byte list \<Rightarrow> nat) \<Rightarrow> byte list \<Rightarrow> decode_error + file_header \<times> nat" where
  "decode_header crc bs =
     (case read_header crc bs (reader_new bs) of Inl e \<Rightarrow> Inl e | Inr (h, r) \<Rightarrow> Inr h)"

section \<open>Frames\<close>

datatype frame_body =
    FbSnapshotBegin nat                              \<comment> \<open>snapshot sequence\<close>
  | FbSnapshotLevel side price_ticks quantity_lots
  | FbSnapshotEnd nat nat nat                        \<comment> \<open>snapshot sequence, level count, state checksum\<close>
  | FbLevelSet side price_ticks quantity_lots
  | FbMarketTrade side price_ticks quantity_lots
  | FbHeartbeat
  | FbFeedReset nat                                  \<comment> \<open>new epoch\<close>
  | FbOrderRequest order_request

fun message_type :: "frame_body \<Rightarrow> nat" where
  "message_type (FbSnapshotBegin _) = 1"
| "message_type (FbSnapshotLevel _ _ _) = 2"
| "message_type (FbSnapshotEnd _ _ _) = 3"
| "message_type (FbLevelSet _ _ _) = 4"
| "message_type (FbMarketTrade _ _ _) = 5"
| "message_type FbHeartbeat = 6"
| "message_type (FbFeedReset _) = 7"
| "message_type (FbOrderRequest _) = 8"

record frame =
  fr_source_seq :: nat
  fr_source_time_ns :: nat
  fr_recv_time_ns :: nat
  fr_instrument :: instrument_id
  fr_body :: frame_body

definition level_bytes :: "side \<Rightarrow> price_ticks \<Rightarrow> quantity_lots \<Rightarrow> byte list" where
  "level_bytes sd price quantity =
     le_bytes 1 (side_wire sd) @ le_bytes 8 (as_u64 price) @ le_bytes 8 quantity"

definition request_bytes :: "order_request \<Rightarrow> byte list" where
  "request_bytes rq =
     le_bytes 1 (request_kind_wire (rq_kind rq)) @ le_bytes 1 (side_wire (rq_side rq)) @
     le_bytes 1 (order_type_wire (rq_order_type rq)) @ le_bytes 4 (rq_account rq) @
     le_bytes 8 (rq_client_order_id rq) @ le_bytes 8 (rq_target_client_order_id rq) @
     le_bytes 8 (rq_request_id rq) @ le_bytes 8 (rq_client_seq rq) @
     le_bytes 8 (as_u64 (rq_price rq)) @ le_bytes 8 (rq_quantity rq)"

fun encode_payload :: "frame_body \<Rightarrow> byte list" where
  "encode_payload (FbSnapshotBegin n) = le_bytes 8 n"
| "encode_payload (FbSnapshotLevel sd price quantity) = level_bytes sd price quantity"
| "encode_payload (FbSnapshotEnd n count state_crc) = le_bytes 8 n @ le_bytes 4 count @ le_bytes 4 state_crc"
| "encode_payload (FbLevelSet sd price quantity) = level_bytes sd price quantity"
| "encode_payload (FbMarketTrade aggressor price quantity) = level_bytes aggressor price quantity"
| "encode_payload FbHeartbeat = []"
| "encode_payload (FbFeedReset epoch) = le_bytes 8 epoch"
| "encode_payload (FbOrderRequest rq) = request_bytes rq"

definition frame_fields :: "frame \<Rightarrow> byte list" where
  "frame_fields f =
     le_bytes 1 (message_type (fr_body f)) @ le_bytes 1 0 @ le_bytes 2 schema_version @
     le_bytes 8 (fr_source_seq f) @ le_bytes 8 (fr_source_time_ns f) @ le_bytes 8 (fr_recv_time_ns f) @
     le_bytes 4 (fr_instrument f) @ encode_payload (fr_body f)"

text \<open>The length field is written last, over a placeholder.\<close>

definition frame_content :: "frame \<Rightarrow> byte list" where
  "frame_content f = le_bytes 4 (4 + length (frame_fields f) + 4) @ frame_fields f"

definition frame_bytes :: "(byte list \<Rightarrow> nat) \<Rightarrow> frame \<Rightarrow> byte list" where
  "frame_bytes crc f = frame_content f @ le_bytes 4 (crc (frame_content f))"

definition encode_frame :: "(byte list \<Rightarrow> nat) \<Rightarrow> frame \<Rightarrow> byte list \<Rightarrow> byte list" where
  "encode_frame crc f out = out @ frame_bytes crc f"

definition read_level :: "(side \<times> price_ticks \<times> quantity_lots) read" where
  "read_level =
     read_then read_side (\<lambda>sd. read_then read_i64 (\<lambda>price. read_then read_u64 (\<lambda>quantity.
     read_ok (sd, price, quantity))))"

definition read_request :: "instrument_id \<Rightarrow> order_request read" where
  "read_request instrument =
     read_then (read_enum request_kind_from_wire) (\<lambda>kind. read_then read_side (\<lambda>sd.
     read_then (read_enum order_type_from_wire) (\<lambda>order_type. read_then read_u32 (\<lambda>account.
     read_then read_u64 (\<lambda>client. read_then read_u64 (\<lambda>target. read_then read_u64 (\<lambda>request.
     read_then read_u64 (\<lambda>client_seq. read_then read_i64 (\<lambda>price. read_then read_u64 (\<lambda>quantity.
     read_ok \<lparr>rq_kind = kind, rq_account = account, rq_instrument = instrument, rq_request_id = request,
       rq_client_seq = client_seq, rq_client_order_id = client, rq_target_client_order_id = target,
       rq_side = sd, rq_order_type = order_type, rq_price = price, rq_quantity = quantity\<rparr>))))))))))"

definition decode_payload :: "nat \<Rightarrow> instrument_id \<Rightarrow> frame_body read" where
  "decode_payload mtype instrument =
     (if mtype = 1 then read_map FbSnapshotBegin read_u64
      else if mtype = 2 then read_map (\<lambda>(sd, price, quantity). FbSnapshotLevel sd price quantity) read_level
      else if mtype = 3 then
        read_then read_u64 (\<lambda>n. read_then read_u32 (\<lambda>count. read_then read_u32 (\<lambda>state_crc.
        read_ok (FbSnapshotEnd n count state_crc))))
      else if mtype = 4 then read_map (\<lambda>(sd, price, quantity). FbLevelSet sd price quantity) read_level
      else if mtype = 5 then
        read_then read_level (\<lambda>(aggressor, price, quantity).
          if quantity = 0 then read_fail else read_ok (FbMarketTrade aggressor price quantity))
      else if mtype = 6 then read_ok FbHeartbeat
      else if mtype = 7 then read_map FbFeedReset read_u64
      else if mtype = 8 then read_map FbOrderRequest (read_request instrument)
      else (\<lambda>r. read_error UnknownMessageType (rd_offset r) r))"

text \<open>\<open>map_err(|error| error.with_source_seq(source_seq))\<close>.\<close>

definition read_tagged :: "nat \<Rightarrow> 'a read \<Rightarrow> 'a read" where
  "read_tagged source_seq p r =
     (case p r of Inl e \<Rightarrow> Inl (with_source_seq e source_seq) | Inr x \<Rightarrow> Inr x)"

definition read_frame :: "frame read" where
  "read_frame =
     read_then read_u8 (\<lambda>mtype. read_then read_u8 (\<lambda>flags.
     if flags \<noteq> 0 then read_error ReservedFlags 5 else
     read_then read_u16 (\<lambda>version.
     if version \<noteq> schema_version then read_error UnsupportedVersion 6 else
     read_then read_u64 (\<lambda>source_seq. read_then read_u64 (\<lambda>source_time. read_then read_u64 (\<lambda>recv_time.
     read_then read_u32 (\<lambda>instrument.
     read_then (read_tagged source_seq (decode_payload mtype instrument)) (\<lambda>body.
     read_ok \<lparr>fr_source_seq = source_seq, fr_source_time_ns = source_time, fr_recv_time_ns = recv_time,
       fr_instrument = instrument, fr_body = body\<rparr>))))))))"

definition decode_frame :: "(byte list \<Rightarrow> nat) \<Rightarrow> byte list \<Rightarrow> decode_error + frame \<times> nat" where
  "decode_frame crc bs =
     (if length bs < 4 then Inl (decode_error_new Truncated 0)
      else
        (let frame_len = le_value (take 4 bs) in
         if frame_len < 40 \<or> max_frame_len < frame_len then Inl (decode_error_new FrameLength 0)
         else if length bs < frame_len then Inl (decode_error_new Truncated 0)
         else
           (let content = take (frame_len - 4) bs;
                stored = le_value (take 4 (drop (frame_len - 4) bs)) in
            if stored \<noteq> crc content then Inl (decode_error_new Checksum (frame_len - 4))
            else
              (case read_then (reader_skip 4) (\<lambda>_. read_frame) (reader_new content) of
                 Inl e \<Rightarrow> Inl e
               | Inr (f, r) \<Rightarrow>
                   if reader_remaining r \<noteq> 0
                   then Inl (with_source_seq (decode_error_new PayloadLength (rd_offset r)) (fr_source_seq f))
                   else Inr (f, frame_len)))))"

section \<open>Values that fit the wire\<close>

definition instrument_fits :: "instrument_spec \<Rightarrow> bool" where
  "instrument_fits i \<longleftrightarrow>
     is_id i < 2 ^ 32 \<and> length (is_symbol i) = 8 \<and> in_signed 64 (is_tick_size i) \<and> is_lot_size i < 2 ^ 64 \<and>
     is_price_scale i < 2 ^ 8 \<and> is_quantity_scale i < 2 ^ 8"

definition table_ok :: "instrument_spec list \<Rightarrow> bool" where
  "table_ok xs \<longleftrightarrow>
     list_all (\<lambda>i. instrument_fits i \<and> 0 < is_tick_size i \<and> 0 < is_lot_size i) xs \<and> distinct (map is_id xs)"

definition header_ok :: "file_header \<Rightarrow> bool" where
  "header_ok h \<longleftrightarrow>
     fh_run_id h < 2 ^ 128 \<and> fh_seed h < 2 ^ 64 \<and> fh_start_wall_time_ns h < 2 ^ 64 \<and>
     length (fh_instruments h) \<le> max_instruments \<and> table_ok (fh_instruments h)"

definition request_fits :: "order_request \<Rightarrow> bool" where
  "request_fits rq \<longleftrightarrow>
     rq_account rq < 2 ^ 32 \<and> rq_client_order_id rq < 2 ^ 64 \<and> rq_target_client_order_id rq < 2 ^ 64 \<and>
     rq_request_id rq < 2 ^ 64 \<and> rq_client_seq rq < 2 ^ 64 \<and> in_signed 64 (rq_price rq) \<and>
     rq_quantity rq < 2 ^ 64"

fun body_fits :: "instrument_id \<Rightarrow> frame_body \<Rightarrow> bool" where
  "body_fits i (FbSnapshotBegin n) \<longleftrightarrow> n < 2 ^ 64"
| "body_fits i (FbSnapshotLevel _ price quantity) \<longleftrightarrow> in_signed 64 price \<and> quantity < 2 ^ 64"
| "body_fits i (FbSnapshotEnd n count state_crc) \<longleftrightarrow> n < 2 ^ 64 \<and> count < 2 ^ 32 \<and> state_crc < 2 ^ 32"
| "body_fits i (FbLevelSet _ price quantity) \<longleftrightarrow> in_signed 64 price \<and> quantity < 2 ^ 64"
| "body_fits i (FbMarketTrade _ price quantity) \<longleftrightarrow> in_signed 64 price \<and> 0 < quantity \<and> quantity < 2 ^ 64"
| "body_fits i FbHeartbeat \<longleftrightarrow> True"
| "body_fits i (FbFeedReset epoch) \<longleftrightarrow> epoch < 2 ^ 64"
| "body_fits i (FbOrderRequest rq) \<longleftrightarrow> request_fits rq \<and> rq_instrument rq = i"

definition frame_ok :: "frame \<Rightarrow> bool" where
  "frame_ok f \<longleftrightarrow>
     fr_source_seq f < 2 ^ 64 \<and> fr_source_time_ns f < 2 ^ 64 \<and> fr_recv_time_ns f < 2 ^ 64 \<and>
     fr_instrument f < 2 ^ 32 \<and> body_fits (fr_instrument f) (fr_body f)"

section \<open>Guards\<close>

lemma codec_error: "codec (\<lambda>r. read_error k (g r) r) e (\<lambda>_. False)" "codec (read_error k n) e (\<lambda>_. False)"
  by (rule codecI; simp add: read_error_def)+

lemma codec_guard:
  assumes "\<not> B \<Longrightarrow> codec q e V" "\<And>v. \<not> bad v" "codec p e bad"
  shows "codec (if B then p else q) e (\<lambda>v. \<not> B \<and> V v)"
proof (cases B)
  case True
  then show ?thesis using codec_cong [OF assms(3)] assms(2) by simp
next
  case False
  then show ?thesis using assms(1) by simp
qed

lemma codec_check:
  assumes "\<not> B \<Longrightarrow> codec q e V"
  shows "codec (if B then read_error k n else q) e (\<lambda>v. \<not> B \<and> V v)"
  by (rule codec_guard [OF assms _ codec_error(2)]) simp_all

section \<open>The instrument table\<close>

lemmas codec_symbol = codec_take [of 8]

lemma instrument_eq:
  fixes t :: instrument_spec
  shows
    "t = \<lparr>is_id = x0, is_symbol = x1, is_tick_size = x2, is_lot_size = x3, is_price_scale =
     x4, is_quantity_scale = x5\<rparr> \<longleftrightarrow> is_id t = x0 \<and> is_symbol t = x1
     \<and> is_tick_size t = x2 \<and> is_lot_size t = x3 \<and> is_price_scale t = x4 \<and>
     is_quantity_scale t = x5"
  by (cases t) auto

lemma codec_instrument: "codec read_instrument instrument_bytes instrument_fits"
  unfolding read_instrument_def
  by (rule codec_cong,
    rule codec_then [where sel = is_id, OF codec_u32], rule codec_then [where sel = is_symbol, OF codec_symbol],
    rule codec_then [where sel = is_tick_size, OF codec_i64], rule codec_then [where sel = is_lot_size, OF codec_u64],
    rule codec_then [where sel = is_price_scale, OF codec_u8], rule codec_then [where sel = is_quantity_scale, OF codec_u8], rule codec_ok)
    (simp_all add: instrument_bytes_def instrument_fits_def instrument_eq)

lemma length_instrument_bytes: "instrument_fits i \<Longrightarrow> length (instrument_bytes i) = instrument_len"
  by (simp add: instrument_bytes_def instrument_fits_def wire_constants)

lemma table_ok_snoc: "table_ok (xs @ [i]) \<longleftrightarrow>
    table_ok xs \<and> instrument_fits i \<and> 0 < is_tick_size i \<and> 0 < is_lot_size i \<and> (\<forall>x \<in> set xs. is_id x \<noteq> is_id i)"
proof -
  have "is_id i \<notin> is_id ` set xs \<longleftrightarrow> (\<forall>x \<in> set xs. is_id x \<noteq> is_id i)" by (metis image_iff)
  then show ?thesis by (auto simp: table_ok_def)
qed

lemma table_ok_append: "table_ok (xs @ ys) \<Longrightarrow> table_ok xs"
  by (auto simp: table_ok_def)

lemma codec_instruments:
  assumes "table_ok table"
  shows "codec (read_instruments n table) (\<lambda>xs. concat (map instrument_bytes (drop (length table) xs)))
    (\<lambda>xs. (\<exists>ys. xs = table @ ys \<and> length ys = n) \<and> table_ok xs)"
  using assms
proof (induction n arbitrary: table)
  case 0
  show ?case unfolding read_instruments.simps by (rule codec_cong [OF codec_ok]) (use 0 in auto)
next
  case (Suc n)
  let ?bad = "\<lambda>i. is_tick_size i \<le> 0 \<or> is_lot_size i = 0 \<or> (\<exists>x \<in> set table. is_id x = is_id i)"
  let ?q = "\<lambda>i. if ?bad i then (\<lambda>r. read_error InstrumentTable (rd_offset r) r) else read_instruments n (table @ [i])"
  let ?W = "\<lambda>i xs. \<not> ?bad i \<and> (\<exists>ys. xs = (table @ [i]) @ ys \<and> length ys = n) \<and> table_ok xs"
  have q: "codec (?q i) (\<lambda>xs. concat (map instrument_bytes (drop (length (table @ [i])) xs))) (?W i)"
    if "instrument_fits i" for i
  proof (rule codec_guard [OF _ _ codec_error(1)])
    assume "\<not> ?bad i"
    then have "table_ok (table @ [i])" using Suc.prems that by (auto simp: table_ok_snoc)
    from Suc.IH [OF this] show "codec (read_instruments n (table @ [i]))
        (\<lambda>xs. concat (map instrument_bytes (drop (length (table @ [i])) xs)))
        (\<lambda>xs. (\<exists>ys. xs = (table @ [i]) @ ys \<and> length ys = n) \<and> table_ok xs)" .
  qed simp
  show ?case
    unfolding read_instruments.simps
  proof (rule codec_cong [OF codec_then [OF codec_instrument, where sel = "\<lambda>xs. xs ! length table" and W = ?W and
        e' = "\<lambda>xs. concat (map instrument_bytes (drop (Suc (length table)) xs))"]])
    show "codec (?q i) (\<lambda>xs. concat (map instrument_bytes (drop (Suc (length table)) xs))) (?W i)"
      if "instrument_fits i" for i
      using q [OF that] by simp
    show "xs ! length table = i" if "?W i xs" for i xs using that by (auto simp: nth_append)
    show "(\<exists>ys. xs = table @ ys \<and> length ys = Suc n) \<and> table_ok xs \<longleftrightarrow>
        instrument_fits (xs ! length table) \<and> ?W (xs ! length table) xs" for xs
    proof
      assume "(\<exists>ys. xs = table @ ys \<and> length ys = Suc n) \<and> table_ok xs"
      then obtain i zs where xs: "xs = (table @ [i]) @ zs" "length zs = n" and ok: "table_ok xs"
        by (auto simp: length_Suc_conv)
      then have "table_ok (table @ [i])" using table_ok_append by blast
      then show "instrument_fits (xs ! length table) \<and> ?W (xs ! length table) xs"
        using xs ok by (auto simp: table_ok_snoc nth_append)
    qed auto
    show "concat (map instrument_bytes (drop (length table) xs)) =
        instrument_bytes (xs ! length table) @ concat (map instrument_bytes (drop (Suc (length table)) xs))"
      if "instrument_fits (xs ! length table) \<and> ?W (xs ! length table) xs" for xs
    proof -
      from that obtain ys where ys: "xs = (table @ [xs ! length table]) @ ys" by blast
      from arg_cong [OF ys, of length] have "length table < length xs" by simp
      then show ?thesis by (simp add: Cons_nth_drop_Suc [symmetric])
    qed
  qed
qed

lemma header_eq:
  fixes t :: file_header
  shows
    "t = \<lparr>fh_run_id = x0, fh_seed = x1, fh_start_wall_time_ns = x2, fh_instruments =
     x3\<rparr> \<longleftrightarrow> fh_run_id t = x0 \<and> fh_seed t = x1 \<and>
     fh_start_wall_time_ns t = x2 \<and> fh_instruments t = x3"
  by (cases t) auto

section \<open>The header\<close>

lemma length_table: "table_ok xs \<Longrightarrow> length (concat (map instrument_bytes xs)) = length xs * instrument_len"
  by (induction xs) (auto simp: table_ok_def length_instrument_bytes)

lemma codec_header:
  "codec (read_header crc bs) (\<lambda>(h, n). header_body h @ le_bytes 4 (crc (take (n - 4) bs)))
     (\<lambda>(h, n). header_ok h \<and> n = header_length h \<and> n \<le> length bs \<and> crc (take (n - 4) bs) < 2 ^ 32)"
  unfolding read_header_def
  apply (rule codec_cong,
    rule codec_then [where sel = "\<lambda>_. wire_magic", OF codec_take], rule codec_check,
    rule codec_then [where sel = "\<lambda>_. format_major", OF codec_u16],
    rule codec_then [where sel = "\<lambda>_. format_minor", OF codec_u16], rule codec_check,
    rule codec_then [where sel = "\<lambda>_. endian_marker", OF codec_u16], rule codec_check,
    rule codec_then [where sel = snd, OF codec_u16], rule codec_check,
    rule codec_then [where sel = "fh_run_id \<circ> fst", OF codec_u128],
    rule codec_then [where sel = "fh_seed \<circ> fst", OF codec_u64],
    rule codec_then [where sel = "fh_start_wall_time_ns \<circ> fst", OF codec_u64],
    rule codec_then [where sel = "length \<circ> fh_instruments \<circ> fst", OF codec_u16], rule codec_check, rule codec_check,
    rule codec_then [where sel = "fh_instruments \<circ> fst", OF codec_instruments [of "[]"]])
    apply (simp add: table_ok_def)
    apply (rule codec_then [where sel = "\<lambda>w. crc (take (snd w - 4) bs)", OF codec_u32], rule codec_check, rule codec_ok)
  by (auto simp: header_eq header_ok_def header_length_def header_body_def wire_constants)

lemma length_header_body: "header_ok h \<Longrightarrow> length (header_body h) = header_length h - 4"
  by (simp add: header_body_def header_length_def header_ok_def length_table wire_magic_def)

lemma header_format:
  assumes crc: "\<And>bs. crc bs < 2 ^ 32"
  shows "wire_format (header_bytes crc) (decode_header crc) header_ok"
proof
  fix h behind
  let ?bs = "header_bytes crc h @ behind" and ?n = "header_length h"
  assume ok: "header_ok h" and len: "length ?bs < 2 ^ 64"
  have n: "length (header_bytes crc h) = ?n"
    by (simp add: header_bytes_def length_header_body [OF ok]) (simp add: header_length_def)
  have content: "take (?n - 4) ?bs = header_body h"
    using length_header_body [OF ok] by (simp add: header_bytes_def)
  have "read_header crc ?bs (reader_new ?bs) = Inr ((h, ?n), \<lparr>rd_bytes = ?bs, rd_offset = ?n\<rparr>)"
    unfolding codec_new [OF codec_header len]
    using ok crc content n by (auto simp: header_bytes_def length_header_body [OF ok])
  then show "decode_header crc ?bs = Inr (h, length (header_bytes crc h))" by (simp add: decode_header_def n)
next
  fix bs h n
  assume len: "length bs < 2 ^ 64" and "decode_header crc bs = Inr (h, n)"
  then obtain r where "read_header crc bs (reader_new bs) = Inr ((h, n), r)"
    unfolding decode_header_def by (cases "read_header crc bs (reader_new bs)") auto
  then obtain behind where ok: "header_ok h" "n = header_length h"
    and bs: "bs = header_body h @ le_bytes 4 (crc (take (n - 4) bs)) @ behind"
    unfolding codec_new [OF codec_header len] by auto
  have "take (n - 4) bs = header_body h"
    using length_header_body [OF ok(1)] ok(2) by (subst bs) simp
  with bs have "bs = header_bytes crc h @ behind" by (simp add: header_bytes_def)
  moreover have "length (header_bytes crc h) = n"
    by (simp add: header_bytes_def length_header_body [OF ok(1)] ok(2)) (simp add: header_length_def)
  ultimately show "header_ok h \<and> (\<exists>behind. bs = header_bytes crc h @ behind) \<and> n = length (header_bytes crc h)"
    using ok(1) by blast
qed

section \<open>Payloads\<close>

lemma codec_request_kind: "codec (read_enum request_kind_from_wire) (\<lambda>x. le_bytes 1 (request_kind_wire x)) (\<lambda>_. True)"
proof (rule codec_enum)
  show "request_kind_from_wire v = Some x \<longleftrightarrow> request_kind_wire x = v" for v x
    by (cases x) (auto simp: request_kind_from_wire_def)
  show "request_kind_wire x < 2 ^ 8" for x by (cases x) simp_all
qed

lemma codec_level:
  "codec read_level (\<lambda>(sd, p, q). level_bytes sd p q) (\<lambda>(sd, p, q). in_signed 64 p \<and> q < 2 ^ 64)"
  unfolding read_level_def
  by (rule codec_cong, rule codec_then [where sel = fst, OF codec_side],
      rule codec_then [where sel = "fst \<circ> snd", OF codec_i64], rule codec_then [where sel = "snd \<circ> snd", OF codec_u64],
      rule codec_ok) (auto simp: level_bytes_def)

lemma request_eq:
  fixes t :: order_request
  shows
    "t = \<lparr>rq_kind = x0, rq_account = x1, rq_instrument = x2, rq_request_id = x3,
     rq_client_seq = x4, rq_client_order_id = x5, rq_target_client_order_id = x6, rq_side = x7,
     rq_order_type = x8, rq_price = x9, rq_quantity = x10\<rparr> \<longleftrightarrow> rq_kind t =
     x0 \<and> rq_account t = x1 \<and> rq_instrument t = x2 \<and> rq_request_id t = x3 \<and>
     rq_client_seq t = x4 \<and> rq_client_order_id t = x5 \<and> rq_target_client_order_id t = x6
     \<and> rq_side t = x7 \<and> rq_order_type t = x8 \<and> rq_price t = x9 \<and> rq_quantity t =
     x10"
  by (cases t) auto

lemma codec_request: "codec (read_request i) request_bytes (\<lambda>rq. request_fits rq \<and> rq_instrument rq = i)"
  unfolding read_request_def
  by (rule codec_cong,
    rule codec_then [where sel = rq_kind, OF codec_request_kind], rule codec_then [where sel = rq_side, OF codec_side],
    rule codec_then [where sel = rq_order_type, OF codec_order_type], rule codec_then [where sel = rq_account, OF codec_u32],
    rule codec_then [where sel = rq_client_order_id, OF codec_u64], rule codec_then [where sel = rq_target_client_order_id, OF codec_u64],
    rule codec_then [where sel = rq_request_id, OF codec_u64], rule codec_then [where sel = rq_client_seq, OF codec_u64],
    rule codec_then [where sel = rq_price, OF codec_i64], rule codec_then [where sel = rq_quantity, OF codec_u64], rule codec_ok)
    (auto simp: request_bytes_def request_fits_def request_eq)

lemma codec_snapshot_end:
  "codec (read_then read_u64 (\<lambda>n. read_then read_u32 (\<lambda>count. read_then read_u32 (\<lambda>state_crc.
     read_ok (FbSnapshotEnd n count state_crc))))) encode_payload
     (\<lambda>b. message_type b = 3 \<and> body_fits i b)"
  by (rule codec_cong,
      rule codec_then [where sel = "\<lambda>b. case b of FbSnapshotEnd n _ _ \<Rightarrow> n | _ \<Rightarrow> 0", OF codec_u64],
      rule codec_then [where sel = "\<lambda>b. case b of FbSnapshotEnd _ n _ \<Rightarrow> n | _ \<Rightarrow> 0", OF codec_u32],
      rule codec_then [where sel = "\<lambda>b. case b of FbSnapshotEnd _ _ n \<Rightarrow> n | _ \<Rightarrow> 0", OF codec_u32],
      rule codec_ok)
    (auto split: frame_body.splits)

lemma codec_market_trade:
  "codec (read_then read_level (\<lambda>(aggressor, price, quantity).
     if quantity = 0 then read_fail else read_ok (FbMarketTrade aggressor price quantity))) encode_payload
     (\<lambda>b. message_type b = 5 \<and> body_fits i b)"
proof (rule codec_cong [OF codec_then [OF codec_level, where sel = "\<lambda>b. case b of FbMarketTrade s p q \<Rightarrow> (s, p, q)"
      and e' = "\<lambda>_. []" and W = "\<lambda>(s, p, q) b. q \<noteq> 0 \<and> b = FbMarketTrade s p q"]])
  fix x :: "side \<times> price_ticks \<times> quantity_lots"
  obtain s p q where x: "x = (s, p, q)" by (cases x)
  show "codec (case x of (aggressor, price, quantity) \<Rightarrow>
      if quantity = 0 then read_fail else read_ok (FbMarketTrade aggressor price quantity)) (\<lambda>_. [])
      ((\<lambda>(s, p, q) b. q \<noteq> 0 \<and> b = FbMarketTrade s p q) x)"
    using codec_fail codec_ok by (cases "q = 0") (simp_all add: x)
qed (auto split: frame_body.splits)

lemma codec_level_body:
  assumes "\<And>s p q. unmk (mk s p q) = (s, p, q)" "\<And>s p q. message_type (mk s p q) = ty"
    "\<And>s p q. encode_payload (mk s p q) = level_bytes s p q"
    "\<And>s p q. body_fits i (mk s p q) \<longleftrightarrow> in_signed 64 p \<and> q < 2 ^ 64"
    "\<And>b. message_type b = ty \<Longrightarrow> \<exists>s p q. b = mk s p q"
  shows "codec (read_map (\<lambda>(s, p, q). mk s p q) read_level) encode_payload (\<lambda>b. message_type b = ty \<and> body_fits i b)"
proof (rule codec_cong [OF codec_map [OF codec_level, where g = unmk]])
  show "unmk ((\<lambda>(s, p, q). mk s p q) x) = x" for x by (cases x) (simp add: assms(1))
  show "message_type b = ty \<and> body_fits i b \<longleftrightarrow>
      (case unmk b of (s, p, q) \<Rightarrow> in_signed 64 p \<and> q < 2 ^ 64) \<and> b = (case unmk b of (s, p, q) \<Rightarrow> mk s p q)" for b
    using assms by (metis (no_types, lifting) case_prod_conv surj_pair)
  show "encode_payload b = (case unmk b of (s, p, q) \<Rightarrow> level_bytes s p q)"
    if "(case unmk b of (s, p, q) \<Rightarrow> in_signed 64 p \<and> q < 2 ^ 64) \<and> b = (case unmk b of (s, p, q) \<Rightarrow> mk s p q)" for b
    using that assms(1,3) by (cases "unmk b") simp
qed

lemma message_type_small: "message_type b < 256"
  by (cases b) simp_all

lemma codec_payload:
  "codec (decode_payload ty i) encode_payload (\<lambda>b. message_type b = ty \<and> body_fits i b)"
proof -
  have 1: "codec (read_map FbSnapshotBegin read_u64) encode_payload (\<lambda>b. message_type b = 1 \<and> body_fits i b)"
    by (rule codec_cong [OF codec_map [OF codec_u64, where g = "\<lambda>b. case b of FbSnapshotBegin n \<Rightarrow> n"]])
      (auto split: frame_body.splits)
  have 2: "codec (read_map (\<lambda>(sd, price, quantity). FbSnapshotLevel sd price quantity) read_level) encode_payload
      (\<lambda>b. message_type b = 2 \<and> body_fits i b)"
    by (rule codec_level_body [where unmk = "\<lambda>b. case b of FbSnapshotLevel s p q \<Rightarrow> (s, p, q)"])
      (auto elim: message_type.elims)
  have 4: "codec (read_map (\<lambda>(sd, price, quantity). FbLevelSet sd price quantity) read_level) encode_payload
      (\<lambda>b. message_type b = 4 \<and> body_fits i b)"
    by (rule codec_level_body [where unmk = "\<lambda>b. case b of FbLevelSet s p q \<Rightarrow> (s, p, q)"])
      (auto elim: message_type.elims)
  have 6: "codec (read_ok FbHeartbeat) encode_payload (\<lambda>b. message_type b = 6 \<and> body_fits i b)"
    by (rule codec_cong [OF codec_ok]) (auto elim: message_type.elims)
  have 7: "codec (read_map FbFeedReset read_u64) encode_payload (\<lambda>b. message_type b = 7 \<and> body_fits i b)"
    by (rule codec_cong [OF codec_map [OF codec_u64, where g = "\<lambda>b. case b of FbFeedReset n \<Rightarrow> n"]])
      (auto split: frame_body.splits)
  have 8: "codec (read_map FbOrderRequest (read_request i)) encode_payload (\<lambda>b. message_type b = 8 \<and> body_fits i b)"
    by (rule codec_cong [OF codec_map [OF codec_request, where g = "\<lambda>b. case b of FbOrderRequest rq \<Rightarrow> rq"]])
      (auto split: frame_body.splits)
  have other: "message_type b \<in> {1, 2, 3, 4, 5, 6, 7, 8}" for b by (cases b) simp_all
  show ?thesis
  proof (cases "ty \<in> {1, 2, 3, 4, 5, 6, 7, 8}")
    case True
    then show ?thesis
      using 1 2 codec_snapshot_end 4 codec_market_trade 6 7 8 by (auto simp: decode_payload_def)
  next
    case False
    then have "decode_payload ty i = (\<lambda>r. read_error UnknownMessageType (rd_offset r) r)"
      by (auto simp: decode_payload_def)
    moreover have "message_type b \<noteq> ty" for b using False other [of b] by metis
    ultimately show ?thesis by (auto intro: codec_cong [OF codec_error(1)])
  qed
qed

section \<open>Frames as a format\<close>

lemma codec_tagged: "codec p e V \<Longrightarrow> codec (read_tagged n p) e V"
proof -
  have "read_tagged n p r = Inr x \<longleftrightarrow> p r = Inr x" for r x by (simp add: read_tagged_def split: sum.split)
  then show "codec p e V \<Longrightarrow> codec (read_tagged n p) e V" by (simp add: codec_def)
qed

lemma frame_eq:
  fixes t :: frame
  shows
    "t = \<lparr>fr_source_seq = x0, fr_source_time_ns = x1, fr_recv_time_ns = x2, fr_instrument =
     x3, fr_body = x4\<rparr> \<longleftrightarrow> fr_source_seq t = x0 \<and> fr_source_time_ns t
     = x1 \<and> fr_recv_time_ns t = x2 \<and> fr_instrument t = x3 \<and> fr_body t = x4"
  by (cases t) auto

lemma codec_frame: "codec read_frame frame_fields frame_ok"
  unfolding read_frame_def
  by (rule codec_cong,
    rule codec_then [where sel = "message_type \<circ> fr_body", OF codec_u8],
    rule codec_then [where sel = "\<lambda>_. 0", OF codec_u8], rule codec_check,
    rule codec_then [where sel = "\<lambda>_. schema_version", OF codec_u16], rule codec_check,
    rule codec_then [where sel = fr_source_seq, OF codec_u64],
    rule codec_then [where sel = fr_source_time_ns, OF codec_u64],
    rule codec_then [where sel = fr_recv_time_ns, OF codec_u64],
    rule codec_then [where sel = fr_instrument, OF codec_u32],
    rule codec_then [where sel = fr_body, OF codec_tagged [OF codec_payload]], rule codec_ok)
    (auto simp: frame_eq frame_fields_def frame_ok_def schema_version_def message_type_small)

lemma length_payload: "length (encode_payload b) \<le> 55"
  by (cases b) (simp_all add: level_bytes_def request_bytes_def)

lemma length_frame_content: "length (frame_content f) = 4 + length (frame_fields f)"
  by (simp add: frame_content_def)

lemma length_frame_fields: "32 \<le> length (frame_fields f) \<and> length (frame_fields f) \<le> 87"
  using length_payload [of "fr_body f"] by (simp add: frame_fields_def)

lemma length_frame_bytes: "length (frame_bytes crc f) = 4 + length (frame_fields f) + 4"
  by (simp add: frame_bytes_def length_frame_content)

lemma decode_content:
  assumes "length content < 2 ^ 64" "4 \<le> length content"
  shows "read_then (reader_skip 4) (\<lambda>_. read_frame) (reader_new content) = Inr (f, r) \<longleftrightarrow>
    frame_ok f \<and> (\<exists>behind. drop 4 content = frame_fields f @ behind) \<and>
    r = \<lparr>rd_bytes = content, rd_offset = 4 + length (frame_fields f)\<rparr>"
proof -
  let ?r = "\<lparr>rd_bytes = content, rd_offset = 4\<rparr>"
  have "reader_skip 4 (reader_new content) = Inr ((), ?r)"
    using assms by (simp add: reader_skip_def read_map_def read_then_def read_ok_def reader_take_def reader_new_def
        checked_add_def)
  then have "read_then (reader_skip 4) (\<lambda>_. read_frame) (reader_new content) = read_frame ?r"
    by (simp add: read_then_def)
  moreover have "rd_wf ?r" using assms by (simp add: rd_wf_def)
  ultimately show ?thesis
    using codecD [OF codec_frame, of ?r f r] by (simp add: rd_rest_def)
qed

lemma frame_prefix:
  assumes "bs = frame_bytes crc f @ behind"
  defines "n \<equiv> length (frame_bytes crc f)"
  shows "le_value (take 4 bs) = n" "take (n - 4) bs = frame_content f"
    "take 4 (drop (n - 4) bs) = le_bytes 4 (crc (frame_content f))" "40 \<le> n" "n \<le> max_frame_len" "n \<le> length bs"
proof -
  have small: "n < 256 ^ 4" "40 \<le> n" "n \<le> max_frame_len"
    using length_frame_fields [of f] by (simp_all add: n_def length_frame_bytes max_frame_len_def)
  have n: "n = length (frame_content f) + 4" by (simp add: n_def length_frame_bytes length_frame_content)
  have first: "take 4 bs = le_bytes 4 n"
    by (simp add: assms(1) frame_bytes_def frame_content_def n_def length_frame_bytes)
  show "le_value (take 4 bs) = n" unfolding first using small by simp
  show "take (n - 4) bs = frame_content f" "take 4 (drop (n - 4) bs) = le_bytes 4 (crc (frame_content f))"
    by (simp_all add: n assms(1) frame_bytes_def)
  show "40 \<le> n" "n \<le> max_frame_len" "n \<le> length bs" using small by (simp_all add: assms(1) n_def)
qed

lemma frame_format:
  assumes crc: "\<And>bs. crc bs < 2 ^ 32"
  shows "wire_format (frame_bytes crc) (decode_frame crc) frame_ok"
proof
  fix f behind
  let ?bs = "frame_bytes crc f @ behind" and ?n = "length (frame_bytes crc f)"
  assume ok: "frame_ok f" and len: "length ?bs < 2 ^ 64"
  note p = frame_prefix [of ?bs crc f behind, OF refl]
  let ?r = "\<lparr>rd_bytes = frame_content f, rd_offset = 4 + length (frame_fields f)\<rparr>"
  have content: "length (frame_content f) < 2 ^ 64" "4 \<le> length (frame_content f)"
    using length_frame_fields [of f] by (simp_all add: length_frame_content)
  have "read_then (reader_skip 4) (\<lambda>_. read_frame) (reader_new (frame_content f)) = Inr (f, ?r)"
    unfolding decode_content [OF content] using ok by (simp add: frame_content_def)
  moreover have "reader_remaining ?r = 0" by (simp add: reader_remaining_def length_frame_content)
  moreover have "crc (frame_content f) mod 256 ^ 4 = crc (frame_content f)" using crc [of "frame_content f"] by simp
  ultimately show "decode_frame crc ?bs = Inr (f, ?n)"
    using p by (simp add: decode_frame_def Let_def)
next
  fix bs f n
  assume len: "length bs < 2 ^ 64" and dec: "decode_frame crc bs = Inr (f, n)"
  define content where "content = take (n - 4) bs"
  have n: "n = le_value (take 4 bs)" "40 \<le> n" "n \<le> length bs"
    and sum: "le_value (take 4 (drop (n - 4) bs)) = crc content"
    and run: "\<exists>r. read_then (reader_skip 4) (\<lambda>_. read_frame) (reader_new content) = Inr (f, r) \<and> reader_remaining r = 0"
    using dec unfolding content_def decode_frame_def Let_def
    by (auto split: if_splits sum.splits)
  have content: "length content < 2 ^ 64" "4 \<le> length content" "length content = n - 4"
    using len n by (simp_all add: content_def)
  obtain behind where ok: "frame_ok f" and fields: "drop 4 content = frame_fields f @ behind"
    and rest: "length content - (4 + length (frame_fields f)) = 0"
    using run unfolding decode_content [OF content(1,2)] by (auto simp: reader_remaining_def)
  have "length content - 4 = length (frame_fields f) + length behind" using arg_cong [OF fields, of length] by simp
  then have "length behind \<le> 0" using rest by linarith
  then have "behind = []" by simp
  then have len_n: "n = 4 + length (frame_fields f) + 4"
    using arg_cong [OF fields, of length] content n(2) by simp
  have "min 4 (n - 4) = 4" using n(2) by simp
  then have "take 4 content = le_bytes 4 n"
    using le_bytes_value [of "take 4 bs"] n by (simp add: content_def)
  then have c: "content = frame_content f"
    using append_take_drop_id [of 4 content] fields \<open>behind = []\<close> len_n by (simp add: frame_content_def)
  have "take 4 (drop (n - 4) bs) = le_bytes 4 (crc (frame_content f))"
    using le_bytes_value [of "take 4 (drop (n - 4) bs)"] sum n by (simp add: c)
  then have "take n bs = frame_bytes crc f"
    using take_add [of "n - 4" 4 bs] n(2) c by (simp add: frame_bytes_def content_def)
  then show "frame_ok f \<and> (\<exists>behind. bs = frame_bytes crc f @ behind) \<and> n = length (frame_bytes crc f)"
    using ok len_n append_take_drop_id [of n bs] by (metis length_frame_bytes)
qed

end
