(* ===== verification/Wire_Properties.thy ===== *)
theory Wire_Properties
  imports Codec
begin

text \<open>
  The properties of the binary formats: the canonical output encoding, the feed frames and the file
  header.  The checksum is a parameter; the witnesses instantiate it with the sum of the bytes.
\<close>

section \<open>A checksum for the witnesses\<close>

definition byte_sum :: "byte list \<Rightarrow> nat" where
  "byte_sum bs = unat (sum_list (map (\<lambda>b. of_nat (unat b) :: 32 word) bs))"

lemma byte_sum_bound: "byte_sum bs < 2 ^ 32"
  unfolding byte_sum_def using unsigned_less [of "sum_list (map (\<lambda>b. of_nat (unat b) :: 32 word) bs)"] by simp

lemma sum_list_replace:
  "i < length xs \<Longrightarrow> sum_list (xs[i := x]) = sum_list xs - xs ! i + (x :: 'a :: ab_group_add)"
  by (induction xs arbitrary: i) (auto simp: algebra_simps split: nat.splits)

lemma byte_as_word: "(of_nat (unat (b :: byte)) :: 32 word) = of_nat (unat c) \<longleftrightarrow> b = c"
proof
  have "unat b < 2 ^ LENGTH(8)" for b :: byte by (rule unsigned_less)
  then have fits: "unat (of_nat (unat b) :: 32 word) = unat b" for b :: byte
    using order_less_trans [of "unat b" 256 "2 ^ 32"] by (simp add: unat_of_nat take_bit_eq_mod del: of_nat_unat)
  assume "(of_nat (unat b) :: 32 word) = of_nat (unat c)"
  then show "b = c" using fits [of b] fits [of c] by (metis unsigned_word_eqI)
qed simp

lemma byte_sum_detects:
  assumes "i < length bs" "b \<noteq> bs ! i"
  shows "byte_sum (bs[i := b]) \<noteq> byte_sum bs"
proof
  let ?w = "\<lambda>b :: byte. of_nat (unat b) :: 32 word"
  assume "byte_sum (bs[i := b]) = byte_sum bs"
  then have "sum_list (map ?w (bs[i := b])) = sum_list (map ?w bs)"
    unfolding byte_sum_def by (rule unsigned_word_eqI)
  then have "?w b = ?w (bs ! i)"
    using assms(1) by (simp add: map_update sum_list_replace algebra_simps del: of_nat_unat)
  then show False using assms(2) by (simp only: byte_as_word)
qed

section \<open>Canonical output encoding\<close>

lemma output_bytes_nonempty: "output_bytes ev \<noteq> []"
  using length_le_bytes [of 1 "output_tag ev"] by (auto simp: output_bytes_def simp del: length_le_bytes)

text \<open>C31. Every output event whose fields are in the range of their types is decoded back from its
  encoding, whatever bytes follow it, and the decoder reports exactly the length of the encoding.\<close>

theorem output_round_trip:
  assumes "output_fits ev" "length (encode_output ev [] @ behind) < 2 ^ 64"
  shows "decode_output (encode_output ev [] @ behind) = Inr (ev, length (encode_output ev []))"
  using canonical.round_trip [of ev behind] assms by (simp add: encode_output_def)

theorem output_round_trip_witness:
  "decode_output (encode_output (OutState \<lparr>se_output_seq = 7, se_engine_seq = 3, se_engine_time_ns = 9,
      se_event = AccountEnabledChanged 4 True\<rparr>) [] @ [1, 2]) =
    Inr (OutState \<lparr>se_output_seq = 7, se_engine_seq = 3, se_engine_time_ns = 9,
      se_event = AccountEnabledChanged 4 True\<rparr>, 31)"
  using output_round_trip [of "OutState \<lparr>se_output_seq = 7, se_engine_seq = 3, se_engine_time_ns = 9,
      se_event = AccountEnabledChanged 4 True\<rparr>" "[1, 2]"]
  by (simp add: state_fits_def encode_output_def output_bytes_def state_bytes_def state_event_bytes_def)

text \<open>C32. The decoder accepts nothing but canonical encodings: what it accepts begins with the encoding of
  the event it returns, all fields of which are in range, and the consumed length is that of the encoding.\<close>

theorem output_decode_canonical:
  assumes "length bs < 2 ^ 64" "decode_output bs = Inr (ev, n)"
  shows "output_fits ev \<and> n \<le> length bs \<and> take n bs = encode_output ev []"
  using canonical.canonical [OF assms] by (auto simp: encode_output_def)

theorem output_decode_canonical_witness:
  "let ev = OutState \<lparr>se_output_seq = 7, se_engine_seq = 3, se_engine_time_ns = 9, se_event = KillSwitchReleased\<rparr>;
       bs = output_bytes ev @ [255]
   in decode_output bs = Inr (ev, 26) \<and> output_fits ev \<and> take 26 bs = encode_output ev []"
proof -
  define ev where "ev = OutState \<lparr>se_output_seq = 7, se_engine_seq = 3, se_engine_time_ns = 9,
      se_event = KillSwitchReleased\<rparr>"
  have len: "length (output_bytes ev) = 26"
    by (simp add: ev_def output_bytes_def state_bytes_def state_event_bytes_def)
  have "decode_output (output_bytes ev @ [255]) = Inr (ev, 26)"
    using canonical.round_trip [of ev "[255]"] len by (simp add: ev_def state_fits_def)
  with output_decode_canonical [OF _ this] len show ?thesis unfolding Let_def ev_def [symmetric] by simp
qed

text \<open>C33. The output stream determines its bytes and its bytes determine it: two streams of events with
  the same concatenated encodings are the same stream, so the bytes fed to the output digest
  identify the run.\<close>

theorem output_stream_injective:
  assumes "list_all output_fits xs" "list_all output_fits ys" "length (concat (map output_bytes xs)) < 2 ^ 64"
    "concat (map output_bytes xs) = concat (map output_bytes ys)"
  shows "xs = ys"
  using canonical.stream_inj [OF output_bytes_nonempty assms] .

theorem output_stream_injective_witness:
  "\<exists>x y :: output_event. concat (map output_bytes [x, y]) \<noteq> concat (map output_bytes [y, x])"
proof -
  define x where "x = OutState \<lparr>se_output_seq = 7, se_engine_seq = 3, se_engine_time_ns = 9, se_event = KillSwitchReleased\<rparr>"
  define y where "y = OutState \<lparr>se_output_seq = 8, se_engine_seq = 3, se_engine_time_ns = 9, se_event = KillSwitchReleased\<rparr>"
  have "x \<noteq> y" by (simp add: x_def y_def)
  moreover have "output_fits x" "output_fits y" by (simp_all add: x_def y_def state_fits_def)
  moreover have "length (concat (map output_bytes [x, y])) < 2 ^ 64"
    by (simp add: x_def y_def output_bytes_def state_bytes_def state_event_bytes_def)
  ultimately have "concat (map output_bytes [x, y]) \<noteq> concat (map output_bytes [y, x])"
    using output_stream_injective [of "[x, y]" "[y, x]"] by auto
  then show ?thesis by blast
qed

section \<open>Feed frames\<close>

text \<open>C9. Every frame whose fields are in range is decoded back from its encoding, whatever follows it,
  and the consumed length is that of the encoding.\<close>

theorem frame_round_trip:
  assumes "\<And>bs. crc bs < 2 ^ 32" "frame_ok f" "length (encode_frame crc f [] @ behind) < 2 ^ 64"
  shows "decode_frame crc (encode_frame crc f [] @ behind) = Inr (f, length (encode_frame crc f []))"
  using wire_format.round_trip [OF frame_format [of crc, OF assms(1)] assms(2), of behind] assms(3)
  by (simp add: encode_frame_def)

theorem frame_round_trip_witness:
  "decode_frame byte_sum (encode_frame byte_sum \<lparr>fr_source_seq = 5, fr_source_time_ns = 6, fr_recv_time_ns = 7,
      fr_instrument = 1, fr_body = FbLevelSet Buy (-3) 250\<rparr> [] @ [0]) =
    Inr (\<lparr>fr_source_seq = 5, fr_source_time_ns = 6, fr_recv_time_ns = 7, fr_instrument = 1,
      fr_body = FbLevelSet Buy (-3) 250\<rparr>, 57)"
  using frame_round_trip [of byte_sum "\<lparr>fr_source_seq = 5, fr_source_time_ns = 6, fr_recv_time_ns = 7,
      fr_instrument = 1, fr_body = FbLevelSet Buy (-3) 250\<rparr>" "[0]", OF byte_sum_bound]
  by (simp add: frame_ok_def in_signed_def encode_frame_def length_frame_bytes frame_fields_def level_bytes_def)

text \<open>C28. The decoder accepts nothing but canonical frames: the consumed bytes are the encoding of the frame
  it returns, whose fields are in range, and their number lies between 40 and 4096 and within the input.\<close>

theorem frame_decode_canonical:
  assumes "\<And>bs. crc bs < 2 ^ 32" "length bs < 2 ^ 64" "decode_frame crc bs = Inr (f, n)"
  shows "frame_ok f \<and> 40 \<le> n \<and> n \<le> 4096 \<and> n \<le> length bs \<and> take n bs = encode_frame crc f []"
proof -
  from wire_format.canonical [OF frame_format [of crc, OF assms(1)] assms(2,3)]
  obtain behind where f: "frame_ok f" "bs = frame_bytes crc f @ behind" "n = length (frame_bytes crc f)" by blast
  then show ?thesis
    using frame_prefix(4,5) [OF f(2)] by (simp add: encode_frame_def max_frame_len_def)
qed

theorem frame_decode_canonical_witness:
  "let f = \<lparr>fr_source_seq = 5, fr_source_time_ns = 6, fr_recv_time_ns = 7, fr_instrument = 2, fr_body = FbHeartbeat\<rparr>;
       bs = frame_bytes byte_sum f @ [99]
   in decode_frame byte_sum bs = Inr (f, 40) \<and> frame_ok f \<and> take 40 bs = encode_frame byte_sum f []"
proof -
  define f where "f = \<lparr>fr_source_seq = 5, fr_source_time_ns = 6, fr_recv_time_ns = 7, fr_instrument = 2,
      fr_body = FbHeartbeat\<rparr>"
  have len: "length (frame_bytes byte_sum f) = 40" by (simp add: f_def length_frame_bytes frame_fields_def)
  have ok: "frame_ok f" by (simp add: f_def frame_ok_def)
  have "decode_frame byte_sum (frame_bytes byte_sum f @ [99]) = Inr (f, 40)"
    using wire_format.round_trip [OF frame_format [of byte_sum, OF byte_sum_bound] ok, of "[99]"] len by simp
  with frame_decode_canonical [of byte_sum, OF byte_sum_bound _ this] len show ?thesis
    unfolding Let_def f_def [symmetric] by simp
qed

text \<open>C30. A frame cut short at any byte is reported as truncated at its start, never as damaged, so a reader
  can wait for the rest.\<close>

theorem frame_truncated:
  assumes "n < length (frame_bytes crc f)"
  shows "decode_frame crc (take n (frame_bytes crc f)) = Inl (decode_error_new Truncated 0)"
proof (cases "n < 4")
  case True
  then show ?thesis by (simp add: decode_frame_def min_def)
next
  case False
  note p = frame_prefix [of "frame_bytes crc f @ []" crc f "[]", OF refl]
  have "take 4 (take n (frame_bytes crc f)) = take 4 (frame_bytes crc f)" using False by (simp add: min_def)
  then show ?thesis
    using p assms False by (simp add: decode_frame_def Let_def)
qed

theorem frame_truncated_witness:
  "decode_frame byte_sum (take 39 (frame_bytes byte_sum \<lparr>fr_source_seq = 5, fr_source_time_ns = 6,
      fr_recv_time_ns = 7, fr_instrument = 2, fr_body = FbHeartbeat\<rparr>)) = Inl (decode_error_new Truncated 0)"
  by (rule frame_truncated) (simp add: length_frame_bytes frame_fields_def)

text \<open>C29. A single damaged byte anywhere behind the length field is always detected: with a checksum that tells
  two inputs apart that differ in one byte, the decoder reports a checksum error at the stored checksum.\<close>

theorem frame_corrupted:
  assumes crc: "\<And>bs. crc bs < 2 ^ 32"
    and detects: "\<And>bs i b. i < length bs \<Longrightarrow> b \<noteq> bs ! i \<Longrightarrow> crc (bs[i := b]) \<noteq> crc bs"
    and i: "4 \<le> i" "i < length (frame_bytes crc f)" "b \<noteq> frame_bytes crc f ! i"
  shows "decode_frame crc ((frame_bytes crc f)[i := b] @ behind) =
    Inl (decode_error_new Checksum (length (frame_bytes crc f) - 4))"
proof -
  let ?n = "length (frame_bytes crc f)" and ?bs = "(frame_bytes crc f)[i := b] @ behind"
  let ?stored = "le_bytes 4 (crc (frame_content f))" and ?m = "length (frame_content f)"
  note p = frame_prefix [of "frame_bytes crc f @ []" crc f "[]", OF refl]
  have n: "?n = ?m + 4" by (simp add: frame_bytes_def)
  have first: "le_value (take 4 ?bs) = ?n" using p(1,4,6) i(1) by (simp add: take_update_swap list_update_beyond)
  have split: "?bs = (if i < ?m then (frame_content f)[i := b] @ ?stored @ behind
      else frame_content f @ ?stored[i - ?m := b] @ behind)"
    by (simp add: frame_bytes_def list_update_append)
  have "le_value (take 4 (drop (?n - 4) ?bs)) \<noteq> crc (take (?n - 4) ?bs)"
  proof (cases "i < ?m")
    case True
    have "crc ((frame_content f)[i := b]) \<noteq> crc (frame_content f)"
      using detects [OF True] i(3) True by (simp add: frame_bytes_def nth_append)
    then show ?thesis unfolding split using True n crc [of "frame_content f"] by simp
  next
    case False
    have len: "length (?stored[i - ?m := b]) = 4" by simp
    have ne: "?stored[i - ?m := b] \<noteq> ?stored"
      using i(2,3) False n by (metis add_diff_inverse_nat frame_bytes_def length_list_update nth_append_length_plus
          nth_list_update_eq length_le_bytes nat_add_left_cancel_less)
    have "le_value (?stored[i - ?m := b]) \<noteq> crc (frame_content f)"
    proof
      assume "le_value (?stored[i - ?m := b]) = crc (frame_content f)"
      then show False using le_bytes_value [of "?stored[i - ?m := b]"] ne by simp
    qed
    then show ?thesis unfolding split using False n by simp
  qed
  then show ?thesis
    using first p(4-6) by (simp add: decode_frame_def Let_def)
qed

theorem frame_corrupted_witness:
  "decode_frame byte_sum ((frame_bytes byte_sum \<lparr>fr_source_seq = 5, fr_source_time_ns = 6, fr_recv_time_ns = 7,
      fr_instrument = 2, fr_body = FbHeartbeat\<rparr>)[8 := 6] @ []) = Inl (decode_error_new Checksum 36)"
proof -
  let ?f = "\<lparr>fr_source_seq = 5, fr_source_time_ns = 6, fr_recv_time_ns = 7, fr_instrument = 2, fr_body = FbHeartbeat\<rparr>"
  have len: "length (frame_bytes byte_sum ?f) = 40" by (simp add: length_frame_bytes frame_fields_def)
  have "frame_bytes byte_sum ?f ! 8 = 5" by code_simp
  then show ?thesis
    using frame_corrupted [of byte_sum 8 ?f 6 "[]", OF byte_sum_bound byte_sum_detects] len by simp
qed

section \<open>The file header\<close>

text \<open>C34. A header with an admissible instrument table is decoded back from its encoding, whatever follows it.\<close>

theorem header_round_trip:
  assumes "\<And>bs. crc bs < 2 ^ 32" "header_ok h" "length (encode_header crc h [] @ behind) < 2 ^ 64"
  shows "decode_header crc (encode_header crc h [] @ behind) = Inr (h, length (encode_header crc h []))"
  using wire_format.round_trip [OF header_format [of crc, OF assms(1)] assms(2), of behind] assms(3)
  by (simp add: encode_header_def)

theorem header_round_trip_witness:
  "decode_header byte_sum (encode_header byte_sum \<lparr>fh_run_id = 1, fh_seed = 2, fh_start_wall_time_ns = 3,
      fh_instruments = [instrument_spec_new 1 [65, 66] 5 10]\<rparr> [] @ [9]) =
    Inr (\<lparr>fh_run_id = 1, fh_seed = 2, fh_start_wall_time_ns = 3,
      fh_instruments = [instrument_spec_new 1 [65, 66] 5 10]\<rparr>, 80)"
  using header_round_trip [of byte_sum "\<lparr>fh_run_id = 1, fh_seed = 2, fh_start_wall_time_ns = 3,
      fh_instruments = [instrument_spec_new 1 [65, 66] 5 10]\<rparr>" "[9]", OF byte_sum_bound]
  by (simp add: header_ok_def table_ok_def instrument_fits_def instrument_spec_new_def in_signed_def wire_constants
      encode_header_def header_bytes_def header_body_def instrument_bytes_def)

text \<open>C35. The header decoder accepts nothing but canonical headers: at most 256 instruments with distinct ids
  and positive tick and lot sizes, and the consumed bytes are the encoding of what is returned.\<close>

theorem header_decode_canonical:
  assumes "\<And>bs. crc bs < 2 ^ 32" "length bs < 2 ^ 64" "decode_header crc bs = Inr (h, n)"
  shows "header_ok h \<and> n \<le> length bs \<and> take n bs = encode_header crc h []"
  using wire_format.canonical [OF header_format [of crc, OF assms(1)] assms(2,3)] by (auto simp: encode_header_def)

theorem header_decode_canonical_witness:
  "let h = \<lparr>fh_run_id = 1, fh_seed = 2, fh_start_wall_time_ns = 3, fh_instruments = []\<rparr>;
       bs = header_bytes byte_sum h @ [99]
   in decode_header byte_sum bs = Inr (h, 50) \<and> header_ok h \<and> take 50 bs = encode_header byte_sum h []"
proof -
  define h where "h = \<lparr>fh_run_id = 1, fh_seed = 2, fh_start_wall_time_ns = 3, fh_instruments = []\<rparr>"
  have len: "length (header_bytes byte_sum h) = 50"
    by (simp add: h_def header_bytes_def header_body_def wire_magic_def)
  have ok: "header_ok h" by (simp add: h_def header_ok_def table_ok_def)
  have "decode_header byte_sum (header_bytes byte_sum h @ [99]) = Inr (h, 50)"
    using wire_format.round_trip [OF header_format [of byte_sum, OF byte_sum_bound] ok, of "[99]"] len by simp
  with header_decode_canonical [of byte_sum, OF byte_sum_bound _ this] len show ?thesis
    unfolding Let_def h_def [symmetric] by simp
qed

end
