(* ===== verification/Settlement.thy ===== *)
theory Settlement
  imports Wire_Reader
begin

text \<open>
  The settlement program on the chain (\<open>adapters/solana/programs/settlement/src/lib.rs\<close>): its account
  data, the account constraints and every instruction handler.  The runtime is a parameter: a record
  \<open>E\<close> of the operations the program calls, the derivation of program addresses, \<open>sha256\<close> and the token
  program; the locales state what is used of them.  A failed instruction leaves no trace, so a handler
  returns either an error or the new state.  Rent and lamports are left out.
\<close>

section \<open>Data\<close>

type_synonym pubkey = "256 word"

definition key_bytes :: "pubkey \<Rightarrow> byte list" where
  "key_bytes k = le_bytes 32 (unat k)"

definition id_bytes :: "128 word \<Rightarrow> byte list" where
  "id_bytes i = le_bytes 16 (unat i)"

definition ascii :: "string \<Rightarrow> byte list" where
  "ascii s = map (\<lambda>c. of_nat (of_char c)) s"

datatype settlement_error =
    ZeroAmount | AccountFrozen | InsufficientCollateral | AmountOverflow | EmptyBatch | BatchTooLarge
  | SelfSettlement | MissingAccount | WrongExchange | DuplicateAccount | AccountNotWritable
  | InvalidCollateralAddress | ManifestMismatch

text \<open>An error of the program, or a rejection by the runtime and its account constraints.\<close>

datatype failure = Program settlement_error | Runtime

record exchange_data =
  ex_authority :: pubkey
  ex_mint :: pubkey
  ex_vault :: pubkey
  ex_bump :: byte
  ex_vault_bump :: byte
  ex_total_collateral :: nat
  ex_settlements :: nat

record collateral_data =
  co_owner :: pubkey
  co_exchange :: pubkey
  co_balance :: nat
  co_frozen :: bool
  co_bump :: byte

record receipt_data =
  rp_exchange :: pubkey
  rp_settlement_id :: "128 word"
  rp_manifest_hash :: pubkey
  rp_leg_count :: nat
  rp_applied_slot :: nat

record leg =
  leg_payer :: nat
  leg_payee :: nat
  leg_amount :: nat

text \<open>The accounts the program owns, told apart by their discriminator.\<close>

datatype program_account =
    ExchangeAccount exchange_data
  | CollateralAccount collateral_data
  | ReceiptAccount receipt_data

type_synonym account_store = "pubkey \<rightharpoonup> program_account"

record 't chain =
  ch_accounts :: account_store
  ch_tokens :: 't

text \<open>The signers of a transaction and the accounts it may write.\<close>

record transaction =
  tx_signed :: "pubkey \<Rightarrow> bool"
  tx_writable :: "pubkey \<Rightarrow> bool"

record 't runtime_ops =
  op_find_address :: "byte list list \<Rightarrow> (pubkey \<times> byte) option"
  op_create_address :: "byte list list \<Rightarrow> byte \<Rightarrow> pubkey option"
  op_sha256 :: "byte list \<Rightarrow> pubkey"
  op_is_mint :: "'t \<Rightarrow> pubkey \<Rightarrow> bool"
  op_token_mint :: "'t \<Rightarrow> pubkey \<Rightarrow> pubkey option"
  op_token_authority :: "'t \<Rightarrow> pubkey \<Rightarrow> pubkey option"
  op_token_frozen :: "'t \<Rightarrow> pubkey \<Rightarrow> bool"
  op_balance :: "'t \<Rightarrow> pubkey \<Rightarrow> nat"
  op_init_token :: "pubkey \<Rightarrow> pubkey \<Rightarrow> pubkey \<Rightarrow> 't \<Rightarrow> 't option"
  op_transfer :: "pubkey \<Rightarrow> pubkey \<Rightarrow> pubkey \<Rightarrow> nat \<Rightarrow> 't \<Rightarrow> 't option"

section \<open>Results\<close>

fun and_then :: "'e + 'a \<Rightarrow> ('a \<Rightarrow> 'e + 'b) \<Rightarrow> 'e + 'b" where
  "and_then (Inl e) f = Inl e"
| "and_then (Inr x) f = f x"

definition require :: "bool \<Rightarrow> settlement_error \<Rightarrow> failure + unit" where
  "require b e = (if b then Inr () else Inl (Program e))"

definition constraint :: "bool \<Rightarrow> failure + unit" where
  "constraint b = (if b then Inr () else Inl Runtime)"

definition or_runtime :: "'a option \<Rightarrow> failure + 'a" where
  "or_runtime x = (case x of None \<Rightarrow> Inl Runtime | Some v \<Rightarrow> Inr v)"

definition or_error :: "'a option \<Rightarrow> settlement_error \<Rightarrow> failure + 'a" where
  "or_error x e = (case x of None \<Rightarrow> Inl (Program e) | Some v \<Rightarrow> Inr v)"

section \<open>Accounts\<close>

definition exchange_at :: "account_store \<Rightarrow> pubkey \<Rightarrow> exchange_data option" where
  "exchange_at m k = (case m k of Some (ExchangeAccount x) \<Rightarrow> Some x | _ \<Rightarrow> None)"

definition collateral_at :: "account_store \<Rightarrow> pubkey \<Rightarrow> collateral_data option" where
  "collateral_at m k = (case m k of Some (CollateralAccount c) \<Rightarrow> Some c | _ \<Rightarrow> None)"

definition exchange_seeds :: "pubkey \<Rightarrow> pubkey \<Rightarrow> byte list list" where
  "exchange_seeds authority mint = [ascii ''exchange'', key_bytes authority, key_bytes mint]"

definition vault_seeds :: "pubkey \<Rightarrow> byte list list" where
  "vault_seeds exchange = [ascii ''vault'', key_bytes exchange]"

definition collateral_seeds :: "pubkey \<Rightarrow> pubkey \<Rightarrow> byte list list" where
  "collateral_seeds exchange owner = [ascii ''collateral'', key_bytes exchange, key_bytes owner]"

definition receipt_seeds :: "pubkey \<Rightarrow> 128 word \<Rightarrow> byte list list" where
  "receipt_seeds exchange settlement_id = [ascii ''receipt'', key_bytes exchange, id_bytes settlement_id]"

section \<open>The manifest\<close>

definition max_legs :: nat where
  "max_legs = 32"

definition manifest_domain :: "byte list" where
  "manifest_domain = ascii ''RLTL-SETTLE-V1  ''"

definition resolved_bytes :: "pubkey \<times> pubkey \<times> nat \<Rightarrow> byte list" where
  "resolved_bytes l = (case l of (payer, payee, amount) \<Rightarrow> key_bytes payer @ key_bytes payee @ le_bytes 8 amount)"

definition manifest_bytes :: "128 word \<Rightarrow> pubkey \<Rightarrow> (pubkey \<times> pubkey \<times> nat) list \<Rightarrow> byte list" where
  "manifest_bytes settlement_id exchange legs =
     manifest_domain @ id_bytes settlement_id @ key_bytes exchange @ le_bytes 2 (length legs) @
     concat (map resolved_bytes legs)"

definition manifest_hash ::
  "'t runtime_ops \<Rightarrow> 128 word \<Rightarrow> pubkey \<Rightarrow> (pubkey \<times> pubkey \<times> nat) list \<Rightarrow> pubkey" where
  "manifest_hash E settlement_id exchange legs = op_sha256 E (manifest_bytes settlement_id exchange legs)"

section \<open>Instructions\<close>

text \<open>The constraint \<open>init\<close> creates the account at its derived address: the address and the payer are writable,
  and it fails when the address holds an account.\<close>

definition initialize_exchange ::
  "'t runtime_ops \<Rightarrow> transaction \<Rightarrow> pubkey \<Rightarrow> pubkey \<Rightarrow> 't chain \<Rightarrow> failure + 't chain" where
  "initialize_exchange E tx authority mint s =
     and_then (constraint (tx_signed tx authority \<and> tx_writable tx authority \<and> op_is_mint E (ch_tokens s) mint)) (\<lambda>_.
     and_then (or_runtime (op_find_address E (exchange_seeds authority mint))) (\<lambda>(exchange, bump).
     and_then (constraint (tx_writable tx exchange \<and> ch_accounts s exchange = None)) (\<lambda>_.
     and_then (or_runtime (op_find_address E (vault_seeds exchange))) (\<lambda>(vault, vault_bump).
     and_then (constraint (tx_writable tx vault \<and> ch_accounts s vault = None)) (\<lambda>_.
     and_then (or_runtime (op_init_token E vault mint vault (ch_tokens s))) (\<lambda>tokens.
     Inr (s\<lparr>ch_tokens := tokens, ch_accounts := (ch_accounts s)(exchange \<mapsto> ExchangeAccount
       \<lparr>ex_authority = authority, ex_mint = mint, ex_vault = vault, ex_bump = bump, ex_vault_bump = vault_bump,
        ex_total_collateral = 0, ex_settlements = 0\<rparr>)\<rparr>)))))))"

definition open_collateral ::
  "'t runtime_ops \<Rightarrow> transaction \<Rightarrow> pubkey \<Rightarrow> pubkey \<Rightarrow> 't chain \<Rightarrow> failure + 't chain" where
  "open_collateral E tx owner exchange s =
     and_then (constraint (tx_signed tx owner \<and> tx_writable tx owner \<and> exchange_at (ch_accounts s) exchange \<noteq> None)) (\<lambda>_.
     and_then (or_runtime (op_find_address E (collateral_seeds exchange owner))) (\<lambda>(collateral, bump).
     and_then (constraint (tx_writable tx collateral \<and> ch_accounts s collateral = None)) (\<lambda>_.
     Inr (s\<lparr>ch_accounts := (ch_accounts s)(collateral \<mapsto> CollateralAccount
       \<lparr>co_owner = owner, co_exchange = exchange, co_balance = 0, co_frozen = False, co_bump = bump\<rparr>)\<rparr>))))"

text \<open>The accounts of a deposit or a withdrawal and their constraints.\<close>

record move_accounts =
  ma_owner :: pubkey
  ma_exchange :: pubkey
  ma_collateral :: pubkey
  ma_mint :: pubkey
  ma_owner_tokens :: pubkey
  ma_vault :: pubkey

definition move_constraints ::
  "'t runtime_ops \<Rightarrow> transaction \<Rightarrow> move_accounts \<Rightarrow> 't chain \<Rightarrow> failure + exchange_data \<times> collateral_data" where
  "move_constraints E tx a s =
     and_then (or_runtime (exchange_at (ch_accounts s) (ma_exchange a))) (\<lambda>x.
     and_then (or_runtime (collateral_at (ch_accounts s) (ma_collateral a))) (\<lambda>c.
     and_then (constraint (tx_signed tx (ma_owner a) \<and>
       list_all (tx_writable tx) [ma_exchange a, ma_collateral a, ma_owner_tokens a, ma_vault a])) (\<lambda>_.
     and_then (constraint (ex_vault x = ma_vault a \<and> ex_mint x = ma_mint a \<and> co_owner c = ma_owner a)) (\<lambda>_.
     and_then (constraint (op_create_address E (collateral_seeds (ma_exchange a) (ma_owner a)) (co_bump c) =
       Some (ma_collateral a))) (\<lambda>_.
     and_then (constraint (op_is_mint E (ch_tokens s) (ma_mint a) \<and>
       op_token_mint E (ch_tokens s) (ma_owner_tokens a) = Some (ma_mint a) \<and>
       op_token_authority E (ch_tokens s) (ma_owner_tokens a) = Some (ma_owner a) \<and>
       op_token_mint E (ch_tokens s) (ma_vault a) \<noteq> None)) (\<lambda>_.
     and_then (constraint (op_create_address E (vault_seeds (ma_exchange a)) (ex_vault_bump x) =
       Some (ma_vault a))) (\<lambda>_.
     Inr (x, c))))))))"

definition write_move ::
  "move_accounts \<Rightarrow> exchange_data \<Rightarrow> collateral_data \<Rightarrow> nat \<Rightarrow> nat \<Rightarrow> 't \<Rightarrow> 't chain \<Rightarrow> 't chain" where
  "write_move a x c balance collateral_total tokens s =
     s\<lparr>ch_tokens := tokens, ch_accounts := (ch_accounts s)
         (ma_collateral a \<mapsto> CollateralAccount (c\<lparr>co_balance := balance\<rparr>),
          ma_exchange a \<mapsto> ExchangeAccount (x\<lparr>ex_total_collateral := collateral_total\<rparr>))\<rparr>"

definition deposit_collateral ::
  "'t runtime_ops \<Rightarrow> transaction \<Rightarrow> move_accounts \<Rightarrow> nat \<Rightarrow> 't chain \<Rightarrow> failure + 't chain" where
  "deposit_collateral E tx a amount s =
     and_then (move_constraints E tx a s) (\<lambda>(x, c).
     and_then (require (0 < amount) ZeroAmount) (\<lambda>_.
     and_then (require (\<not> co_frozen c) AccountFrozen) (\<lambda>_.
     and_then (or_runtime (op_transfer E (ma_owner_tokens a) (ma_vault a) (ma_owner a) amount (ch_tokens s))) (\<lambda>tokens.
     and_then (or_error (checked_add 64 (co_balance c) amount) AmountOverflow) (\<lambda>balance.
     and_then (or_error (checked_add 64 (ex_total_collateral x) amount) AmountOverflow) (\<lambda>collateral_total.
     Inr (write_move a x c balance collateral_total tokens s)))))))"

definition withdraw_collateral ::
  "'t runtime_ops \<Rightarrow> transaction \<Rightarrow> move_accounts \<Rightarrow> nat \<Rightarrow> 't chain \<Rightarrow> failure + 't chain" where
  "withdraw_collateral E tx a amount s =
     and_then (move_constraints E tx a s) (\<lambda>(x, c).
     and_then (require (0 < amount) ZeroAmount) (\<lambda>_.
     and_then (require (\<not> co_frozen c) AccountFrozen) (\<lambda>_.
     and_then (require (amount \<le> co_balance c) InsufficientCollateral) (\<lambda>_.
     and_then (or_runtime (op_transfer E (ma_vault a) (ma_owner_tokens a) (ma_vault a) amount (ch_tokens s))) (\<lambda>tokens.
     and_then (or_error (checked_sub (co_balance c) amount) AmountOverflow) (\<lambda>balance.
     and_then (or_error (checked_sub (ex_total_collateral x) amount) AmountOverflow) (\<lambda>collateral_total.
     Inr (write_move a x c balance collateral_total tokens s))))))))"

definition freeze_account ::
  "'t runtime_ops \<Rightarrow> transaction \<Rightarrow> pubkey \<Rightarrow> pubkey \<Rightarrow> pubkey \<Rightarrow> bool \<Rightarrow> 't chain \<Rightarrow> failure + 't chain" where
  "freeze_account E tx authority exchange collateral frozen s =
     and_then (or_runtime (exchange_at (ch_accounts s) exchange)) (\<lambda>x.
     and_then (or_runtime (collateral_at (ch_accounts s) collateral)) (\<lambda>c.
     and_then (constraint (tx_signed tx authority \<and> tx_writable tx collateral \<and> ex_authority x = authority)) (\<lambda>_.
     and_then (constraint (op_create_address E (collateral_seeds exchange (co_owner c)) (co_bump c) =
       Some collateral)) (\<lambda>_.
     Inr (s\<lparr>ch_accounts := (ch_accounts s)(collateral \<mapsto> CollateralAccount (c\<lparr>co_frozen := frozen\<rparr>))\<rparr>)))))"

section \<open>Settling a batch\<close>

text \<open>The first loop: every supplied account is writable, new, a collateral account of the exchange and at
  its canonical address.\<close>

fun check_accounts ::
  "'t runtime_ops \<Rightarrow> pubkey \<Rightarrow> account_store \<Rightarrow> pubkey list \<Rightarrow> (pubkey \<times> bool) list \<Rightarrow> failure + unit" where
  "check_accounts E exchange m seen [] = Inr ()"
| "check_accounts E exchange m seen ((key, writable) # rest) =
     and_then (require writable AccountNotWritable) (\<lambda>_.
     and_then (require (key \<notin> set seen) DuplicateAccount) (\<lambda>_.
     and_then (or_runtime (collateral_at m key)) (\<lambda>c.
     and_then (require (co_exchange c = exchange) WrongExchange) (\<lambda>_.
     and_then (require (op_create_address E (collateral_seeds exchange (co_owner c)) (co_bump c) = Some key)
       InvalidCollateralAddress) (\<lambda>_.
     check_accounts E exchange m (seen @ [key]) rest)))))"

fun resolve_legs :: "pubkey list \<Rightarrow> leg list \<Rightarrow> failure + (pubkey \<times> pubkey \<times> nat) list" where
  "resolve_legs keys [] = Inr []"
| "resolve_legs keys (l # legs) =
     and_then (require (0 < leg_amount l) ZeroAmount) (\<lambda>_.
     and_then (require (leg_payer l \<noteq> leg_payee l) SelfSettlement) (\<lambda>_.
     and_then (or_error (idx keys (leg_payer l)) MissingAccount) (\<lambda>payer.
     and_then (or_error (idx keys (leg_payee l)) MissingAccount) (\<lambda>payee.
     and_then (require (payer \<noteq> payee) SelfSettlement) (\<lambda>_.
     and_then (resolve_legs keys legs) (\<lambda>rest.
     Inr ((payer, payee, leg_amount l) # rest)))))))"

text \<open>The last loop: both accounts are read afresh for every leg and written back.\<close>

fun apply_legs :: "pubkey list \<Rightarrow> leg list \<Rightarrow> account_store \<Rightarrow> failure + account_store" where
  "apply_legs keys [] m = Inr m"
| "apply_legs keys (l # legs) m =
     and_then (or_error (idx keys (leg_payer l)) MissingAccount) (\<lambda>payer_key.
     and_then (or_error (idx keys (leg_payee l)) MissingAccount) (\<lambda>payee_key.
     and_then (or_runtime (collateral_at m payer_key)) (\<lambda>payer.
     and_then (or_runtime (collateral_at m payee_key)) (\<lambda>payee.
     and_then (require (\<not> co_frozen payer \<and> \<not> co_frozen payee) AccountFrozen) (\<lambda>_.
     and_then (require (leg_amount l \<le> co_balance payer) InsufficientCollateral) (\<lambda>_.
     and_then (or_error (checked_sub (co_balance payer) (leg_amount l)) AmountOverflow) (\<lambda>paid.
     and_then (or_error (checked_add 64 (co_balance payee) (leg_amount l)) AmountOverflow) (\<lambda>received.
     apply_legs keys legs
       (m(payer_key \<mapsto> CollateralAccount (payer\<lparr>co_balance := paid\<rparr>),
          payee_key \<mapsto> CollateralAccount (payee\<lparr>co_balance := received\<rparr>)))))))))))"

definition settle_batch ::
  "'t runtime_ops \<Rightarrow> transaction \<Rightarrow> nat \<Rightarrow> pubkey \<Rightarrow> pubkey \<Rightarrow> pubkey list \<Rightarrow> 128 word \<Rightarrow> pubkey \<Rightarrow> leg list \<Rightarrow>
   't chain \<Rightarrow> failure + 't chain" where
  "settle_batch E tx slot authority exchange keys settlement_id manifest legs s =
     and_then (or_runtime (exchange_at (ch_accounts s) exchange)) (\<lambda>x.
     and_then (constraint (tx_signed tx authority \<and> tx_writable tx authority \<and> tx_writable tx exchange \<and>
       ex_authority x = authority)) (\<lambda>_.
     and_then (or_runtime (op_find_address E (receipt_seeds exchange settlement_id))) (\<lambda>(receipt, bump).
     and_then (constraint (tx_writable tx receipt \<and> ch_accounts s receipt = None)) (\<lambda>_.
     and_then (require (legs \<noteq> []) EmptyBatch) (\<lambda>_.
     and_then (require (length legs \<le> max_legs) BatchTooLarge) (\<lambda>_.
     and_then (check_accounts E exchange (ch_accounts s) [] (map (\<lambda>k. (k, tx_writable tx k)) keys)) (\<lambda>_.
     and_then (resolve_legs keys legs) (\<lambda>resolved.
     and_then (require (manifest_hash E settlement_id exchange resolved = manifest) ManifestMismatch) (\<lambda>_.
     and_then (apply_legs keys legs (ch_accounts s)) (\<lambda>m.
     and_then (or_error (checked_add 64 (ex_settlements x) 1) AmountOverflow) (\<lambda>settlements.
     Inr (s\<lparr>ch_accounts := m
       (receipt \<mapsto> ReceiptAccount
          \<lparr>rp_exchange = exchange, rp_settlement_id = settlement_id, rp_manifest_hash = manifest,
           rp_leg_count = length legs, rp_applied_slot = slot\<rparr>,
        exchange \<mapsto> ExchangeAccount (x\<lparr>ex_settlements := settlements\<rparr>))\<rparr>))))))))))))"

end
