(* ===== verification/Settlement_Inv.thy ===== *)
theory Settlement_Inv
  imports Settlement
begin

text \<open>
  The lemmas on the settlement program: what a successful handler did, the effect of the legs of a batch, the
  transactions as a step relation, the locale of the runtime's laws, the books-in-order invariant kept by every
  transaction, and the injectivity of the manifest.
\<close>

section \<open>Results\<close>

lemma and_then_Inr: "and_then m f = Inr y \<longleftrightarrow> (\<exists>x. m = Inr x \<and> f x = Inr y)"
  by (cases m) auto

lemma result_Inr:
  "require b e = Inr u \<longleftrightarrow> b" "constraint b = Inr u \<longleftrightarrow> b"
  "or_runtime x = Inr v \<longleftrightarrow> x = Some v" "or_error x e = Inr v \<longleftrightarrow> x = Some v"
  by (auto simp: require_def constraint_def or_runtime_def or_error_def split: option.splits)

lemmas success = and_then_Inr result_Inr

lemma exchange_at_Some [simp]: "exchange_at m k = Some x \<longleftrightarrow> m k = Some (ExchangeAccount x)"
  by (auto simp: exchange_at_def split: option.splits program_account.splits)

lemma collateral_at_Some [simp]: "collateral_at m k = Some c \<longleftrightarrow> m k = Some (CollateralAccount c)"
  by (auto simp: collateral_at_def split: option.splits program_account.splits)

section \<open>Balances\<close>

definition held :: "pubkey \<Rightarrow> program_account \<Rightarrow> nat" where
  "held exchange a =
     (case a of CollateralAccount c \<Rightarrow> if co_exchange c = exchange then co_balance c else 0 | _ \<Rightarrow> 0)"

lemma held_simps [simp]:
  "held e (ExchangeAccount x) = 0" "held e (ReceiptAccount r) = 0"
  "held e (CollateralAccount c) = (if co_exchange c = e then co_balance c else 0)"
  by (simp_all add: held_def)

definition balance_of :: "account_store \<Rightarrow> pubkey \<Rightarrow> int" where
  "balance_of m k = (case collateral_at m k of Some c \<Rightarrow> int (co_balance c) | None \<Rightarrow> 0)"

text \<open>What a batch moves into an account.\<close>

definition net_of :: "pubkey list \<Rightarrow> leg list \<Rightarrow> pubkey \<Rightarrow> int" where
  "net_of keys legs k =
     (\<Sum>l \<leftarrow> legs. (if idx keys (leg_payee l) = Some k then int (leg_amount l) else 0) -
        (if idx keys (leg_payer l) = Some k then int (leg_amount l) else 0))"

text \<open>The same accounts with the same owners, up to the balances of collateral accounts.\<close>

definition same_shape :: "account_store \<Rightarrow> account_store \<Rightarrow> bool" where
  "same_shape m m' \<longleftrightarrow>
     (\<forall>k. map_option (\<lambda>a. case a of CollateralAccount c \<Rightarrow> CollateralAccount (c\<lparr>co_balance := 0\<rparr>) | _ \<Rightarrow> a) (m' k) =
        map_option (\<lambda>a. case a of CollateralAccount c \<Rightarrow> CollateralAccount (c\<lparr>co_balance := 0\<rparr>) | _ \<Rightarrow> a) (m k))"

lemma same_shape_refl [simp]: "same_shape m m"
  by (simp add: same_shape_def)

lemma same_shape_trans: "same_shape m m1 \<Longrightarrow> same_shape m1 m2 \<Longrightarrow> same_shape m m2"
  by (simp add: same_shape_def)

lemma same_shape_upd:
  "m k = Some (CollateralAccount c) \<Longrightarrow> same_shape m (m(k \<mapsto> CollateralAccount (c\<lparr>co_balance := n\<rparr>)))"
  by (simp add: same_shape_def)

lemma same_shapeD:
  assumes "same_shape m m'"
  shows "m' k = None \<longleftrightarrow> m k = None" "m' k = Some (ExchangeAccount x) \<longleftrightarrow> m k = Some (ExchangeAccount x)"
    "m' k = Some (ReceiptAccount r) \<longleftrightarrow> m k = Some (ReceiptAccount r)"
    "m' k = Some (CollateralAccount c') \<Longrightarrow> \<exists>c. m k = Some (CollateralAccount c) \<and> co_owner c' = co_owner c \<and>
       co_exchange c' = co_exchange c \<and> co_frozen c' = co_frozen c \<and> co_bump c' = co_bump c"
proof -
  let ?f = "map_option (\<lambda>a. case a of CollateralAccount c \<Rightarrow> CollateralAccount (c\<lparr>co_balance := 0\<rparr>) | _ \<Rightarrow> a)"
  have eq: "?f (m' k) = ?f (m k)" using assms by (simp add: same_shape_def)
  show "m' k = None \<longleftrightarrow> m k = None" using eq by (cases "m k"; cases "m' k") auto
  show "m' k = Some (ExchangeAccount x) \<longleftrightarrow> m k = Some (ExchangeAccount x)"
    "m' k = Some (ReceiptAccount r) \<longleftrightarrow> m k = Some (ReceiptAccount r)"
    using eq by (cases "m k"; cases "m' k"; auto split: program_account.splits)+
  assume "m' k = Some (CollateralAccount c')"
  then obtain c where c: "m k = Some (CollateralAccount c)" "c'\<lparr>co_balance := 0\<rparr> = c\<lparr>co_balance := 0\<rparr>"
    using eq by (cases "m k") (auto split: program_account.splits)
  then show "\<exists>c. m k = Some (CollateralAccount c) \<and> co_owner c' = co_owner c \<and>
       co_exchange c' = co_exchange c \<and> co_frozen c' = co_frozen c \<and> co_bump c' = co_bump c"
    by (cases c; cases c') auto
qed

section \<open>Legs\<close>

text \<open>One leg, as the pair of updates the loop performs.\<close>

lemma leg_effect:
  assumes m: "m p = Some (CollateralAccount payer)" "m q = Some (CollateralAccount payee)" "p \<noteq> q"
    and n: "n \<le> co_balance payer" and fin: "finite (dom m)" and ex: "co_exchange payer = co_exchange payee"
  defines "m' \<equiv> m(p \<mapsto> CollateralAccount (payer\<lparr>co_balance := co_balance payer - n\<rparr>),
      q \<mapsto> CollateralAccount (payee\<lparr>co_balance := co_balance payee + n\<rparr>))"
  shows "same_shape m m'" "msum (held e) m' = msum (held e) m" "finite (dom m')"
    "balance_of m' k = balance_of m k + (if k = q then int n else 0) - (if k = p then int n else 0)"
proof -
  let ?m1 = "m(p \<mapsto> CollateralAccount (payer\<lparr>co_balance := co_balance payer - n\<rparr>))"
  have q: "?m1 q = Some (CollateralAccount payee)" using m by simp
  show "same_shape m m'"
    unfolding m'_def by (rule same_shape_trans [OF same_shape_upd [of m p payer, OF m(1)] same_shape_upd [of ?m1 q payee, OF q]])
  show "finite (dom m')" using fin by (simp add: m'_def)
  have "msum (held e) ?m1 + at_key (held e) (m p) =
      msum (held e) m + held e (CollateralAccount (payer\<lparr>co_balance := co_balance payer - n\<rparr>))"
    using msum_upd [OF fin, of "held e" p] by simp
  moreover have "msum (held e) m' + at_key (held e) (?m1 q) =
      msum (held e) ?m1 + held e (CollateralAccount (payee\<lparr>co_balance := co_balance payee + n\<rparr>))"
    unfolding m'_def using msum_upd [of ?m1 "held e" q] fin by simp
  ultimately show "msum (held e) m' = msum (held e) m"
    using m q ex n by (cases "co_exchange payee = e") simp_all
  show "balance_of m' k = balance_of m k + (if k = q then int n else 0) - (if k = p then int n else 0)"
    using m n by (simp add: balance_of_def collateral_at_def m'_def of_nat_diff)
qed

lemma apply_legs_effect:
  assumes "apply_legs keys legs m = Inr m'" "finite (dom m)" "distinct keys"
    "\<And>l. l \<in> set legs \<Longrightarrow> leg_payer l \<noteq> leg_payee l"
    "\<And>k c. k \<in> set keys \<Longrightarrow> m k = Some (CollateralAccount c) \<Longrightarrow> co_exchange c = exchange"
  shows "same_shape m m' \<and> finite (dom m') \<and> (\<forall>e. msum (held e) m' = msum (held e) m) \<and>
    (\<forall>k. balance_of m' k = balance_of m k + net_of keys legs k)"
  using assms
proof (induction legs arbitrary: m)
  case Nil
  then show ?case by (simp add: net_of_def)
next
  case (Cons l legs)
  obtain payer payee where i: "leg_payer l < length keys" "leg_payee l < length keys"
    and m: "m (keys ! leg_payer l) = Some (CollateralAccount payer)" "m (keys ! leg_payee l) = Some (CollateralAccount payee)"
    and n: "leg_amount l \<le> co_balance payer"
    and rest: "apply_legs keys legs
       (m(keys ! leg_payer l \<mapsto> CollateralAccount (payer\<lparr>co_balance := co_balance payer - leg_amount l\<rparr>),
          keys ! leg_payee l \<mapsto> CollateralAccount (payee\<lparr>co_balance := co_balance payee + leg_amount l\<rparr>))) = Inr m'"
    using Cons.prems(1) by (auto simp: success)
  let ?p = "keys ! leg_payer l" and ?q = "keys ! leg_payee l"
  let ?m1 = "m(?p \<mapsto> CollateralAccount (payer\<lparr>co_balance := co_balance payer - leg_amount l\<rparr>),
      ?q \<mapsto> CollateralAccount (payee\<lparr>co_balance := co_balance payee + leg_amount l\<rparr>))"
  have ne: "?p \<noteq> ?q" using Cons.prems(3) Cons.prems(4) [of l] i by (simp add: nth_eq_iff_index_eq)
  have ex: "co_exchange payer = exchange" "co_exchange payee = exchange"
    using Cons.prems(5) [OF nth_mem [OF i(1)] m(1)] Cons.prems(5) [OF nth_mem [OF i(2)] m(2)] by simp_all
  note eff = leg_effect [OF m ne n Cons.prems(2) ex(1) [folded ex(2)]]
  have "same_shape ?m1 m' \<and> finite (dom m') \<and> (\<forall>e. msum (held e) m' = msum (held e) ?m1) \<and>
      (\<forall>k. balance_of m' k = balance_of ?m1 k + net_of keys legs k)"
  proof (rule Cons.IH [OF rest eff(3) Cons.prems(3)])
    show "leg_payer l' \<noteq> leg_payee l'" if "l' \<in> set legs" for l' using Cons.prems(4) that by simp
    show "co_exchange c = exchange" if k: "k \<in> set keys" "?m1 k = Some (CollateralAccount c)" for k c
      using same_shapeD(4) [OF eff(1) k(2)] Cons.prems(5) [OF k(1)] by auto
  qed
  then show ?case
    using eff i by (auto simp: net_of_def intro: same_shape_trans)
qed

section \<open>Batches\<close>

lemma check_accounts_Inr:
  assumes "check_accounts E exchange m seen infos = Inr u"
  shows "distinct (map fst infos) \<and> set seen \<inter> set (map fst infos) = {} \<and>
    (\<forall>k \<in> set (map fst infos). \<exists>c. m k = Some (CollateralAccount c) \<and> co_exchange c = exchange)"
  using assms
proof (induction infos arbitrary: seen)
  case (Cons info infos)
  obtain key w where "info = (key, w)" by (cases info)
  then show ?case using Cons.prems Cons.IH [of "seen @ [key]"] by (auto simp: success)
qed simp

lemma resolve_legs_Inr:
  "resolve_legs keys legs = Inr resolved \<Longrightarrow> l \<in> set legs \<Longrightarrow>
     0 < leg_amount l \<and> leg_payer l \<noteq> leg_payee l \<and> leg_payer l < length keys \<and> leg_payee l < length keys"
  by (induction legs arbitrary: resolved) (auto simp: success)

text \<open>What a successful batch did.\<close>

lemma settle_batch_Inr:
  assumes "settle_batch E tx slot authority exchange keys settlement_id manifest legs s = Inr s'" "finite (dom (ch_accounts s))"
  obtains x receipt bump resolved m where "ch_accounts s exchange = Some (ExchangeAccount x)"
    "tx_signed tx authority" "ex_authority x = authority"
    "op_find_address E (receipt_seeds exchange settlement_id) = Some (receipt, bump)" "ch_accounts s receipt = None"
    "resolve_legs keys legs = Inr resolved" "manifest_hash E settlement_id exchange resolved = manifest"
    "same_shape (ch_accounts s) m" "finite (dom m)" "\<forall>e. msum (held e) m = msum (held e) (ch_accounts s)"
    "\<forall>k. balance_of m k = balance_of (ch_accounts s) k + net_of keys legs k"
    "s' = s\<lparr>ch_accounts := m(receipt \<mapsto> ReceiptAccount \<lparr>rp_exchange = exchange, rp_settlement_id = settlement_id,
         rp_manifest_hash = manifest, rp_leg_count = length legs, rp_applied_slot = slot\<rparr>,
       exchange \<mapsto> ExchangeAccount (x\<lparr>ex_settlements := ex_settlements x + 1\<rparr>))\<rparr>"
proof -
  obtain x receipt bump u resolved m n where ok: "ch_accounts s exchange = Some (ExchangeAccount x)"
    "tx_signed tx authority" "ex_authority x = authority"
    "op_find_address E (receipt_seeds exchange settlement_id) = Some (receipt, bump)" "ch_accounts s receipt = None"
    "check_accounts E exchange (ch_accounts s) [] (map (\<lambda>k. (k, tx_writable tx k)) keys) = Inr u"
    "resolve_legs keys legs = Inr resolved" "manifest_hash E settlement_id exchange resolved = manifest"
    "apply_legs keys legs (ch_accounts s) = Inr m" "n = ex_settlements x + 1"
    and s': "s\<lparr>ch_accounts := m(receipt \<mapsto> ReceiptAccount \<lparr>rp_exchange = exchange, rp_settlement_id = settlement_id,
         rp_manifest_hash = manifest, rp_leg_count = length legs, rp_applied_slot = slot\<rparr>,
       exchange \<mapsto> ExchangeAccount (x\<lparr>ex_settlements := n\<rparr>))\<rparr> = s'"
    using assms(1) unfolding settle_batch_def success split_paired_Ex prod.case exchange_at_Some sum.inject checked_add_Some
    by (elim exE conjE) (rule that)
  have keys: "distinct keys" "\<And>k c. k \<in> set keys \<Longrightarrow> ch_accounts s k = Some (CollateralAccount c) \<Longrightarrow> co_exchange c = exchange"
    using check_accounts_Inr [OF ok(6)] by (auto simp: o_def)
  have legs: "\<And>l. l \<in> set legs \<Longrightarrow> leg_payer l \<noteq> leg_payee l" using resolve_legs_Inr [OF ok(7)] by blast
  note eff = apply_legs_effect [OF ok(9) assms(2) keys(1) legs keys(2)]
  show ?thesis by (rule that [OF ok(1-5,7,8) _ _ _ _ s' [symmetric, unfolded ok(10)]]) (use eff in simp_all)
qed

lemma net_of_outside: "k \<notin> set keys \<Longrightarrow> net_of keys legs k = 0"
proof (induction legs)
  case (Cons l legs)
  have "idx keys i \<noteq> Some k" for i using Cons.prems by (auto simp: idx_def in_set_conv_nth)
  then show ?case using Cons by (simp add: net_of_def del: idx_Some)
qed (simp add: net_of_def)

section \<open>Transactions\<close>

text \<open>A derived address lies off the curve, so nobody holds a key that could sign for it.\<close>

definition no_derived_signer :: "'t runtime_ops \<Rightarrow> transaction \<Rightarrow> bool" where
  "no_derived_signer E tx \<longleftrightarrow> (\<forall>seeds bump k. op_create_address E seeds bump = Some k \<longrightarrow> \<not> tx_signed tx k)"

text \<open>The program's instructions, and transfers of tokens signed for by their holders.\<close>

inductive settlement_step :: "'t runtime_ops \<Rightarrow> 't chain \<Rightarrow> 't chain \<Rightarrow> bool" for E where
  initialize: "no_derived_signer E tx \<Longrightarrow> initialize_exchange E tx authority mint s = Inr s' \<Longrightarrow> settlement_step E s s'"
| open_account: "no_derived_signer E tx \<Longrightarrow> open_collateral E tx owner exchange s = Inr s' \<Longrightarrow> settlement_step E s s'"
| deposit: "no_derived_signer E tx \<Longrightarrow> deposit_collateral E tx a amount s = Inr s' \<Longrightarrow> settlement_step E s s'"
| withdraw: "no_derived_signer E tx \<Longrightarrow> withdraw_collateral E tx a amount s = Inr s' \<Longrightarrow> settlement_step E s s'"
| freeze: "no_derived_signer E tx \<Longrightarrow> freeze_account E tx authority exchange collateral frozen s = Inr s' \<Longrightarrow>
    settlement_step E s s'"
| settle: "no_derived_signer E tx \<Longrightarrow>
    settle_batch E tx slot authority exchange keys settlement_id manifest legs s = Inr s' \<Longrightarrow> settlement_step E s s'"
| tokens: "no_derived_signer E tx \<Longrightarrow> tx_signed tx holder \<Longrightarrow> op_token_authority E (ch_tokens s) from = Some holder \<Longrightarrow>
    op_transfer E from to holder amount (ch_tokens s) = Some t \<Longrightarrow> settlement_step E s (s\<lparr>ch_tokens := t\<rparr>)"

section \<open>Receipts are permanent\<close>

lemma move_constraints_Inr:
  assumes "move_constraints E tx a s = Inr (x, c)"
  shows "ch_accounts s (ma_exchange a) = Some (ExchangeAccount x)" "ch_accounts s (ma_collateral a) = Some (CollateralAccount c)"
    "tx_signed tx (ma_owner a)" "ex_vault x = ma_vault a" "co_owner c = ma_owner a"
    "op_create_address E (collateral_seeds (ma_exchange a) (ma_owner a)) (co_bump c) = Some (ma_collateral a)"
    "op_token_authority E (ch_tokens s) (ma_owner_tokens a) = Some (ma_owner a)"
    "op_create_address E (vault_seeds (ma_exchange a)) (ex_vault_bump x) = Some (ma_vault a)"
  using assms by (auto simp: move_constraints_def success)

lemma deposit_Inr:
  assumes "deposit_collateral E tx a amount s = Inr s'"
  obtains x c t where "move_constraints E tx a s = Inr (x, c)"
    "op_transfer E (ma_owner_tokens a) (ma_vault a) (ma_owner a) amount (ch_tokens s) = Some t"
    "s' = write_move a x c (co_balance c + amount) (ex_total_collateral x + amount) t s"
  using assms unfolding deposit_collateral_def by (auto simp: success)

lemma withdraw_Inr:
  assumes "withdraw_collateral E tx a amount s = Inr s'"
  obtains x c t where "move_constraints E tx a s = Inr (x, c)" "amount \<le> co_balance c" "amount \<le> ex_total_collateral x"
    "op_transfer E (ma_vault a) (ma_owner_tokens a) (ma_vault a) amount (ch_tokens s) = Some t"
    "s' = write_move a x c (co_balance c - amount) (ex_total_collateral x - amount) t s"
  using assms unfolding withdraw_collateral_def by (auto simp: success)

lemma write_move_receipt:
  assumes "move_constraints E tx a s = Inr (x, c)" "ch_accounts s k = Some (ReceiptAccount r)" "finite (dom (ch_accounts s))"
  shows "ch_accounts (write_move a x c b n t s) k = Some (ReceiptAccount r) \<and>
    finite (dom (ch_accounts (write_move a x c b n t s)))"
  using move_constraints_Inr(1,2) [OF assms(1)] assms(2,3) by (auto simp: write_move_def)

lemma settlement_step_receipt:
  assumes "settlement_step E s s'" "ch_accounts s k = Some (ReceiptAccount r)" "finite (dom (ch_accounts s))"
  shows "ch_accounts s' k = Some (ReceiptAccount r) \<and> finite (dom (ch_accounts s'))"
  using assms
proof (induction rule: settlement_step.induct)
  case (initialize tx authority mint s s')
  then show ?case by (auto simp: initialize_exchange_def success)
next
  case (open_account tx owner exchange s s')
  then show ?case by (auto simp: open_collateral_def success)
next
  case (deposit tx a amount s s')
  then show ?case
    by (elim deposit_Inr) (simp add: write_move_receipt)
next
  case (withdraw tx a amount s s')
  then show ?case
    by (elim withdraw_Inr) (simp add: write_move_receipt)
next
  case (freeze tx authority exchange collateral frozen s s')
  then show ?case by (auto simp: freeze_account_def success)
next
  case (settle tx slot authority exchange keys settlement_id manifest legs s s')
  obtain x receipt m where ok: "ch_accounts s exchange = Some (ExchangeAccount x)" "ch_accounts s receipt = None"
    "same_shape (ch_accounts s) m" "finite (dom m)"
    "s' = s\<lparr>ch_accounts := m(receipt \<mapsto> ReceiptAccount \<lparr>rp_exchange = exchange, rp_settlement_id = settlement_id,
         rp_manifest_hash = manifest, rp_leg_count = length legs, rp_applied_slot = slot\<rparr>,
       exchange \<mapsto> ExchangeAccount (x\<lparr>ex_settlements := ex_settlements x + 1\<rparr>))\<rparr>"
    by (rule settle_batch_Inr [OF settle.hyps(2) settle.prems(2)])
  then show ?case using settle.prems same_shapeD(3) [OF ok(3), of k r] by auto
next
  case (tokens tx holder s "from" "to" amount t)
  then show ?case by simp
qed

section \<open>The runtime\<close>

lemma key_bytes_length [simp]: "length (key_bytes k) = 32"
  by (simp add: key_bytes_def)

lemma key_bytes_eq [simp]: "key_bytes j = key_bytes k \<longleftrightarrow> j = k"
proof
  have "unat j mod 256 ^ 32 = unat j" for j :: pubkey
  proof -
    have "unat j < 2 ^ LENGTH(256)" by (rule unsigned_less)
    then show ?thesis by simp
  qed
  moreover assume "key_bytes j = key_bytes k"
  ultimately show "j = k" by (metis key_bytes_def le_value_bytes unsigned_word_eqI)
qed simp

text \<open>The mints, and the mint and the authority of every token account, are the same in two token states.\<close>

definition same_roles :: "'t runtime_ops \<Rightarrow> 't \<Rightarrow> 't \<Rightarrow> bool" where
  "same_roles E t t' \<longleftrightarrow>
     op_is_mint E t' = op_is_mint E t \<and> op_token_mint E t' = op_token_mint E t \<and>
     op_token_authority E t' = op_token_authority E t"

text \<open>What is used of the runtime: address derivation hashes its seeds without collision; the token program
  creates a token account with its mint and authority where there was none; a transfer moves exactly the
  amount and changes neither a mint nor an authority; and a transfer on the authority of the paying account,
  between token accounts of one mint that are not frozen, covered by the payer and in range for the payee,
  succeeds.\<close>

locale runtime =
  fixes E :: "'t runtime_ops"
  assumes find_creates: "op_find_address E seeds = Some (k, bump) \<Longrightarrow> op_create_address E seeds bump = Some k"
    and address_injective: "op_create_address E seeds bump = Some k \<Longrightarrow> op_create_address E seeds' bump' = Some k \<Longrightarrow>
      concat seeds = concat seeds'"
    and init_token: "op_init_token E k mint authority t = Some t' \<Longrightarrow>
      op_token_authority E t k = None \<and> op_token_authority E t' = (op_token_authority E t)(k \<mapsto> authority) \<and>
      op_token_mint E t' = (op_token_mint E t)(k \<mapsto> mint) \<and> op_is_mint E t' = op_is_mint E t \<and>
      (\<forall>j. j \<noteq> k \<longrightarrow> op_balance E t' j = op_balance E t j)"
    and transfer: "op_transfer E from to authority n t = Some t' \<Longrightarrow>
      same_roles E t t' \<and>
      (from \<noteq> to \<longrightarrow> n \<le> op_balance E t from \<and>
         op_balance E t' = (op_balance E t)(from := op_balance E t from - n, to := op_balance E t to + n)) \<and>
      (from = to \<longrightarrow> op_balance E t' = op_balance E t)"
    and transfer_succeeds: "op_token_authority E t from = Some authority \<Longrightarrow> op_token_mint E t from = Some mint \<Longrightarrow>
      op_token_mint E t to = Some mint \<Longrightarrow> \<not> op_token_frozen E t from \<Longrightarrow> \<not> op_token_frozen E t to \<Longrightarrow> n \<le> op_balance E t from \<Longrightarrow> op_balance E t to + n < 2 ^ 64 \<Longrightarrow>
      \<exists>t'. op_transfer E from to authority n t = Some t'"
begin

lemma collateral_address:
  assumes "op_create_address E (collateral_seeds e o1) b = Some k" "op_create_address E (collateral_seeds e' o2) b' = Some k"
  shows "e = e' \<and> o1 = o2"
  using address_injective [OF assms] by (simp add: collateral_seeds_def)

lemma vault_address:
  assumes "op_create_address E (vault_seeds e) b = Some k" "op_create_address E (vault_seeds e') b' = Some k"
  shows "e = e'"
  using address_injective [OF assms] by (simp add: vault_seeds_def)

end

section \<open>Solvency\<close>

text \<open>The recorded total of an exchange is the sum of its collateral accounts, and its vault, a token account of
  the exchange's mint that only the program can sign for, holds at least as much.\<close>

definition exchange_ok :: "'t runtime_ops \<Rightarrow> 't chain \<Rightarrow> pubkey \<Rightarrow> exchange_data \<Rightarrow> bool" where
  "exchange_ok E s k x \<longleftrightarrow>
     ex_total_collateral x = msum (held k) (ch_accounts s) \<and>
     op_create_address E (vault_seeds k) (ex_vault_bump x) = Some (ex_vault x) \<and>
     op_is_mint E (ch_tokens s) (ex_mint x) \<and> op_token_mint E (ch_tokens s) (ex_vault x) = Some (ex_mint x) \<and>
     op_token_authority E (ch_tokens s) (ex_vault x) = Some (ex_vault x) \<and>
     ex_total_collateral x \<le> op_balance E (ch_tokens s) (ex_vault x)"

definition chain_ok :: "'t runtime_ops \<Rightarrow> 't chain \<Rightarrow> bool" where
  "chain_ok E s \<longleftrightarrow>
     finite (dom (ch_accounts s)) \<and>
     (\<forall>k c. ch_accounts s k = Some (CollateralAccount c) \<longrightarrow>
        (\<exists>x. ch_accounts s (co_exchange c) = Some (ExchangeAccount x)) \<and>
        op_create_address E (collateral_seeds (co_exchange c) (co_owner c)) (co_bump c) = Some k) \<and>
     (\<forall>k x. ch_accounts s k = Some (ExchangeAccount x) \<longrightarrow> exchange_ok E s k x)"

lemma chain_okD:
  assumes "chain_ok E s"
  shows "finite (dom (ch_accounts s))"
    "ch_accounts s k = Some (CollateralAccount c) \<Longrightarrow> \<exists>x. ch_accounts s (co_exchange c) = Some (ExchangeAccount x)"
    "ch_accounts s k = Some (CollateralAccount c) \<Longrightarrow>
       op_create_address E (collateral_seeds (co_exchange c) (co_owner c)) (co_bump c) = Some k"
    "ch_accounts s k = Some (ExchangeAccount x) \<Longrightarrow> exchange_ok E s k x"
  using assms unfolding chain_ok_def by blast+

lemma msum_zero: "(\<And>k d. m k = Some d \<Longrightarrow> F d = 0) \<Longrightarrow> msum F m = 0"
  unfolding msum_def by (rule sum.neutral) auto

lemma msum_exchange:
  assumes "finite (dom m)" "at_key (held e) (m k) = 0"
  shows "msum (held e) (m(k \<mapsto> ExchangeAccount x)) = msum (held e) m"
  using msum_upd [OF assms(1), of "held e" k "Some (ExchangeAccount x)"] assms(2) by simp

text \<open>An update that keeps every account in place and every total in step keeps the books in order.\<close>

lemma chain_ok_update:
  assumes ok: "chain_ok E s" and fin: "finite (dom (ch_accounts s'))"
    and col: "\<And>k c'. ch_accounts s' k = Some (CollateralAccount c') \<Longrightarrow> \<exists>c. ch_accounts s k = Some (CollateralAccount c) \<and>
      co_owner c' = co_owner c \<and> co_exchange c' = co_exchange c \<and> co_bump c' = co_bump c"
    and keep: "\<And>k x. ch_accounts s k = Some (ExchangeAccount x) \<Longrightarrow> \<exists>x'. ch_accounts s' k = Some (ExchangeAccount x')"
    and ex: "\<And>k x'. ch_accounts s' k = Some (ExchangeAccount x') \<Longrightarrow> exchange_ok E s' k x'"
  shows "chain_ok E s'"
  unfolding chain_ok_def
proof (intro conjI allI impI)
  fix k c' assume "ch_accounts s' k = Some (CollateralAccount c')"
  then obtain c where c: "ch_accounts s k = Some (CollateralAccount c)" "co_owner c' = co_owner c"
      "co_exchange c' = co_exchange c" "co_bump c' = co_bump c"
    using col by blast
  show "\<exists>x. ch_accounts s' (co_exchange c') = Some (ExchangeAccount x)"
    using chain_okD(2) [OF ok c(1)] keep c(3) by auto
  show "op_create_address E (collateral_seeds (co_exchange c') (co_owner c')) (co_bump c') = Some k"
    using chain_okD(3) [OF ok c(1)] c by simp
qed (use fin ex in auto)

context runtime
begin

lemma transfer_vault:
  assumes "op_transfer E from to authority n t = Some t'" "from \<noteq> v"
  shows "same_roles E t t'" "op_balance E t v \<le> op_balance E t' v"
  using transfer [OF assms(1)] assms(2) by (cases "from = to"; simp)+

lemma holder_not_vault:
  assumes "no_derived_signer E tx" "tx_signed tx holder" "op_token_authority E t from = Some holder"
    "op_token_authority E t v = Some v" "op_create_address E (vault_seeds k) b = Some v"
  shows "from \<noteq> v"
  using assms unfolding no_derived_signer_def by (metis option.inject)

lemma write_move_ok:
  assumes ok: "chain_ok E s" and mc: "move_constraints E tx a s = Inr (x, c)"
    and total: "n + co_balance c = ex_total_collateral x + b"
    and roles: "same_roles E (ch_tokens s) t"
    and vault: "n \<le> op_balance E t (ma_vault a)"
    and others: "\<And>k y. k \<noteq> ma_exchange a \<Longrightarrow> ch_accounts s k = Some (ExchangeAccount y) \<Longrightarrow>
      op_balance E (ch_tokens s) (ex_vault y) \<le> op_balance E t (ex_vault y)"
  shows "chain_ok E (write_move a x c b n t s)"
proof -
  note acc = move_constraints_Inr [OF mc]
  note fin = chain_okD(1) [OF ok]
  have ce: "co_exchange c = ma_exchange a"
    using collateral_address [OF chain_okD(3) [OF ok acc(2)] acc(6)] by simp
  have ne: "ma_collateral a \<noteq> ma_exchange a" using acc(1,2) by auto
  let ?m1 = "(ch_accounts s)(ma_collateral a \<mapsto> CollateralAccount (c\<lparr>co_balance := b\<rparr>))"
  have m: "ch_accounts (write_move a x c b n t s) =
      ?m1(ma_exchange a \<mapsto> ExchangeAccount (x\<lparr>ex_total_collateral := n\<rparr>))"
    by (simp add: write_move_def)
  have held2: "msum (held e) (ch_accounts (write_move a x c b n t s)) = msum (held e) ?m1" for e
    unfolding m by (rule msum_exchange) (use fin acc(1) ne in auto)
  have held1: "msum (held e) ?m1 + (if ma_exchange a = e then co_balance c else 0) =
      msum (held e) (ch_accounts s) + (if ma_exchange a = e then b else 0)" for e
    using msum_upd [OF fin, of "held e" "ma_collateral a" "Some (CollateralAccount (c\<lparr>co_balance := b\<rparr>))"] acc(2) ce
    by simp
  show ?thesis
  proof (rule chain_ok_update [OF ok])
    fix k y assume k: "ch_accounts (write_move a x c b n t s) k = Some (ExchangeAccount y)"
    show "exchange_ok E (write_move a x c b n t s) k y"
    proof (cases "k = ma_exchange a")
      case True
      then have y: "y = x\<lparr>ex_total_collateral := n\<rparr>" using k by (simp add: m)
      show ?thesis
        using chain_okD(4) [OF ok acc(1)] held1 [of k] total vault roles acc(4) unfolding exchange_ok_def held2 same_roles_def
        by (simp add: y True) (simp add: write_move_def)
    next
      case False
      then have y: "ch_accounts s k = Some (ExchangeAccount y)" using k by (simp add: m split: if_splits)
      show ?thesis
        using chain_okD(4) [OF ok y] held1 [of k] others [OF False y] roles False unfolding exchange_ok_def held2 same_roles_def
        by (simp add: write_move_def)
    qed
  qed (use fin acc ne in \<open>auto simp: m split: if_splits\<close>)
qed

lemma deposit_ok:
  assumes ok: "chain_ok E s" and tx: "no_derived_signer E tx" and dep: "deposit_collateral E tx a amount s = Inr s'"
  shows "chain_ok E s'"
proof -
  obtain x c t where mc: "move_constraints E tx a s = Inr (x, c)"
    and tr: "op_transfer E (ma_owner_tokens a) (ma_vault a) (ma_owner a) amount (ch_tokens s) = Some t"
    and s': "s' = write_move a x c (co_balance c + amount) (ex_total_collateral x + amount) t s"
    by (rule deposit_Inr [OF dep])
  note acc = move_constraints_Inr [OF mc]
  have other: "ma_owner_tokens a \<noteq> ex_vault y" if "ch_accounts s k = Some (ExchangeAccount y)" for k y
    using chain_okD(4) [OF ok that] holder_not_vault [OF tx acc(3,7)] by (auto simp: exchange_ok_def)
  have "ma_owner_tokens a \<noteq> ma_vault a" using other [OF acc(1)] acc(4) by simp
  then have "op_balance E t (ma_vault a) = op_balance E (ch_tokens s) (ma_vault a) + amount"
    using transfer [OF tr] by simp
  then show ?thesis
    unfolding s' using chain_okD(4) [OF ok acc(1)] acc(4) transfer [OF tr] transfer_vault [OF tr] other
    by (intro write_move_ok [OF ok mc]) (auto simp: exchange_ok_def)
qed

lemma withdraw_ok:
  assumes ok: "chain_ok E s" and tx: "no_derived_signer E tx" and wd: "withdraw_collateral E tx a amount s = Inr s'"
  shows "chain_ok E s'"
proof -
  obtain x c t where mc: "move_constraints E tx a s = Inr (x, c)"
    and le: "amount \<le> co_balance c" "amount \<le> ex_total_collateral x"
    and tr: "op_transfer E (ma_vault a) (ma_owner_tokens a) (ma_vault a) amount (ch_tokens s) = Some t"
    and s': "s' = write_move a x c (co_balance c - amount) (ex_total_collateral x - amount) t s"
    by (rule withdraw_Inr [OF wd])
  note acc = move_constraints_Inr [OF mc]
  note x = chain_okD(4) [OF ok acc(1)]
  have "ma_owner_tokens a \<noteq> ma_vault a"
    using x holder_not_vault [OF tx acc(3,7)] acc(4) by (auto simp: exchange_ok_def)
  then have bal: "op_balance E t (ma_vault a) = op_balance E (ch_tokens s) (ma_vault a) - amount"
    using transfer [OF tr] by simp
  have other: "ma_vault a \<noteq> ex_vault y" if "k \<noteq> ma_exchange a" "ch_accounts s k = Some (ExchangeAccount y)" for k y
    using chain_okD(4) [OF ok that(2)] vault_address [OF acc(8)] that(1) by (auto simp: exchange_ok_def)
  show ?thesis
    unfolding s' using x acc(4) transfer [OF tr] transfer_vault [OF tr] other le bal
    by (intro write_move_ok [OF ok mc]) (auto simp: exchange_ok_def)
qed

lemma initialize_ok:
  assumes ok: "chain_ok E s" and init: "initialize_exchange E tx authority mint s = Inr s'"
  shows "chain_ok E s'"
proof -
  obtain exchange bump vault vault_bump t where none: "ch_accounts s exchange = None"
    and found: "op_find_address E (vault_seeds exchange) = Some (vault, vault_bump)"
    and t: "op_init_token E vault mint vault (ch_tokens s) = Some t" "op_is_mint E (ch_tokens s) mint"
    and s': "s' = s\<lparr>ch_tokens := t, ch_accounts := (ch_accounts s)(exchange \<mapsto> ExchangeAccount
       \<lparr>ex_authority = authority, ex_mint = mint, ex_vault = vault, ex_bump = bump, ex_vault_bump = vault_bump,
        ex_total_collateral = 0, ex_settlements = 0\<rparr>)\<rparr>"
    using init by (auto simp: initialize_exchange_def success)
  note v = find_creates [OF found] and fin = chain_okD(1) [OF ok]
  have sums: "msum (held k) (ch_accounts s') = msum (held k) (ch_accounts s)" for k
    using msum_exchange [OF fin, of k exchange] none by (simp add: s')
  have none_held: "msum (held exchange) (ch_accounts s) = 0"
  proof (rule msum_zero)
    show "held exchange d = 0" if "ch_accounts s k = Some d" for k d
      using that none by (cases d) (auto dest: chain_okD(2) [OF ok])
  qed
  have "exchange_ok E s' k y" if "ch_accounts s' k = Some (ExchangeAccount y)" for k y
  proof (cases "k = exchange")
    case True
    then show ?thesis
      using that v init_token [OF t(1)] t(2) none_held sums unfolding exchange_ok_def by (auto simp: s')
  next
    case False
    then have y: "exchange_ok E s k y" using that chain_okD(4) [OF ok] by (simp add: s')
    then have "ex_vault y \<noteq> vault" using init_token [OF t(1)] by (auto simp: exchange_ok_def)
    then show ?thesis using y init_token [OF t(1)] sums unfolding exchange_ok_def by (simp add: s')
  qed
  moreover have "(\<exists>x. ch_accounts s' (co_exchange c) = Some (ExchangeAccount x)) \<and>
      op_create_address E (collateral_seeds (co_exchange c) (co_owner c)) (co_bump c) = Some k"
    if "ch_accounts s' k = Some (CollateralAccount c)" for k c
    using that chain_okD(2,3) [OF ok] by (auto simp: s' split: if_splits)
  ultimately show ?thesis using fin unfolding chain_ok_def by (auto simp: s')
qed

lemma open_ok:
  assumes ok: "chain_ok E s" and opened: "open_collateral E tx owner exchange s = Inr s'"
  shows "chain_ok E s'"
proof -
  obtain x collateral bump where x: "ch_accounts s exchange = Some (ExchangeAccount x)"
    and found: "op_find_address E (collateral_seeds exchange owner) = Some (collateral, bump)"
    and none: "ch_accounts s collateral = None"
    and s': "s' = s\<lparr>ch_accounts := (ch_accounts s)(collateral \<mapsto> CollateralAccount
       \<lparr>co_owner = owner, co_exchange = exchange, co_balance = 0, co_frozen = False, co_bump = bump\<rparr>)\<rparr>"
    using opened by (auto simp: open_collateral_def success)
  note a = find_creates [OF found] and fin = chain_okD(1) [OF ok]
  have sums: "msum (held k) (ch_accounts s') = msum (held k) (ch_accounts s)" for k
    using msum_upd [OF fin, of "held k" collateral "ch_accounts s' collateral"] none by (auto simp: s')
  have "exchange_ok E s' k y" if "ch_accounts s' k = Some (ExchangeAccount y)" for k y
    using that chain_okD(4) [OF ok, of k y] sums by (auto simp: exchange_ok_def s' split: if_splits)
  moreover have "(\<exists>y. ch_accounts s' (co_exchange c) = Some (ExchangeAccount y)) \<and>
      op_create_address E (collateral_seeds (co_exchange c) (co_owner c)) (co_bump c) = Some k"
    if "ch_accounts s' k = Some (CollateralAccount c)" for k c
    using that chain_okD(2,3) [OF ok, of k c] x a none by (auto simp: s' split: if_splits)
  ultimately show ?thesis using fin unfolding chain_ok_def by (auto simp: s')
qed

lemma freeze_ok:
  assumes ok: "chain_ok E s" and frz: "freeze_account E tx authority exchange collateral frozen s = Inr s'"
  shows "chain_ok E s'"
proof -
  obtain c where c: "ch_accounts s collateral = Some (CollateralAccount c)"
    and s': "s' = s\<lparr>ch_accounts := (ch_accounts s)(collateral \<mapsto> CollateralAccount (c\<lparr>co_frozen := frozen\<rparr>))\<rparr>"
    using frz by (auto simp: freeze_account_def success)
  have sums: "msum (held k) (ch_accounts s') = msum (held k) (ch_accounts s)" for k
    using msum_upd [OF chain_okD(1) [OF ok], of "held k" collateral "ch_accounts s' collateral"] c
    by (cases "co_exchange c = k") (simp_all add: s')
  show ?thesis
  proof (rule chain_ok_update [OF ok])
    show "exchange_ok E s' k y" if "ch_accounts s' k = Some (ExchangeAccount y)" for k y
      using that chain_okD(4) [OF ok, of k y] sums by (auto simp: exchange_ok_def s' split: if_splits)
  qed (use chain_okD(1) [OF ok] c in \<open>auto simp: s' split: if_splits\<close>)
qed

lemma settle_ok:
  assumes ok: "chain_ok E s"
    and settled: "settle_batch E tx slot authority exchange keys settlement_id manifest legs s = Inr s'"
  shows "chain_ok E s'"
proof -
  obtain x receipt m r where x: "ch_accounts s exchange = Some (ExchangeAccount x)" "ch_accounts s receipt = None"
    and m: "same_shape (ch_accounts s) m" "finite (dom m)" "\<forall>e. msum (held e) m = msum (held e) (ch_accounts s)"
    and s': "s' = s\<lparr>ch_accounts := m(receipt \<mapsto> ReceiptAccount r,
       exchange \<mapsto> ExchangeAccount (x\<lparr>ex_settlements := ex_settlements x + 1\<rparr>))\<rparr>"
    by (rule settle_batch_Inr [OF settled chain_okD(1) [OF ok]])
  have mx: "m exchange = Some (ExchangeAccount x)" "m receipt = None" using same_shapeD [OF m(1)] x by simp_all
  have "msum (held k) (m(receipt \<mapsto> ReceiptAccount r)) = msum (held k) m" for k
    using msum_upd [OF m(2), of "held k" receipt "Some (ReceiptAccount r)"] mx by simp
  then have sums: "msum (held k) (ch_accounts s') = msum (held k) (ch_accounts s)" for k
    using msum_exchange [of "m(receipt \<mapsto> ReceiptAccount r)" k exchange] mx m by (auto simp: s')
  show ?thesis
  proof (rule chain_ok_update [OF ok])
    show "exchange_ok E s' k y" if "ch_accounts s' k = Some (ExchangeAccount y)" for k y
      using that chain_okD(4) [OF ok, of k] x sums same_shapeD(2) [OF m(1), of k y]
      by (auto simp: exchange_ok_def s' split: if_splits)
    show "\<exists>c. ch_accounts s k = Some (CollateralAccount c) \<and> co_owner c' = co_owner c \<and>
        co_exchange c' = co_exchange c \<and> co_bump c' = co_bump c" if "ch_accounts s' k = Some (CollateralAccount c')" for k c'
      using that same_shapeD(4) [OF m(1), of k c'] by (auto simp: s' split: if_splits)
    show "\<exists>x'. ch_accounts s' k = Some (ExchangeAccount x')" if "ch_accounts s k = Some (ExchangeAccount y)" for k y
      using that x same_shapeD(2) [OF m(1), of k y] by (auto simp: s')
    show "finite (dom (ch_accounts s'))" using m(2) by (simp add: s')
  qed
qed

lemma step_ok: "settlement_step E s s' \<Longrightarrow> chain_ok E s \<Longrightarrow> chain_ok E s'"
proof (induction rule: settlement_step.induct)
  case (tokens tx holder s "from" "to" amount t)
  have "exchange_ok E (s\<lparr>ch_tokens := t\<rparr>) k y" if "ch_accounts s k = Some (ExchangeAccount y)" for k y
  proof -
    have y: "exchange_ok E s k y" by (rule chain_okD(4) [OF tokens.prems that])
    then have "from \<noteq> ex_vault y" using holder_not_vault [OF tokens.hyps(1-3)] by (auto simp: exchange_ok_def)
    then show ?thesis using y transfer_vault [OF tokens.hyps(4)] by (fastforce simp: exchange_ok_def same_roles_def)
  qed
  then show ?case using tokens.prems unfolding chain_ok_def by simp
qed (blast intro: initialize_ok open_ok deposit_ok withdraw_ok freeze_ok settle_ok)+

text \<open>The vault covers every balance, so a withdrawal never fails for want of tokens.\<close>

lemma withdraw_succeeds:
  assumes ok: "chain_ok E s" and c: "ch_accounts s (ma_collateral a) = Some (CollateralAccount c)" "co_exchange c = ma_exchange a"
    "co_owner c = ma_owner a" "\<not> co_frozen c" "0 < n" "n \<le> co_balance c"
    and x: "ch_accounts s (ma_exchange a) = Some (ExchangeAccount x)" "ex_vault x = ma_vault a" "ex_mint x = ma_mint a"
    and tx: "no_derived_signer E tx" "tx_signed tx (ma_owner a)"
      "list_all (tx_writable tx) [ma_exchange a, ma_collateral a, ma_owner_tokens a, ma_vault a]"
    and tok: "op_token_mint E (ch_tokens s) (ma_owner_tokens a) = Some (ma_mint a)"
      "op_token_authority E (ch_tokens s) (ma_owner_tokens a) = Some (ma_owner a)"
      "\<not> op_token_frozen E (ch_tokens s) (ma_owner_tokens a)" "\<not> op_token_frozen E (ch_tokens s) (ma_vault a)"
      "op_balance E (ch_tokens s) (ma_owner_tokens a) + n < 2 ^ 64"
  shows "\<exists>t. withdraw_collateral E tx a n s = Inr (write_move a x c (co_balance c - n) (ex_total_collateral x - n) t s) \<and>
    same_roles E (ch_tokens s) t \<and>
    op_balance E t = (op_balance E (ch_tokens s))
      (ma_vault a := op_balance E (ch_tokens s) (ma_vault a) - n,
       ma_owner_tokens a := op_balance E (ch_tokens s) (ma_owner_tokens a) + n) \<and>
    n \<le> op_balance E (ch_tokens s) (ma_vault a) \<and> n \<le> ex_total_collateral x"
proof -
  note x_ok = chain_okD(4) [OF ok x(1), unfolded exchange_ok_def]
  have "co_balance c \<le> ex_total_collateral x"
    using msum_ge [OF chain_okD(1) [OF ok] c(1), of "held (ma_exchange a)"] c(2) x_ok by simp
  then have n: "n \<le> ex_total_collateral x" "n \<le> op_balance E (ch_tokens s) (ma_vault a)" using c(6) x_ok x(2) by simp_all
  have vault: "op_token_mint E (ch_tokens s) (ma_vault a) = Some (ma_mint a)" using x_ok x(2,3) by simp
  obtain t where t: "op_transfer E (ma_vault a) (ma_owner_tokens a) (ma_vault a) n (ch_tokens s) = Some t"
    using transfer_succeeds [OF _ vault tok(1) tok(4,3) n(2) tok(5)] x_ok x(2) by auto
  have "ma_vault a \<noteq> ma_owner_tokens a"
    using holder_not_vault [OF tx(1,2) tok(2), of "ma_vault a" "ma_exchange a" "ex_vault_bump x"] x_ok x(2) by auto
  moreover have "move_constraints E tx a s = Inr (x, c)"
    using c x tx tok vault x_ok chain_okD(3) [OF ok c(1)]
    by (simp add: move_constraints_def or_runtime_def constraint_def exchange_at_def collateral_at_def)
  ultimately show ?thesis
    using c(4-6) n t transfer [OF t]
    by (intro exI [of _ t]) (simp add: withdraw_collateral_def require_def or_runtime_def or_error_def checked_sub_def)
qed

lemma steps_ok: "(settlement_step E)\<^sup>*\<^sup>* s s' \<Longrightarrow> chain_ok E s \<Longrightarrow> chain_ok E s'"
  by (induction rule: rtranclp_induct) (auto intro: step_ok)

end

section \<open>The manifest\<close>

lemma le_bytes_eq: "u < 256 ^ n \<Longrightarrow> v < 256 ^ n \<Longrightarrow> le_bytes n u = le_bytes n v \<longleftrightarrow> u = v"
  by (metis le_value_bytes mod_less)

lemma id_bytes_eq [simp]: "id_bytes i = id_bytes j \<longleftrightarrow> i = j"
proof -
  have "unat i < 256 ^ 16" for i :: "128 word"
  proof -
    have "unat i < 2 ^ LENGTH(128)" by (rule unsigned_less)
    then show ?thesis by simp
  qed
  then show ?thesis by (simp add: id_bytes_def le_bytes_eq word_unat_eq_iff)
qed

lemma resolved_bytes_length: "length (resolved_bytes l) = 72"
  by (cases l) (simp add: resolved_bytes_def)

lemma resolved_bytes_eq:
  "length legs = length legs' \<Longrightarrow> \<forall>(p, q, n) \<in> set legs \<union> set legs'. n < 2 ^ 64 \<Longrightarrow>
     concat (map resolved_bytes legs) = concat (map resolved_bytes legs') \<Longrightarrow> legs = legs'"
proof (induction rule: list_induct2)
  case (Cons l legs l' legs')
  obtain p q n where l: "l = (p, q, n)" by (cases l)
  obtain p' q' n' where l': "l' = (p', q', n')" by (cases l')
  have "resolved_bytes l = resolved_bytes l' \<and> concat (map resolved_bytes legs) = concat (map resolved_bytes legs')"
    using Cons.prems(2) by (simp add: resolved_bytes_length)
  moreover have "n < 256 ^ 8" "n' < 256 ^ 8" using Cons.prems(1) by (simp_all add: l l')
  ultimately have "l = l'" "concat (map resolved_bytes legs) = concat (map resolved_bytes legs')"
    by (simp_all add: l l' resolved_bytes_def le_bytes_eq)
  then show ?case using Cons.IH Cons.prems(1) by simp
qed simp


end
