(* ===== verification/Settlement_Properties.thy ===== *)
theory Settlement_Properties
  imports Settlement_Inv
begin

text \<open>
  The properties of the settlement program: a batch moves collateral and creates none, the recorded total is
  the sum of the balances and is covered by the vault, a settlement identity settles at most once, and the
  manifest commits to the legs.  \<open>token_runtime\<close> is a token ledger with a table of derived addresses; the
  laws of the runtime hold for it, and the witnesses run on it.
\<close>

section \<open>A runtime\<close>

record token_account =
  ta_mint :: pubkey
  ta_authority :: pubkey
  ta_amount :: nat
  ta_frozen :: bool

record token_ledger =
  tl_mints :: "pubkey list"
  tl_accounts :: "pubkey \<rightharpoonup> token_account"

definition token_init :: "pubkey \<Rightarrow> pubkey \<Rightarrow> pubkey \<Rightarrow> token_ledger \<Rightarrow> token_ledger option" where
  "token_init k mint authority t =
     (if tl_accounts t k = None \<and> mint \<in> set (tl_mints t)
      then Some (t\<lparr>tl_accounts := (tl_accounts t)(k \<mapsto> \<lparr>ta_mint = mint, ta_authority = authority, ta_amount = 0,
        ta_frozen = False\<rparr>)\<rparr>)
      else None)"

definition token_transfer :: "pubkey \<Rightarrow> pubkey \<Rightarrow> pubkey \<Rightarrow> nat \<Rightarrow> token_ledger \<Rightarrow> token_ledger option" where
  "token_transfer from to authority n t =
     (case (tl_accounts t from, tl_accounts t to) of
        (Some a, Some b) \<Rightarrow>
          if ta_authority a = authority \<and> \<not> ta_frozen a \<and> \<not> ta_frozen b \<and> ta_mint a = ta_mint b \<and> n \<le> ta_amount a \<and> ta_amount b + n < 2 ^ 64
          then Some (if from = to then t else t\<lparr>tl_accounts := (tl_accounts t)
            (from \<mapsto> a\<lparr>ta_amount := ta_amount a - n\<rparr>, to \<mapsto> b\<lparr>ta_amount := ta_amount b + n\<rparr>)\<rparr>)
          else None
      | _ \<Rightarrow> None)"

definition byte_total :: "byte list \<Rightarrow> pubkey" where
  "byte_total bs = of_nat (sum_list (map unat bs))"

definition token_runtime :: "(byte list \<times> pubkey) list \<Rightarrow> token_ledger runtime_ops" where
  "token_runtime table =
     \<lparr>op_find_address = \<lambda>seeds. map_option (\<lambda>k. (k, 255)) (map_of table (concat seeds)),
      op_create_address = \<lambda>seeds bump. if bump = 255 then map_of table (concat seeds) else None,
      op_sha256 = byte_total,
      op_is_mint = \<lambda>t k. k \<in> set (tl_mints t),
      op_token_mint = \<lambda>t k. map_option ta_mint (tl_accounts t k),
      op_token_authority = \<lambda>t k. map_option ta_authority (tl_accounts t k),
      op_token_frozen = \<lambda>t k. (case tl_accounts t k of Some a \<Rightarrow> ta_frozen a | None \<Rightarrow> False),
      op_balance = \<lambda>t k. (case tl_accounts t k of Some a \<Rightarrow> ta_amount a | None \<Rightarrow> 0),
      op_init_token = token_init,
      op_transfer = token_transfer\<rparr>"

lemma map_of_inj:
  "distinct (map snd table) \<Longrightarrow> map_of table a = Some k \<Longrightarrow> map_of table b = Some k \<Longrightarrow> a = b"
  by (induction table) (auto dest!: map_of_SomeD simp: image_iff split: if_splits)

lemma token_runtime_laws:
  assumes "distinct (map snd table)"
  shows "runtime (token_runtime table)"
proof
  fix "from" "to" authority :: pubkey and n t t'
  assume "op_transfer (token_runtime table) from to authority n t = Some t'"
  then have "token_transfer from to authority n t = Some t'" by (simp add: token_runtime_def)
  then show "same_roles (token_runtime table) t t' \<and>
    (from \<noteq> to \<longrightarrow> n \<le> op_balance (token_runtime table) t from \<and>
      op_balance (token_runtime table) t' = (op_balance (token_runtime table) t)
        (from := op_balance (token_runtime table) t from - n, to := op_balance (token_runtime table) t to + n)) \<and>
    (from = to \<longrightarrow> op_balance (token_runtime table) t' = op_balance (token_runtime table) t)"
    by (auto simp: same_roles_def token_runtime_def token_transfer_def fun_eq_iff split: option.splits if_splits)
qed (use map_of_inj [OF assms] in \<open>auto simp: token_runtime_def token_init_def token_transfer_def fun_eq_iff split: if_splits\<close>)

section \<open>A concrete exchange\<close>

text \<open>Authority 1 opens an exchange for mint 2; owners 3 and 4 hold token accounts 13 and 14.\<close>

definition demo_table :: "(byte list \<times> pubkey) list" where
  "demo_table =
     [(concat (exchange_seeds 1 2), 100), (concat (vault_seeds 100), 101), (concat (collateral_seeds 100 3), 102),
      (concat (collateral_seeds 100 4), 103), (concat (receipt_seeds 100 7), 104)]"

definition demo_runtime :: "token_ledger runtime_ops" where
  "demo_runtime = token_runtime demo_table"

interpretation demo_rt: runtime demo_runtime
  unfolding demo_runtime_def by (rule token_runtime_laws) (simp add: demo_table_def)

definition demo_tx :: transaction where
  "demo_tx = \<lparr>tx_signed = \<lambda>k. k \<in> {1, 3, 4}, tx_writable = \<lambda>_. True\<rparr>"

definition demo_start :: "token_ledger chain" where
  "demo_start = \<lparr>ch_accounts = Map.empty, ch_tokens = \<lparr>tl_mints = [2], tl_accounts =
     [13 \<mapsto> \<lparr>ta_mint = 2, ta_authority = 3, ta_amount = 1000, ta_frozen = False\<rparr>, 
      14 \<mapsto> \<lparr>ta_mint = 2, ta_authority = 4, ta_amount = 500, ta_frozen = False\<rparr>]\<rparr>\<rparr>"

definition demo_move :: "pubkey \<Rightarrow> pubkey \<Rightarrow> pubkey \<Rightarrow> move_accounts" where
  "demo_move owner collateral tokens = \<lparr>ma_owner = owner, ma_exchange = 100, ma_collateral = collateral, ma_mint = 2,
     ma_owner_tokens = tokens, ma_vault = 101\<rparr>"

definition demo_funded :: "failure + token_ledger chain" where
  "demo_funded =
     and_then (initialize_exchange demo_runtime demo_tx 1 2 demo_start) (\<lambda>s.
     and_then (open_collateral demo_runtime demo_tx 3 100 s) (\<lambda>s.
     and_then (open_collateral demo_runtime demo_tx 4 100 s) (\<lambda>s.
     and_then (deposit_collateral demo_runtime demo_tx (demo_move 3 102 13) 600 s) (\<lambda>s.
     deposit_collateral demo_runtime demo_tx (demo_move 4 103 14) 100 s))))"

definition demo_legs :: "leg list" where
  "demo_legs = [\<lparr>leg_payer = 0, leg_payee = 1, leg_amount = 250\<rparr>, \<lparr>leg_payer = 1, leg_payee = 0, leg_amount = 20\<rparr>]"

definition demo_manifest :: pubkey where
  "demo_manifest = manifest_hash demo_runtime 7 100 [(102, 103, 250), (103, 102, 20)]"

definition demo_settle :: "token_ledger chain \<Rightarrow> failure + token_ledger chain" where
  "demo_settle = settle_batch demo_runtime demo_tx 50 1 100 [102, 103] 7 demo_manifest demo_legs"

definition demo_withdrawn :: "failure + token_ledger chain" where
  "demo_withdrawn = and_then (and_then demo_funded demo_settle)
     (withdraw_collateral demo_runtime demo_tx (demo_move 4 103 14) 300)"

definition amount_at :: "failure + token_ledger chain \<Rightarrow> pubkey \<Rightarrow> nat option" where
  "amount_at r k = (case r of Inl e \<Rightarrow> None | Inr s \<Rightarrow> map_option co_balance (collateral_at (ch_accounts s) k))"

lemma seeds_hd:
  "\<exists>bs. concat (exchange_seeds a m) = 0x65 # bs" "\<exists>bs. concat (vault_seeds e) = 0x76 # bs"
  "\<exists>bs. concat (collateral_seeds e w) = 0x63 # bs" "\<exists>bs. concat (receipt_seeds e i) = 0x72 # bs"
  by (simp_all add: exchange_seeds_def vault_seeds_def collateral_seeds_def receipt_seeds_def ascii_def)

lemma seeds_apart:
  "concat (vault_seeds e) \<noteq> concat (exchange_seeds a m)" "concat (collateral_seeds e w) \<noteq> concat (exchange_seeds a m)"
  "concat (receipt_seeds e i) \<noteq> concat (exchange_seeds a m)" "concat (collateral_seeds e w) \<noteq> concat (vault_seeds e')"
  "concat (receipt_seeds e i) \<noteq> concat (vault_seeds e')" "concat (receipt_seeds e i) \<noteq> concat (collateral_seeds e' w)"
  "concat (collateral_seeds e w) = concat (collateral_seeds e' w') \<longleftrightarrow> e = e' \<and> w = w'"
  using seeds_hd(1) [of a m] seeds_hd(2) [of e] seeds_hd(2) [of e'] seeds_hd(3) [of e w] seeds_hd(3) [of e' w] seeds_hd(4) [of e i]
  by (auto simp: collateral_seeds_def)

lemma demo_ops [simp]:
  "op_find_address demo_runtime seeds = map_option (\<lambda>k. (k, 255)) (map_of demo_table (concat seeds))"
  "op_create_address demo_runtime seeds bump = (if bump = 255 then map_of demo_table (concat seeds) else None)"
  "op_is_mint demo_runtime = (\<lambda>t k. k \<in> set (tl_mints t))"
  "op_token_mint demo_runtime = (\<lambda>t k. map_option ta_mint (tl_accounts t k))"
  "op_token_authority demo_runtime = (\<lambda>t k. map_option ta_authority (tl_accounts t k))"
  "op_token_frozen demo_runtime = (\<lambda>t k. (case tl_accounts t k of Some a \<Rightarrow> ta_frozen a | None \<Rightarrow> False))"
  "op_balance demo_runtime = (\<lambda>t k. (case tl_accounts t k of Some a \<Rightarrow> ta_amount a | None \<Rightarrow> 0))"
  "op_init_token demo_runtime = token_init" "op_transfer demo_runtime = token_transfer"
  by (simp_all add: demo_runtime_def token_runtime_def fun_eq_iff)

lemma demo_addresses [simp]:
  "map_of demo_table (concat (exchange_seeds 1 2)) = Some 100" "map_of demo_table (concat (vault_seeds 100)) = Some 101"
  "map_of demo_table (concat (collateral_seeds 100 3)) = Some 102"
  "map_of demo_table (concat (collateral_seeds 100 4)) = Some 103"
  "map_of demo_table (concat (receipt_seeds 100 7)) = Some 104"
  by (simp_all add: demo_table_def seeds_apart)

lemmas demo_simps = demo_move_def demo_tx_def demo_start_def initialize_exchange_def open_collateral_def
  deposit_collateral_def withdraw_collateral_def move_constraints_def write_move_def token_init_def token_transfer_def
  constraint_def require_def or_runtime_def or_error_def exchange_at_def collateral_at_def checked_add_def checked_sub_def

definition demo_collateral :: "pubkey \<Rightarrow> nat \<Rightarrow> collateral_data" where
  "demo_collateral owner n = \<lparr>co_owner = owner, co_exchange = 100, co_balance = n, co_frozen = False, co_bump = 255\<rparr>"

definition demo_exchange :: "nat \<Rightarrow> nat \<Rightarrow> exchange_data" where
  "demo_exchange n settlements = \<lparr>ex_authority = 1, ex_mint = 2, ex_vault = 101, ex_bump = 255, ex_vault_bump = 255,
     ex_total_collateral = n, ex_settlements = settlements\<rparr>"

lemma demo_funded_run:
  "\<exists>s. demo_funded = Inr s \<and> finite (dom (ch_accounts s)) \<and>
     ch_accounts s 100 = Some (ExchangeAccount (demo_exchange 700 0)) \<and>
     ch_accounts s 102 = Some (CollateralAccount (demo_collateral 3 600)) \<and>
     ch_accounts s 103 = Some (CollateralAccount (demo_collateral 4 100)) \<and> ch_accounts s 104 = None \<and>
     map_option ta_authority (tl_accounts (ch_tokens s) 13) = Some 3 \<and>
     map_option ta_mint (tl_accounts (ch_tokens s) 13) = Some 2 \<and>
     \<not> op_token_frozen demo_runtime (ch_tokens s) 13 \<and> \<not> op_token_frozen demo_runtime (ch_tokens s) 101 \<and>
     op_balance demo_runtime (ch_tokens s) 13 = 400 \<and> op_balance demo_runtime (ch_tokens s) 101 = 700"
  by (simp add: demo_funded_def demo_simps demo_collateral_def demo_exchange_def)

lemma demo_settle_run:
  assumes "ch_accounts s 100 = Some (ExchangeAccount (demo_exchange 700 0))"
    "ch_accounts s 102 = Some (CollateralAccount (demo_collateral 3 600))"
    "ch_accounts s 103 = Some (CollateralAccount (demo_collateral 4 100))" "ch_accounts s 104 = None"
  shows "\<exists>s'. demo_settle s = Inr s' \<and> balance_of (ch_accounts s') 102 = 370 \<and> balance_of (ch_accounts s') 103 = 330"
  using assms
  by (simp add: demo_settle_def settle_batch_def demo_legs_def demo_manifest_def demo_simps demo_collateral_def
      demo_exchange_def max_legs_def idx_def balance_of_def)

lemma demo_signers: "no_derived_signer demo_runtime demo_tx"
  by (auto simp: no_derived_signer_def demo_tx_def demo_table_def split: if_splits)

lemma demo_reached: "demo_funded = Inr s \<Longrightarrow> (settlement_step demo_runtime)\<^sup>*\<^sup>* demo_start s"
  unfolding demo_funded_def success
  by (elim exE conjE)
    (rule rtranclp.rtrancl_refl | rule converse_rtranclp_into_rtranclp | erule settlement_step.intros(1-3) [OF demo_signers])+

section \<open>Properties\<close>

text \<open>C8. A settled batch moves collateral and creates none: every collateral account gains exactly what the legs
  pay into it less what they take from it, no balance becomes negative, the sum of all balances of every
  exchange is unchanged, no token moves, and the supplied manifest is the hash of the legs that were applied.\<close>

theorem settle_batch_conserves:
  assumes "settle_batch E tx slot authority exchange keys settlement_id manifest legs s = Inr s'"
    "finite (dom (ch_accounts s))"
  shows "balance_of (ch_accounts s') k = balance_of (ch_accounts s) k + net_of keys legs k \<and>
    0 \<le> balance_of (ch_accounts s) k + net_of keys legs k \<and>
    msum (held e) (ch_accounts s') = msum (held e) (ch_accounts s) \<and> ch_tokens s' = ch_tokens s \<and>
    (\<exists>resolved. resolve_legs keys legs = Inr resolved \<and> manifest_hash E settlement_id exchange resolved = manifest)"
proof -
  obtain x receipt bump resolved m where ok: "ch_accounts s exchange = Some (ExchangeAccount x)"
    "ch_accounts s receipt = None" "resolve_legs keys legs = Inr resolved"
    "manifest_hash E settlement_id exchange resolved = manifest" "same_shape (ch_accounts s) m" "finite (dom m)"
    "\<forall>e. msum (held e) m = msum (held e) (ch_accounts s)"
    "\<forall>k. balance_of m k = balance_of (ch_accounts s) k + net_of keys legs k"
    "s' = s\<lparr>ch_accounts := m(receipt \<mapsto> ReceiptAccount \<lparr>rp_exchange = exchange, rp_settlement_id = settlement_id,
         rp_manifest_hash = manifest, rp_leg_count = length legs, rp_applied_slot = slot\<rparr>,
       exchange \<mapsto> ExchangeAccount (x\<lparr>ex_settlements := ex_settlements x + 1\<rparr>))\<rparr>"
    by (rule settle_batch_Inr [OF assms])
  have m: "m receipt = None" "m exchange = Some (ExchangeAccount x)"
    using same_shapeD [OF ok(5)] ok(1,2) by simp_all
  then have ne: "exchange \<noteq> receipt" by auto
  have "balance_of (ch_accounts s') k = balance_of m k"
    using m by (simp add: ok(9) balance_of_def collateral_at_def)
  moreover have "0 \<le> balance_of m k" by (simp add: balance_of_def split: option.splits)
  moreover have "msum (held e) (ch_accounts s') = msum (held e) m"
  proof -
    let ?r = "ReceiptAccount \<lparr>rp_exchange = exchange, rp_settlement_id = settlement_id,
         rp_manifest_hash = manifest, rp_leg_count = length legs, rp_applied_slot = slot\<rparr>"
    have "msum (held e) (m(receipt \<mapsto> ?r)) = msum (held e) m"
      using msum_upd [OF ok(6), of "held e" receipt "Some ?r"] m by simp
    moreover have "msum (held e) ((m(receipt \<mapsto> ?r))(exchange \<mapsto> ExchangeAccount y)) = msum (held e) (m(receipt \<mapsto> ?r))" for y
      using msum_upd [of "m(receipt \<mapsto> ?r)" "held e" exchange "Some (ExchangeAccount y)"] ok(6) m ne by simp
    ultimately show ?thesis by (simp add: ok(9))
  qed
  ultimately show ?thesis using ok(3,4,7,8) by (simp add: ok(9))
qed

theorem settle_batch_conserves_witness:
  "\<exists>s s'. demo_funded = Inr s \<and> demo_settle s = Inr s' \<and>
     balance_of (ch_accounts s') 102 = balance_of (ch_accounts s) 102 + net_of [102, 103] demo_legs 102"
proof -
  obtain s where s: "demo_funded = Inr s" "finite (dom (ch_accounts s))"
      "\<exists>s'. demo_settle s = Inr s' \<and> balance_of (ch_accounts s') 102 = 370 \<and> balance_of (ch_accounts s') 103 = 330"
    using demo_funded_run demo_settle_run by blast
  then show ?thesis using settle_batch_conserves [OF _ s(2)] unfolding demo_settle_def by blast
qed

text \<open>C10. A settlement identity settles at most once: after a batch was applied, and after any number of further
  transactions, submitting the same settlement identity for the same exchange fails, whatever legs, accounts
  or manifest it comes with.\<close>

theorem settles_at_most_once:
  assumes "settle_batch E tx slot authority exchange keys settlement_id manifest legs s = Inr s1"
    "finite (dom (ch_accounts s))" "(settlement_step E)\<^sup>*\<^sup>* s1 s2"
  shows "settle_batch E tx' slot' authority' exchange keys' settlement_id manifest' legs' s2 = Inl Runtime"
proof -
  obtain x receipt bump m where ok: "op_find_address E (receipt_seeds exchange settlement_id) = Some (receipt, bump)"
    "ch_accounts s exchange = Some (ExchangeAccount x)" "ch_accounts s receipt = None" "finite (dom m)"
    "s1 = s\<lparr>ch_accounts := m(receipt \<mapsto> ReceiptAccount \<lparr>rp_exchange = exchange, rp_settlement_id = settlement_id,
         rp_manifest_hash = manifest, rp_leg_count = length legs, rp_applied_slot = slot\<rparr>,
       exchange \<mapsto> ExchangeAccount (x\<lparr>ex_settlements := ex_settlements x + 1\<rparr>))\<rparr>"
    by (rule settle_batch_Inr [OF assms(1,2)])
  have "\<exists>r. ch_accounts s2 receipt = Some (ReceiptAccount r) \<and> finite (dom (ch_accounts s2))"
    using assms(3)
  proof (induction rule: rtranclp_induct)
    case base
    then show ?case using ok(2-5) by auto
  next
    case (step s3 s4)
    then show ?case using settlement_step_receipt by blast
  qed
  then obtain r where r: "ch_accounts s2 receipt = Some (ReceiptAccount r)" by blast
  show ?thesis
    unfolding settle_batch_def
    by (simp add: or_runtime_def constraint_def ok(1) r split: option.split)
qed

theorem settles_at_most_once_witness:
  "\<exists>s s'. demo_funded = Inr s \<and> demo_settle s = Inr s' \<and> demo_settle s' = Inl Runtime"
proof -
  obtain s s' where s: "demo_funded = Inr s" "finite (dom (ch_accounts s))" "demo_settle s = Inr s'"
    using demo_funded_run demo_settle_run by blast
  then show ?thesis
    using settles_at_most_once [OF _ s(2) rtranclp.rtrancl_refl] unfolding demo_settle_def by blast
qed

text \<open>C3. Collateral is backed: after any sequence of transactions, whatever else their signers do with tokens of
  their own, the recorded total of an exchange is the sum of the balances of its collateral accounts, and its
  vault holds at least that many tokens.\<close>

theorem collateral_is_backed:
  assumes "runtime E" "ch_accounts s = Map.empty" "(settlement_step E)\<^sup>*\<^sup>* s s'"
    "ch_accounts s' k = Some (ExchangeAccount x)"
  shows "ex_total_collateral x = msum (held k) (ch_accounts s') \<and>
    ex_total_collateral x \<le> op_balance E (ch_tokens s') (ex_vault x)"
proof -
  have "chain_ok E s" using assms(2) by (simp add: chain_ok_def)
  then have "chain_ok E s'" by (rule runtime.steps_ok [OF assms(1,3)])
  from chain_okD(4) [OF this assms(4)] show ?thesis by (simp add: exchange_ok_def)
qed

theorem collateral_is_backed_witness:
  "\<exists>s. demo_funded = Inr s \<and> msum (held 100) (ch_accounts s) = 700 \<and> op_balance demo_runtime (ch_tokens s) 101 \<ge> 700"
proof -
  obtain s where s: "demo_funded = Inr s" "ch_accounts s 100 = Some (ExchangeAccount (demo_exchange 700 0))"
    using demo_funded_run by blast
  have "ch_accounts demo_start = Map.empty" by (simp add: demo_start_def)
  then show ?thesis
    using collateral_is_backed [OF demo_rt.runtime_axioms _ demo_reached [OF s(1)] s(2)] s(1)
    by (auto simp: demo_exchange_def simp del: demo_ops)
qed

text \<open>C36. An owner can take collateral out.  After any sequence of transactions, a withdrawal of no more than the
  balance of an account that is not frozen, signed by its owner and paid to a token account of theirs of the
  exchange's mint that has room for it, succeeds, unless the token program has frozen that token account or
  the vault.  It lowers exactly that balance and the recorded total by the amount, no subtraction
  underflows, and of the token balances exactly the vault's falls and the owner's rises by the amount.\<close>

theorem withdrawal_succeeds:
  assumes "runtime E" "ch_accounts s = Map.empty" "(settlement_step E)\<^sup>*\<^sup>* s s'"
    and "ch_accounts s' (ma_collateral a) = Some (CollateralAccount c)" "co_exchange c = ma_exchange a"
      "co_owner c = ma_owner a" "\<not> co_frozen c" "0 < n" "n \<le> co_balance c"
    and "ch_accounts s' (ma_exchange a) = Some (ExchangeAccount x)" "ex_vault x = ma_vault a" "ex_mint x = ma_mint a"
    and "no_derived_signer E tx" "tx_signed tx (ma_owner a)"
      "list_all (tx_writable tx) [ma_exchange a, ma_collateral a, ma_owner_tokens a, ma_vault a]"
    and "op_token_mint E (ch_tokens s') (ma_owner_tokens a) = Some (ma_mint a)"
      "op_token_authority E (ch_tokens s') (ma_owner_tokens a) = Some (ma_owner a)"
      "\<not> op_token_frozen E (ch_tokens s') (ma_owner_tokens a)" "\<not> op_token_frozen E (ch_tokens s') (ma_vault a)"
      "op_balance E (ch_tokens s') (ma_owner_tokens a) + n < 2 ^ 64"
  shows "\<exists>t. withdraw_collateral E tx a n s' =
      Inr (s'\<lparr>ch_tokens := t, ch_accounts := (ch_accounts s')
        (ma_collateral a \<mapsto> CollateralAccount (c\<lparr>co_balance := co_balance c - n\<rparr>),
         ma_exchange a \<mapsto> ExchangeAccount (x\<lparr>ex_total_collateral := ex_total_collateral x - n\<rparr>))\<rparr>) \<and>
    same_roles E (ch_tokens s') t \<and>
    op_balance E t = (op_balance E (ch_tokens s'))
      (ma_vault a := op_balance E (ch_tokens s') (ma_vault a) - n,
       ma_owner_tokens a := op_balance E (ch_tokens s') (ma_owner_tokens a) + n) \<and>
    n \<le> op_balance E (ch_tokens s') (ma_vault a) \<and> n \<le> ex_total_collateral x"
proof -
  have "chain_ok E s" using assms(2) by (simp add: chain_ok_def)
  then have "chain_ok E s'" by (rule runtime.steps_ok [OF assms(1,3)])
  from runtime.withdraw_succeeds [OF assms(1) this assms(4-)] show ?thesis
    unfolding write_move_def by blast
qed

theorem withdrawal_succeeds_witness:
  "\<exists>s s'. demo_funded = Inr s \<and> withdraw_collateral demo_runtime demo_tx (demo_move 3 102 13) 250 s = Inr s' \<and>
     ch_accounts s' 102 = Some (CollateralAccount (demo_collateral 3 350)) \<and>
     op_balance demo_runtime (ch_tokens s') 101 = 450 \<and> op_balance demo_runtime (ch_tokens s') 13 = 650"
proof -
  obtain s where s: "demo_funded = Inr s" "ch_accounts s 100 = Some (ExchangeAccount (demo_exchange 700 0))"
     "ch_accounts s 102 = Some (CollateralAccount (demo_collateral 3 600))"
     "map_option ta_authority (tl_accounts (ch_tokens s) 13) = Some 3"
     "map_option ta_mint (tl_accounts (ch_tokens s) 13) = Some 2"
     "\<not> op_token_frozen demo_runtime (ch_tokens s) 13" "\<not> op_token_frozen demo_runtime (ch_tokens s) 101"
     "op_balance demo_runtime (ch_tokens s) 13 = 400" "op_balance demo_runtime (ch_tokens s) 101 = 700"
    using demo_funded_run by (elim exE conjE)
  have auth: "op_token_mint demo_runtime (ch_tokens s) 13 = Some 2" "op_token_authority demo_runtime (ch_tokens s) 13 = Some 3"
    using s(4,5) by simp_all
  have "ch_accounts demo_start = Map.empty" by (simp add: demo_start_def)
  note w = withdrawal_succeeds [OF demo_rt.runtime_axioms this demo_reached [OF s(1)], of "demo_move 3 102 13"
      "demo_collateral 3 600" 250 "demo_exchange 700 0" demo_tx]
  obtain t where t: "withdraw_collateral demo_runtime demo_tx (demo_move 3 102 13) 250 s =
      Inr (s\<lparr>ch_tokens := t, ch_accounts := (ch_accounts s)
        (102 \<mapsto> CollateralAccount (demo_collateral 3 350), 100 \<mapsto> ExchangeAccount (demo_exchange 450 0))\<rparr>)"
    "op_balance demo_runtime t = (op_balance demo_runtime (ch_tokens s))(101 := 450, 13 := 650)"
    using w s auth demo_signers
    by (auto simp: demo_move_def demo_collateral_def demo_exchange_def demo_tx_def simp del: demo_ops)
  show ?thesis by (rule exI, rule exI, rule conjI [OF s(1)], rule conjI [OF t(1)]) (simp add: t(2) del: demo_ops)
qed

text \<open>C37. The manifest commits to the settlement: two manifests with the same bytes have the same settlement identity,
  the same exchange and the same legs, in the same order and with the same amounts.\<close>

theorem manifest_commits:
  assumes "manifest_bytes settlement_id exchange legs = manifest_bytes settlement_id' exchange' legs'"
    "length legs \<le> max_legs" "length legs' \<le> max_legs" "\<forall>(p, q, n) \<in> set legs \<union> set legs'. n < 2 ^ 64"
  shows "settlement_id = settlement_id' \<and> exchange = exchange' \<and> legs = legs'"
proof -
  have "length (id_bytes i) = 16" for i by (simp add: id_bytes_def)
  then have eq: "settlement_id = settlement_id'" "exchange = exchange'"
    "le_bytes 2 (length legs) = le_bytes 2 (length legs')"
    "concat (map resolved_bytes legs) = concat (map resolved_bytes legs')"
    using assms(1) by (simp_all add: manifest_bytes_def)
  have "length legs = length legs'" using eq(3) assms(2,3) by (simp add: le_bytes_eq max_legs_def)
  then show ?thesis using resolved_bytes_eq [OF _ assms(4) eq(4)] eq(1,2) by simp
qed

theorem manifest_commits_witness:
  "let legs = [(1, 2, 5), (2, 3, 7)] in
   manifest_bytes 9 4 legs = manifest_bytes 9 4 legs \<and> length legs \<le> max_legs \<and>
   (\<forall>i. manifest_bytes i 4 legs = manifest_bytes 9 4 legs \<longrightarrow> i = 9)"
proof -
  let ?legs = "[(1, 2, 5), (2, 3, 7)] :: (pubkey \<times> pubkey \<times> nat) list"
  have len: "length ?legs \<le> max_legs" by (simp add: max_legs_def)
  have "i = 9" if "manifest_bytes i 4 ?legs = manifest_bytes 9 4 ?legs" for i
    using manifest_commits [OF that len len] by simp
  then show ?thesis using len by (simp add: Let_def)
qed
end
