(* ===== verification/Journal.thy ===== *)
theory Journal
  imports Canonical "HOL-Library.Sublist"
begin

text \<open>
  The journal of output events (\<open>engine-runtime/src/journal.rs\<close>): the writer, the recovery after a restart and
  the tail that follows a growing file; and the output thread of \<open>engine-runtime/src/pipeline.rs\<close> that feeds it.  The checksum and the sink, any \<open>Write\<close> behind a \<open>BufWriter\<close>, are
  parameters; the locale \<open>byte_sink\<close> states what is used of the sink.  The readers are given the bytes the
  file system returned to them; its errors (\<open>JournalError::Io\<close>) end a call before the modelled part begins.
\<close>

section \<open>Format\<close>

definition journal_magic :: "byte list" where
  "journal_magic = [0x52, 0x4C, 0x54, 0x4A]"

definition journal_version :: nat where
  "journal_version = 1"

definition journal_header_len :: nat where
  "journal_header_len = 24"

definition max_record_len :: nat where
  "max_record_len = 4096"

datatype journal_error = JournalIo | BadHeader | IncompleteHeader | TruncatedTail nat | Corrupt nat

section \<open>Writer\<close>

record 'k sink_ops =
  sk_write_all :: "byte list \<Rightarrow> 'k \<Rightarrow> bool \<times> 'k"
  sk_flush :: "'k \<Rightarrow> bool \<times> 'k"
  sk_sync_data :: "'k \<Rightarrow> bool \<times> 'k"

record 'k journal_writer =
  jw_sink :: 'k
  jw_on_disk :: bool
  jw_records :: nat

definition journal_header :: "nat \<Rightarrow> byte list" where
  "journal_header run_id = journal_magic @ le_bytes 2 journal_version @ le_bytes 2 0 @ le_bytes 16 run_id"

text \<open>A sequence of sink operations stops at the first that fails; what was written stays written.\<close>

definition sink_then :: "bool \<times> 'k \<Rightarrow> ('k \<Rightarrow> bool \<times> 'k) \<Rightarrow> bool \<times> 'k" where
  "sink_then r f = (if fst r then f (snd r) else r)"

definition with_sink :: "'k sink_ops \<Rightarrow> bool \<Rightarrow> 'k \<Rightarrow> nat \<Rightarrow> journal_error + 'k journal_writer" where
  "with_sink K on_disk k run_id =
     (case sink_then (sk_write_all K (journal_header run_id) k) (sk_flush K) of
        (ok, k') \<Rightarrow> if ok then Inr \<lparr>jw_sink = k', jw_on_disk = on_disk, jw_records = 0\<rparr> else Inl JournalIo)"

definition journal_append ::
  "(byte list \<Rightarrow> nat) \<Rightarrow> 'k sink_ops \<Rightarrow> output_event \<Rightarrow> 'k journal_writer \<Rightarrow> (journal_error + unit) \<times> 'k journal_writer" where
  "journal_append crc K event w =
     (let scratch = encode_output event [];
          len = length scratch mod 2 ^ 32;
          (ok, k) = sink_then (sink_then (sk_write_all K (le_bytes 4 len) (jw_sink w))
            (sk_write_all K scratch)) (sk_write_all K (le_bytes 4 (crc scratch)))
      in if ok then (Inr (), w\<lparr>jw_sink := k, jw_records := wrapping_add 64 (jw_records w) 1\<rparr>)
         else (Inl JournalIo, w\<lparr>jw_sink := k\<rparr>))"

definition journal_flush :: "'k sink_ops \<Rightarrow> 'k journal_writer \<Rightarrow> (journal_error + unit) \<times> 'k journal_writer" where
  "journal_flush K w =
     (case sk_flush K (jw_sink w) of (ok, k) \<Rightarrow> (if ok then Inr () else Inl JournalIo, w\<lparr>jw_sink := k\<rparr>))"

definition journal_sync :: "'k sink_ops \<Rightarrow> 'k journal_writer \<Rightarrow> (journal_error + unit) \<times> 'k journal_writer" where
  "journal_sync K w =
     (case sink_then (sk_flush K (jw_sink w)) (\<lambda>k. if jw_on_disk w then sk_sync_data K k else (True, k)) of
        (ok, k) \<Rightarrow> (if ok then Inr () else Inl JournalIo, w\<lparr>jw_sink := k\<rparr>))"

section \<open>Records\<close>

text \<open>The checks both readers make at the start of a record, in their order: the record is not complete yet, it
  is invalid, or it holds an event and ends after so many bytes.\<close>

datatype record_check = Short | Invalid | Good output_event nat

definition check_record :: "(byte list \<Rightarrow> nat) \<Rightarrow> byte list \<Rightarrow> record_check" where
  "check_record crc rest =
     (if length rest < 4 then Short
      else let len = le_value (take 4 rest) in
        if len = 0 \<or> max_record_len < len then Invalid
        else let stop = 4 + len + 4 in
          if length rest < stop then Short
          else let payload = take len (drop 4 rest); stored = le_value (take 4 (drop (stop - 4) rest)) in
            if stored \<noteq> crc payload then Invalid
            else (case decode_output payload of
                Inr (event, consumed) \<Rightarrow> if consumed = length payload then Good event stop else Invalid
              | Inl _ \<Rightarrow> Invalid))"

lemma check_record_Good: "check_record crc rest = Good event stop \<Longrightarrow> 0 < stop \<and> stop \<le> length rest"
  by (auto simp: check_record_def Let_def split: if_splits sum.splits)

section \<open>Recovery\<close>

record journal_recovery =
  jr_run_id :: nat
  jr_events :: "output_event list"
  jr_truncated_at :: "nat option"

function recover :: "(byte list \<Rightarrow> nat) \<Rightarrow> nat \<Rightarrow> byte list \<Rightarrow> output_event list \<times> nat option" where
  "recover crc offset rest =
     (if rest = [] then ([], None)
      else case check_record crc rest of
          Good event stop \<Rightarrow> (case recover crc (offset + stop) (drop stop rest) of (events, t) \<Rightarrow> (event # events, t))
        | _ \<Rightarrow> ([], Some offset))"
  by pat_completeness auto
termination
  by (relation "measure (\<lambda>(crc, offset, rest). length rest)") (auto dest!: sym [of _ "check_record _ _"] check_record_Good)

declare recover.simps [simp del]

definition header_check :: "byte list \<Rightarrow> journal_error option" where
  "header_check bytes =
     (if length bytes < journal_header_len then Some IncompleteHeader
      else if take 4 bytes \<noteq> journal_magic \<or> le_value (take 2 (drop 4 bytes)) \<noteq> journal_version then Some BadHeader
      else None)"

definition read_journal :: "(byte list \<Rightarrow> nat) \<Rightarrow> byte list \<Rightarrow> journal_error + journal_recovery" where
  "read_journal crc bytes =
     (case header_check bytes of
        Some e \<Rightarrow> Inl e
      | None \<Rightarrow>
          (case recover crc journal_header_len (drop journal_header_len bytes) of
             (events, t) \<Rightarrow> Inr \<lparr>jr_run_id = le_value (take 16 (drop 8 bytes)), jr_events = events, jr_truncated_at = t\<rparr>))"

section \<open>Following a growing journal\<close>

record journal_tail =
  jt_offset :: nat
  jt_pending :: "byte list"
  jt_bytes_read :: nat

text \<open>Opening reads the first bytes of the file, as far as they exist.\<close>

definition tail_open :: "byte list \<Rightarrow> journal_error + journal_tail" where
  "tail_open header =
     (case header_check header of
        Some e \<Rightarrow> Inl e
      | None \<Rightarrow> Inr \<lparr>jt_offset = journal_header_len, jt_pending = [], jt_bytes_read = 0\<rparr>)"

text \<open>The first loop of a poll appends what each read returned, until a read returns nothing.\<close>

fun tail_read :: "byte list list \<Rightarrow> journal_tail \<Rightarrow> journal_tail" where
  "tail_read [] t = t"
| "tail_read (chunk # chunks) t =
     (if chunk = [] then t
      else tail_read chunks (t\<lparr>jt_pending := jt_pending t @ chunk,
        jt_bytes_read := wrapping_add 64 (jt_bytes_read t) (length chunk)\<rparr>))"

fun poll_records ::
  "(byte list \<Rightarrow> nat) \<Rightarrow> nat \<Rightarrow> nat \<Rightarrow> byte list \<Rightarrow> journal_error + output_event list \<times> nat" where
  "poll_records crc 0 offset rest = Inr ([], 0)"
| "poll_records crc (Suc limit) offset rest =
     (case check_record crc rest of
        Short \<Rightarrow> Inr ([], 0)
      | Invalid \<Rightarrow> Inl (Corrupt offset)
      | Good event stop \<Rightarrow>
          (case poll_records crc limit (offset + stop) (drop stop rest) of
             Inl e \<Rightarrow> Inl e
           | Inr (events, consumed) \<Rightarrow> Inr (event # events, stop + consumed)))"

definition tail_poll ::
  "(byte list \<Rightarrow> nat) \<Rightarrow> nat \<Rightarrow> byte list list \<Rightarrow> journal_tail \<Rightarrow> (journal_error + output_event list) \<times> journal_tail" where
  "tail_poll crc limit chunks t =
     (let t = tail_read chunks t in
      case poll_records crc limit (jt_offset t) (jt_pending t) of
        Inl e \<Rightarrow> (Inl e, t)
      | Inr (events, consumed) \<Rightarrow>
          (Inr events,
           if 0 < consumed then t\<lparr>jt_pending := drop consumed (jt_pending t), jt_offset := jt_offset t + consumed\<rparr>
           else t))"

section \<open>The output thread\<close>

datatype journal_sync_mode = Buffered | GroupCommit nat | Durable

text \<open>The thread with a journal.  \<open>os_recorded\<close> is what was given to the digest recorder.\<close>

record 'k output_state =
  os_writer :: "'k journal_writer"
  os_since_flush :: nat
  os_recorded :: "output_event list"

definition as_error :: "journal_error + unit \<Rightarrow> journal_error option" where
  "as_error r = (case r of Inl e \<Rightarrow> Some e | Inr _ \<Rightarrow> None)"

text \<open>The queue was found empty: a partial group is published.\<close>

definition publish_group ::
  "'k sink_ops \<Rightarrow> journal_sync_mode \<Rightarrow> 'k output_state \<Rightarrow> journal_error option \<times> 'k output_state" where
  "publish_group K sync st =
     (case sync of
        GroupCommit _ \<Rightarrow>
          if 0 < os_since_flush st then
            (case journal_flush K (os_writer st) of
               (Inl e, w) \<Rightarrow> (Some e, st\<lparr>os_writer := w\<rparr>)
             | (Inr _, w) \<Rightarrow> (None, st\<lparr>os_writer := w, os_since_flush := 0\<rparr>))
          else (None, st)
      | _ \<Rightarrow> (None, st))"

definition journal_event ::
  "(byte list \<Rightarrow> nat) \<Rightarrow> 'k sink_ops \<Rightarrow> journal_sync_mode \<Rightarrow> output_event \<Rightarrow> 'k output_state \<Rightarrow>
   journal_error option \<times> 'k output_state" where
  "journal_event crc K sync event st =
     (let st = st\<lparr>os_recorded := os_recorded st @ [event]\<rparr> in
      case journal_append crc K event (os_writer st) of
        (Inl e, w) \<Rightarrow> (Some e, st\<lparr>os_writer := w\<rparr>)
      | (Inr _, w) \<Rightarrow>
          let st = st\<lparr>os_writer := w, os_since_flush := os_since_flush st + 1\<rparr>;
              result = (case sync of
                  Buffered \<Rightarrow> None
                | GroupCommit records \<Rightarrow>
                    if max records 1 \<le> os_since_flush st then Some (journal_flush K w) else None
                | Durable \<Rightarrow> Some (journal_sync K w))
          in (case result of
                Some (Inl e, w) \<Rightarrow> (Some e, st\<lparr>os_writer := w\<rparr>)
              | Some (Inr _, w) \<Rightarrow> (None, st\<lparr>os_writer := w, os_since_flush := 0\<rparr>)
              | None \<Rightarrow> (None, st)))"

text \<open>One turn of the loop, for an event that was in the queue or one that was waited for, and the loop over all
  events until the queue is closed, which is found when it is empty.  The first error ends it.\<close>

definition output_step ::
  "(byte list \<Rightarrow> nat) \<Rightarrow> 'k sink_ops \<Rightarrow> journal_sync_mode \<Rightarrow> bool \<times> output_event \<Rightarrow> 'k output_state \<Rightarrow>
   journal_error option \<times> 'k output_state" where
  "output_step crc K sync arrival st =
     (case arrival of (waited, event) \<Rightarrow>
       (case (if waited then publish_group K sync st else (None, st)) of
          (Some e, st) \<Rightarrow> (Some e, st)
        | (None, st) \<Rightarrow> journal_event crc K sync event st))"

fun output_run ::
  "(byte list \<Rightarrow> nat) \<Rightarrow> 'k sink_ops \<Rightarrow> journal_sync_mode \<Rightarrow> (bool \<times> output_event) list \<Rightarrow> 'k output_state \<Rightarrow>
   journal_error option \<times> 'k output_state" where
  "output_run crc K sync [] st = (None, st)"
| "output_run crc K sync (arrival # arrivals) st =
     (case output_step crc K sync arrival st of
        (Some e, st) \<Rightarrow> (Some e, st)
      | (None, st) \<Rightarrow> output_run crc K sync arrivals st)"

definition output_thread ::
  "(byte list \<Rightarrow> nat) \<Rightarrow> 'k sink_ops \<Rightarrow> journal_sync_mode \<Rightarrow> (bool \<times> output_event) list \<Rightarrow> 'k journal_writer \<Rightarrow>
   journal_error option \<times> 'k output_state" where
  "output_thread crc K sync arrivals w =
     (let (error, st) = (case output_run crc K sync arrivals \<lparr>os_writer = w, os_since_flush = 0, os_recorded = []\<rparr> of
            (Some e, st) \<Rightarrow> (Some e, st)
          | (None, st) \<Rightarrow> publish_group K sync st);
          (synced, w) = journal_sync K (os_writer st)
      in (case error of Some e \<Rightarrow> Some e | None \<Rightarrow> as_error synced, st\<lparr>os_writer := w\<rparr>))"

end
