(* ===== verification/Journal_Inv.thy ===== *)
theory Journal_Inv
  imports Journal
begin

text \<open>
  The lemmas on the journal: records and streams of records cut at any byte, the recovery, the locale of the
  sink's laws with the writer and the output thread over any sink, the tail, and a sink in memory.
\<close>

section \<open>Records\<close>

definition record_bytes :: "(byte list \<Rightarrow> nat) \<Rightarrow> output_event \<Rightarrow> byte list" where
  "record_bytes crc ev = le_bytes 4 (length (output_bytes ev)) @ output_bytes ev @ le_bytes 4 (crc (output_bytes ev))"

definition records_bytes :: "(byte list \<Rightarrow> nat) \<Rightarrow> output_event list \<Rightarrow> byte list" where
  "records_bytes crc events = concat (map (record_bytes crc) events)"

lemma records_bytes_simps [simp]:
  "records_bytes crc [] = []" "records_bytes crc (ev # events) = record_bytes crc ev @ records_bytes crc events"
  "records_bytes crc (events @ others) = records_bytes crc events @ records_bytes crc others"
  by (simp_all add: records_bytes_def)

lemma length_output_bytes: "0 < length (output_bytes ev) \<and> length (output_bytes ev) \<le> 125"
proof -
  have "length (state_event_fields x) \<le> 5" for x by (cases x) simp_all
  then show ?thesis
    by (cases ev) (simp_all add: output_bytes_def trade_bytes_def report_bytes_def state_bytes_def state_event_bytes_def
      add.commute [of _ "length (state_event_fields _)"] le_trans [of _ 5] trans_le_add1)
qed

lemma length_record_bytes: "length (record_bytes crc ev) = 8 + length (output_bytes ev)"
  by (simp add: record_bytes_def)

lemma record_len: "le_value (take 4 (record_bytes crc ev @ rest)) = length (output_bytes ev)"
  using length_output_bytes [of ev] by (simp add: record_bytes_def)

lemma check_record_whole:
  assumes "output_fits ev" "\<And>bs. crc bs < 2 ^ 32"
  shows "check_record crc (record_bytes crc ev @ rest) = Good ev (length (record_bytes crc ev))"
proof -
  note len = length_output_bytes [of ev]
  have crc: "crc (output_bytes ev) mod 256 ^ 4 = crc (output_bytes ev)" using assms(2) [of "output_bytes ev"] by simp
  have dec: "decode_output (output_bytes ev) = Inr (ev, length (output_bytes ev))"
    using canonical.round_trip [OF assms(1), of "[]"] len by simp
  show ?thesis
    unfolding check_record_def record_len
    using len crc dec by (simp add: record_bytes_def Let_def max_record_len_def)
qed

lemma check_record_cut:
  assumes "n < length (record_bytes crc ev)"
  shows "check_record crc (take n (record_bytes crc ev)) = Short"
proof (cases "n < 4")
  case False
  then have "take 4 (take n (record_bytes crc ev)) = take 4 (record_bytes crc ev @ [])" by simp
  then have "le_value (take 4 (take n (record_bytes crc ev))) = length (output_bytes ev)" by (simp only: record_len)
  then show ?thesis
    unfolding check_record_def
    using assms False length_output_bytes [of ev] by (simp add: Let_def max_record_len_def length_record_bytes)
qed (simp add: check_record_def min_def)

lemma records_take_le: "length (records_bytes crc (take j events)) \<le> length (records_bytes crc events)"
  by (induction events arbitrary: j) (auto simp: take_Cons')

lemma records_take_less:
  "m < j \<Longrightarrow> j \<le> length events \<Longrightarrow>
     length (records_bytes crc (take m events)) + length (record_bytes crc (events ! m)) \<le> length (records_bytes crc (take j events))"
  by (induction events arbitrary: m j) (auto simp: take_Cons' nth_Cons')

text \<open>What is left of a stream of records after a cut at any byte.\<close>

lemma take_records:
  "\<exists>m k. take n (records_bytes crc events) =
       records_bytes crc (take m events) @ (if m < length events then take k (record_bytes crc (events ! m)) else []) \<and>
     m \<le> length events \<and> (m < length events \<longrightarrow> k < length (record_bytes crc (events ! m)))"
proof (induction events arbitrary: n)
  case (Cons ev events)
  show ?case
  proof (cases "n < length (record_bytes crc ev)")
    case True
    then show ?thesis by (intro exI [of _ 0] exI [of _ n]) simp
  next
    case False
    from Cons.IH [of "n - length (record_bytes crc ev)"] obtain m k where
      "take (n - length (record_bytes crc ev)) (records_bytes crc events) =
       records_bytes crc (take m events) @ (if m < length events then take k (record_bytes crc (events ! m)) else [])"
      "m \<le> length events" "m < length events \<longrightarrow> k < length (record_bytes crc (events ! m))" by blast
    then show ?thesis using False by (intro exI [of _ "Suc m"] exI [of _ k]) simp
  qed
qed simp

lemma cut_records:
  obtains m rest where "take n (records_bytes crc events) = records_bytes crc (take m events) @ rest" "m \<le> length events"
    "m < length events \<longrightarrow> length rest < length (record_bytes crc (events ! m))"
    "rest \<noteq> [] \<longrightarrow> check_record crc rest = Short"
proof -
  obtain m k where cut: "take n (records_bytes crc events) =
       records_bytes crc (take m events) @ (if m < length events then take k (record_bytes crc (events ! m)) else [])"
    and m: "m \<le> length events" "m < length events \<longrightarrow> k < length (record_bytes crc (events ! m))"
    using take_records by blast
  show ?thesis
    by (rule that [OF cut m(1)]) (use m(2) in \<open>auto simp: check_record_cut\<close>)
qed

section \<open>Recovery\<close>

lemma recover_records:
  assumes "\<And>bs. crc bs < 2 ^ 32" "list_all output_fits events"
    "rest = [] \<and> t = None \<or> rest \<noteq> [] \<and> check_record crc rest = Short \<and> t = Some (offset + length (records_bytes crc events))"
  shows "recover crc offset (records_bytes crc events @ rest) = (events, t)"
  using assms(2,3)
proof (induction events arbitrary: offset)
  case Nil
  then show ?case by (subst recover.simps) auto
next
  case (Cons ev events)
  have ne: "record_bytes crc ev \<noteq> []" using length_record_bytes [of crc ev] by auto
  show ?case
    by (subst recover.simps)
      (use Cons ne check_record_whole [of ev crc "records_bytes crc events @ rest", OF _ assms(1)] in
        \<open>simp add: add.assoc\<close>)
qed

lemma journal_header_simps:
  "length (journal_header run_id) = 24" "header_check (journal_header run_id @ bytes) = None"
  "run_id < 2 ^ 128 \<Longrightarrow> le_value (drop 8 (journal_header run_id)) = run_id"
proof -
  show "length (journal_header run_id) = 24" by (simp add: journal_header_def journal_magic_def)
  show "header_check (journal_header run_id @ bytes) = None"
    by (simp add: journal_header_def journal_magic_def header_check_def journal_header_len_def journal_version_def
        take_append drop_append del: le_bytes.simps)
  show "le_value (drop 8 (journal_header run_id)) = run_id" if "run_id < 2 ^ 128"
    using that by (simp add: journal_header_def journal_magic_def drop_append del: le_bytes.simps)
qed

lemma read_journal_records:
  assumes "\<And>bs. crc bs < 2 ^ 32" "list_all output_fits events" "run_id < 2 ^ 128"
    "rest = [] \<and> t = None \<or> rest \<noteq> [] \<and> check_record crc rest = Short \<and> t = Some (24 + length (records_bytes crc events))"
  shows "read_journal crc (journal_header run_id @ records_bytes crc events @ rest) =
    Inr \<lparr>jr_run_id = run_id, jr_events = events, jr_truncated_at = t\<rparr>"
  using recover_records [of crc events rest t 24, OF assms(1,2)] assms(4)
  by (simp add: read_journal_def journal_header_simps(1,2) journal_header_simps(3) [OF assms(3)] journal_header_len_def)

section \<open>Sinks\<close>

text \<open>What is used of a sink: a write appends its bytes, or a first part of them when it fails; the visible bytes
  are a first part of the written ones and never shrink; and a flush makes all of them visible.\<close>

locale byte_sink =
  fixes K :: "'k sink_ops" and written :: "'k \<Rightarrow> byte list" and visible :: "'k \<Rightarrow> byte list"
  assumes sink_write: "sk_write_all K bs k = (ok, k') \<Longrightarrow>
      \<exists>n. written k' = written k @ take n bs \<and> (ok \<longrightarrow> length bs \<le> n) \<and> prefix (visible k) (visible k')"
    and sink_flush: "sk_flush K k = (ok, k') \<Longrightarrow>
      written k' = written k \<and> prefix (visible k) (visible k') \<and> (ok \<longrightarrow> visible k' = written k')"
    and sink_sync: "sk_sync_data K k = (ok, k') \<Longrightarrow> written k' = written k \<and> visible k' = visible k"
begin

lemma then_write:
  assumes "written (snd r) = base @ take n a" "fst r \<longrightarrow> length a \<le> n" "prefix v (visible (snd r))"
    "sink_then r (sk_write_all K b) = (ok, k')"
  shows "\<exists>n. written k' = base @ take n (a @ b) \<and> (ok \<longrightarrow> length (a @ b) \<le> n) \<and> prefix v (visible k')"
proof (cases "fst r")
  case True
  then have "sk_write_all K b (snd r) = (ok, k')" using assms(4) by (simp add: sink_then_def)
  from sink_write [OF this] obtain j where "written k' = written (snd r) @ take j b" "ok \<longrightarrow> length b \<le> j"
    "prefix (visible (snd r)) (visible k')" by blast
  then show ?thesis
    using assms(1-3) True by (intro exI [of _ "length a + j"]) (auto intro: prefix_order.trans)
next
  case False
  then have "k' = snd r" "\<not> ok" using assms(4) by (auto simp: sink_then_def)
  then show ?thesis using assms(1,3) by (intro exI [of _ "min n (length a)"]) (simp add: min_def)
qed

lemma append_written:
  assumes "journal_append crc K ev w = (r, w')"
  shows "\<exists>n. written (jw_sink w') = written (jw_sink w) @ take n (record_bytes crc ev) \<and>
    (r = Inr () \<longrightarrow> length (record_bytes crc ev) \<le> n) \<and> prefix (visible (jw_sink w)) (visible (jw_sink w'))"
proof -
  have len: "length (output_bytes ev) mod 2 ^ 32 = length (output_bytes ev)"
    using length_output_bytes [of ev] by simp
  let ?r1 = "sk_write_all K (le_bytes 4 (length (output_bytes ev))) (jw_sink w)"
  let ?r2 = "sink_then ?r1 (sk_write_all K (output_bytes ev))"
  let ?r3 = "sink_then ?r2 (sk_write_all K (le_bytes 4 (crc (output_bytes ev))))"
  obtain ok k where r3: "?r3 = (ok, k)" by (cases ?r3)
  have w': "r = (if ok then Inr () else Inl JournalIo)" "jw_sink w' = k"
    using assms r3 unfolding journal_append_def Let_def encode_output_def append_Nil len by (auto split: if_splits)
  obtain n1 where r1: "written (snd ?r1) = written (jw_sink w) @ take n1 (le_bytes 4 (length (output_bytes ev)))"
      "fst ?r1 \<longrightarrow> length (le_bytes 4 (length (output_bytes ev))) \<le> n1" "prefix (visible (jw_sink w)) (visible (snd ?r1))"
    using sink_write [of "le_bytes 4 (length (output_bytes ev))" "jw_sink w" "fst ?r1" "snd ?r1"] by auto
  obtain n2 where r2: "written (snd ?r2) = written (jw_sink w) @ take n2 (le_bytes 4 (length (output_bytes ev)) @ output_bytes ev)"
      "fst ?r2 \<longrightarrow> length (le_bytes 4 (length (output_bytes ev)) @ output_bytes ev) \<le> n2"
      "prefix (visible (jw_sink w)) (visible (snd ?r2))"
    using then_write [OF r1, of "output_bytes ev" "fst ?r2" "snd ?r2"] by auto
  show ?thesis using then_write [OF r2 r3] unfolding w' record_bytes_def append_assoc by (cases ok) simp_all
qed

lemma flush_written:
  assumes "journal_flush K w = (r, w')"
  shows "written (jw_sink w') = written (jw_sink w)" "prefix (visible (jw_sink w)) (visible (jw_sink w'))"
    "r = Inr () \<Longrightarrow> visible (jw_sink w') = written (jw_sink w')"
  using assms sink_flush [of "jw_sink w" "fst (sk_flush K (jw_sink w))" "snd (sk_flush K (jw_sink w))"]
  by (auto simp: journal_flush_def split: prod.splits if_splits)

lemma sync_written:
  assumes "journal_sync K w = (r, w')"
  shows "written (jw_sink w') = written (jw_sink w)" "prefix (visible (jw_sink w)) (visible (jw_sink w'))"
    "r = Inr () \<Longrightarrow> visible (jw_sink w') = written (jw_sink w')"
proof -
  obtain ok k where f: "sk_flush K (jw_sink w) = (ok, k)" by (cases "sk_flush K (jw_sink w)")
  obtain ok' k' where s: "sk_sync_data K k = (ok', k')" by (cases "sk_sync_data K k")
  note facts = sink_flush [OF f] sink_sync [OF s]
  show "written (jw_sink w') = written (jw_sink w)" "prefix (visible (jw_sink w)) (visible (jw_sink w'))"
    "r = Inr () \<Longrightarrow> visible (jw_sink w') = written (jw_sink w')"
    using assms facts f s by (auto simp: journal_sync_def sink_then_def split: if_splits)
qed

lemma publish_written:
  assumes "publish_group K sync st = (e, st')"
  shows "written (jw_sink (os_writer st')) = written (jw_sink (os_writer st))" "os_recorded st' = os_recorded st"
    "prefix (visible (jw_sink (os_writer st))) (visible (jw_sink (os_writer st')))"
    "e = None \<Longrightarrow> os_since_flush st' = os_since_flush st \<or>
       os_since_flush st' = 0 \<and> visible (jw_sink (os_writer st')) = written (jw_sink (os_writer st'))"
proof -
  obtain r w where f: "journal_flush K (os_writer st) = (r, w)" by (cases "journal_flush K (os_writer st)")
  show "written (jw_sink (os_writer st')) = written (jw_sink (os_writer st))" "os_recorded st' = os_recorded st"
    "prefix (visible (jw_sink (os_writer st))) (visible (jw_sink (os_writer st')))"
    "e = None \<Longrightarrow> os_since_flush st' = os_since_flush st \<or>
       os_since_flush st' = 0 \<and> visible (jw_sink (os_writer st')) = written (jw_sink (os_writer st'))"
    using assms f flush_written [OF f]
    by (auto simp: publish_group_def split: journal_sync_mode.splits if_splits sum.splits)
qed

text \<open>An event is journalled whole, or the error ends the journal inside its record.\<close>

lemma event_written:
  assumes "journal_event crc K sync ev st = (e, st')"
  shows "os_recorded st' = os_recorded st @ [ev]" "prefix (visible (jw_sink (os_writer st))) (visible (jw_sink (os_writer st')))"
    "\<exists>n. written (jw_sink (os_writer st')) = written (jw_sink (os_writer st)) @ take n (record_bytes crc ev) \<and>
       (e = None \<longrightarrow> length (record_bytes crc ev) \<le> n)"
    "e = None \<Longrightarrow> os_since_flush st' = os_since_flush st + 1 \<and>
         (\<forall>n. sync = GroupCommit n \<longrightarrow> os_since_flush st + 1 < max n 1) \<and> sync \<noteq> Durable \<or>
       os_since_flush st' = 0 \<and> visible (jw_sink (os_writer st')) = written (jw_sink (os_writer st'))"
proof -
  obtain r w where a: "journal_append crc K ev (os_writer st) = (r, w)" by (cases "journal_append crc K ev (os_writer st)")
  obtain r1 w1 where f: "journal_flush K w = (r1, w1)" by (cases "journal_flush K w")
  obtain r2 w2 where y: "journal_sync K w = (r2, w2)" by (cases "journal_sync K w")
  note [simp] = journal_event_def a f y
  note facts = flush_written [OF f] sync_written [OF y] append_written [OF a]
  show "os_recorded st' = os_recorded st @ [ev]"
    using assms by (auto simp: Let_def split: sum.splits journal_sync_mode.splits if_splits)
  show "prefix (visible (jw_sink (os_writer st))) (visible (jw_sink (os_writer st')))"
    using assms facts
    by (auto simp: Let_def split: sum.splits journal_sync_mode.splits if_splits intro: prefix_order.trans)
  obtain n where n: "written (jw_sink w) = written (jw_sink (os_writer st)) @ take n (record_bytes crc ev)"
    "r = Inr () \<longrightarrow> length (record_bytes crc ev) \<le> n" using append_written [OF a] by blast
  show "\<exists>n. written (jw_sink (os_writer st')) = written (jw_sink (os_writer st)) @ take n (record_bytes crc ev) \<and>
       (e = None \<longrightarrow> length (record_bytes crc ev) \<le> n)"
    using assms facts(1,4) n
    by (intro exI [of _ n]) (auto simp: Let_def split: sum.splits journal_sync_mode.splits if_splits)
  show "e = None \<Longrightarrow> os_since_flush st' = os_since_flush st + 1 \<and>
         (\<forall>n. sync = GroupCommit n \<longrightarrow> os_since_flush st + 1 < max n 1) \<and> sync \<noteq> Durable \<or>
       os_since_flush st' = 0 \<and> visible (jw_sink (os_writer st')) = written (jw_sink (os_writer st'))"
    using assms facts
    by (auto simp: Let_def split: sum.splits journal_sync_mode.splits if_splits)
qed

lemma step_written:
  assumes "output_step crc K sync (waited, ev) st = (e, st')" "written (jw_sink (os_writer st)) = H @ records_bytes crc (os_recorded st)"
  shows "(os_recorded st' = os_recorded st @ [ev] \<or> e \<noteq> None \<and> os_recorded st' = os_recorded st) \<and>
    (written (jw_sink (os_writer st')) = H @ records_bytes crc (os_recorded st') \<or>
     e \<noteq> None \<and> (\<exists>n < length (record_bytes crc ev). os_recorded st' = os_recorded st @ [ev] \<and>
       written (jw_sink (os_writer st')) = H @ records_bytes crc (os_recorded st) @ take n (record_bytes crc ev)))"
proof -
  obtain e1 st1 where p: "(if waited then publish_group K sync st else (None, st)) = (e1, st1)"
    by (cases "if waited then publish_group K sync st else (None, st)")
  have rec1: "os_recorded st1 = os_recorded st \<and> written (jw_sink (os_writer st1)) = written (jw_sink (os_writer st))"
  proof (cases waited)
    case True
    then have "publish_group K sync st = (e1, st1)" using p by simp
    from publish_written(1,2) [OF this] show ?thesis by simp
  qed (use p in simp)
  have st1: "written (jw_sink (os_writer st1)) = H @ records_bytes crc (os_recorded st)"
    using rec1 assms(2) by simp
  show ?thesis
  proof (cases e1)
    case None
    then have ev: "journal_event crc K sync ev st1 = (e, st')" using assms(1) p by (simp add: output_step_def)
    from event_written(3) [OF ev] obtain n where
      n: "written (jw_sink (os_writer st')) = written (jw_sink (os_writer st1)) @ take n (record_bytes crc ev)"
        "e = None \<longrightarrow> length (record_bytes crc ev) \<le> n" by blast
    have rec: "os_recorded st' = os_recorded st @ [ev]" using event_written(1) [OF ev] rec1 by simp
    show ?thesis
    proof (cases "n < length (record_bytes crc ev)")
      case True
      then have "e \<noteq> None" using n(2) by (simp add: not_le)
      then show ?thesis
        by (rule conjI [OF disjI1 [OF rec] disjI2 [OF conjI [OF _ exI [of _ n]]]]) (simp add: True rec n(1) st1)
    next
      case False
      then have "written (jw_sink (os_writer st')) = H @ records_bytes crc (os_recorded st')"
        unfolding rec n(1) st1 by simp
      then show ?thesis by (rule conjI [OF disjI1 [OF rec] disjI1])
    qed
  next
    case (Some x)
    then have "e = Some x" "st' = st1" using assms(1) p by (simp_all add: output_step_def)
    then show ?thesis using st1 rec1 by simp
  qed
qed

lemma run_written:
  assumes "output_run crc K sync arrivals st = (e, st')" "written (jw_sink (os_writer st)) = H @ records_bytes crc (os_recorded st)"
  shows "(e = None \<longrightarrow> os_recorded st' = os_recorded st @ map snd arrivals) \<and>
    prefix (os_recorded st') (os_recorded st @ map snd arrivals) \<and>
    (written (jw_sink (os_writer st')) = H @ records_bytes crc (os_recorded st') \<or>
     e \<noteq> None \<and> (\<exists>whole ev n. n < length (record_bytes crc ev) \<and> os_recorded st' = whole @ [ev] \<and>
       written (jw_sink (os_writer st')) = H @ records_bytes crc whole @ take n (record_bytes crc ev)))"
  using assms
proof (induction arrivals arbitrary: st)
  case (Cons arrival arrivals)
  obtain waited ev where a: "arrival = (waited, ev)" by (cases arrival)
  obtain e1 st1 where step: "output_step crc K sync (waited, ev) st = (e1, st1)"
    by (cases "output_step crc K sync (waited, ev) st")
  note eff = step_written [OF step Cons.prems(2)]
  show ?case
  proof (cases e1)
    case None
    then have run: "output_run crc K sync arrivals st1 = (e, st')" using Cons.prems(1) a step by simp
    have st1: "os_recorded st1 = os_recorded st @ [ev]" "written (jw_sink (os_writer st1)) = H @ records_bytes crc (os_recorded st1)"
      using eff None by auto
    show ?thesis using Cons.IH [OF run st1(2)] by (simp add: a st1(1))
  next
    case (Some x)
    then show ?thesis using Cons.prems(1) a step eff by (auto simp: prefix_def)
  qed
qed auto

end

text \<open>With a commit bound, the records not yet visible are the last ones and fewer than the bound.\<close>

definition lagging ::
  "('k \<Rightarrow> byte list) \<Rightarrow> ('k \<Rightarrow> byte list) \<Rightarrow> (byte list \<Rightarrow> nat) \<Rightarrow> byte list \<Rightarrow> 'k output_state \<Rightarrow> bool" where
  "lagging written visible crc H st \<longleftrightarrow>
     written (jw_sink (os_writer st)) = H @ records_bytes crc (os_recorded st) \<and>
     (\<exists>R1 R2. os_recorded st = R1 @ R2 \<and> length R2 = os_since_flush st \<and>
        prefix (H @ records_bytes crc R1) (visible (jw_sink (os_writer st))))"

context byte_sink
begin

lemma lagging_caught_up:
  assumes "written (jw_sink (os_writer st)) = H @ records_bytes crc (os_recorded st)" "os_since_flush st = 0"
    "visible (jw_sink (os_writer st)) = written (jw_sink (os_writer st))"
  shows "lagging written visible crc H st"
  unfolding lagging_def using assms by (intro conjI exI [of _ "os_recorded st"] exI [of _ "[]"]) simp_all

lemma event_lagging:
  assumes ev: "journal_event crc K sync ev st = (None, st')" and lag: "lagging written visible crc H st"
    and bound: "sync = Durable \<and> b = 1 \<or> (\<exists>n. sync = GroupCommit n \<and> b = max n 1)"
  shows "lagging written visible crc H st' \<and> os_since_flush st' < b"
proof -
  obtain R1 R2 where R: "os_recorded st = R1 @ R2" "length R2 = os_since_flush st"
    "prefix (H @ records_bytes crc R1) (visible (jw_sink (os_writer st)))" using lag unfolding lagging_def by blast
  obtain n where "written (jw_sink (os_writer st')) = written (jw_sink (os_writer st)) @ take n (record_bytes crc ev)"
    "length (record_bytes crc ev) \<le> n" using event_written(3) [OF ev] by blast
  then have wr: "written (jw_sink (os_writer st')) = H @ records_bytes crc (os_recorded st')"
    using lag event_written(1) [OF ev] unfolding lagging_def by simp
  consider "os_since_flush st' = os_since_flush st + 1" "os_since_flush st + 1 < b" |
    "os_since_flush st' = 0" "visible (jw_sink (os_writer st')) = written (jw_sink (os_writer st'))"
    using event_written(4) [OF ev] bound by auto
  then show ?thesis
  proof cases
    case 1
    have "prefix (H @ records_bytes crc R1) (visible (jw_sink (os_writer st')))"
      by (rule prefix_order.trans [OF R(3) event_written(2) [OF ev]])
    then show ?thesis
      unfolding lagging_def using 1 wr R(1,2) event_written(1) [OF ev]
      by (intro conjI exI [of _ R1] exI [of _ "R2 @ [ev]"]) simp_all
  next
    case 2
    then show ?thesis using lagging_caught_up [OF wr] bound by auto
  qed
qed

lemma publish_lagging:
  assumes p: "publish_group K sync st = (None, st')" and lag: "lagging written visible crc H st"
  shows "lagging written visible crc H st'"
proof -
  note pub = publish_written [OF p]
  have wr: "written (jw_sink (os_writer st')) = H @ records_bytes crc (os_recorded st')"
    using lag pub(1,2) unfolding lagging_def by simp
  consider "os_since_flush st' = os_since_flush st" |
    "os_since_flush st' = 0" "visible (jw_sink (os_writer st')) = written (jw_sink (os_writer st'))"
    using pub(4) by auto
  then show ?thesis
  proof cases
    case 1
    then show ?thesis
      using lag wr pub(2,3) unfolding lagging_def by (metis prefix_order.trans)
  qed (rule lagging_caught_up [OF wr])
qed

lemma run_lagging:
  assumes "sync = Durable \<and> b = 1 \<or> (\<exists>n. sync = GroupCommit n \<and> b = max n 1)"
  shows "output_run crc K sync arrivals st = (None, st') \<Longrightarrow> lagging written visible crc H st \<Longrightarrow> os_since_flush st < b \<Longrightarrow>
    lagging written visible crc H st' \<and> os_since_flush st' < b"
proof (induction arrivals arbitrary: st)
  case (Cons arrival arrivals)
  obtain waited ev where a: "arrival = (waited, ev)" by (cases arrival)
  obtain st1 where step: "output_step crc K sync (waited, ev) st = (None, st1)"
    and run: "output_run crc K sync arrivals st1 = (None, st')"
    using Cons.prems(1) by (auto simp: a split: prod.splits option.splits)
  obtain st0 where st0: "lagging written visible crc H st0" and ev: "journal_event crc K sync ev st0 = (None, st1)"
  proof (cases waited)
    case True
    then obtain st0 where "publish_group K sync st = (None, st0)" "journal_event crc K sync ev st0 = (None, st1)"
      using step by (auto simp: output_step_def split: prod.splits option.splits)
    then show ?thesis using publish_lagging [OF _ Cons.prems(2)] that by blast
  next
    case False
    then show ?thesis using step Cons.prems(2) that by (simp add: output_step_def)
  qed
  show ?case using Cons.IH [OF run] event_lagging [OF ev st0 assms] by blast
qed simp

lemma new_writer:
  assumes "with_sink K on_disk k run_id = Inr w" "written k = []"
  shows "written (jw_sink w) = journal_header run_id" "visible (jw_sink w) = journal_header run_id"
proof -
  obtain ok k1 where wr: "sk_write_all K (journal_header run_id) k = (ok, k1)"
    by (cases "sk_write_all K (journal_header run_id) k")
  obtain ok2 k2 where fl: "sk_flush K k1 = (ok2, k2)" by (cases "sk_flush K k1")
  from assms(1) wr fl have ok: "ok" "ok2" "jw_sink w = k2"
    by (auto simp: with_sink_def sink_then_def split: if_splits)
  show "written (jw_sink w) = journal_header run_id" "visible (jw_sink w) = journal_header run_id"
    using sink_write [OF wr] sink_flush [OF fl] assms(2) ok by auto
qed

lemma thread_end:
  assumes "output_thread crc K sync arrivals w = (e, st)"
    "output_run crc K sync arrivals \<lparr>os_writer = w, os_since_flush = 0, os_recorded = []\<rparr> = (e1, st1)"
  shows "os_recorded st = os_recorded st1" "written (jw_sink (os_writer st)) = written (jw_sink (os_writer st1))"
    "e1 \<noteq> None \<longrightarrow> e = e1"
proof -
  obtain e2 st2 where p: "(case e1 of Some e \<Rightarrow> (Some e, st1) | None \<Rightarrow> publish_group K sync st1) = (e2, st2)"
    by (cases "case e1 of Some e \<Rightarrow> (Some e, st1) | None \<Rightarrow> publish_group K sync st1")
  obtain r w2 where y: "journal_sync K (os_writer st2) = (r, w2)" by (cases "journal_sync K (os_writer st2)")
  have st2: "os_recorded st2 = os_recorded st1 \<and> written (jw_sink (os_writer st2)) = written (jw_sink (os_writer st1)) \<and>
    (e1 \<noteq> None \<longrightarrow> e2 = e1)"
  proof (cases e1)
    case None
    then have "publish_group K sync st1 = (e2, st2)" using p by simp
    from publish_written(1,2) [OF this] show ?thesis using None by simp
  qed (use p in simp)
  have "e = (case e2 of Some e \<Rightarrow> Some e | None \<Rightarrow> as_error r)" "st = st2\<lparr>os_writer := w2\<rparr>"
    using assms p y unfolding output_thread_def by (auto simp: Let_def split: option.splits)
  then show "os_recorded st = os_recorded st1" "written (jw_sink (os_writer st)) = written (jw_sink (os_writer st1))"
    "e1 \<noteq> None \<longrightarrow> e = e1"
    using st2 sync_written(1) [OF y] by (auto split: option.splits)
qed

end

section \<open>Following the journal\<close>

lemma tail_read_chunks: "\<forall>c \<in> set chunks. c \<noteq> [] \<Longrightarrow>
    jt_pending (tail_read chunks t) = jt_pending t @ concat chunks \<and> jt_offset (tail_read chunks t) = jt_offset t"
  by (induction chunks arbitrary: t) auto

lemma poll_records_prefix:
  assumes crc: "\<And>bs. crc bs < 2 ^ 32"
  shows "list_all output_fits events \<Longrightarrow> prefix P (records_bytes crc events) \<Longrightarrow>
    \<exists>j \<le> length events. poll_records crc limit offset P = Inr (take j events, length (records_bytes crc (take j events))) \<and>
      length (records_bytes crc (take j events)) \<le> length P \<and>
      (P = records_bytes crc events \<and> length events \<le> limit \<longrightarrow> j = length events)"
proof (induction limit arbitrary: events P offset)
  case 0
  then show ?case by (intro exI [of _ 0]) simp
next
  case (Suc limit)
  show ?case
  proof (cases events)
    case Nil
    then show ?thesis using Suc.prems by (simp add: check_record_def)
  next
    case (Cons ev more_events)
    show ?thesis
    proof (cases "length P < length (record_bytes crc ev)")
      case True
      then have "P = take (length P) (record_bytes crc ev)"
        using Suc.prems(2) Cons by (auto simp: prefix_def append_eq_append_conv_if)
      then have "check_record crc P = Short" using check_record_cut [OF True] by simp
      then show ?thesis using True Cons by (intro exI [of _ 0]) auto
    next
      case False
      obtain zs where zs: "record_bytes crc ev @ records_bytes crc more_events = P @ zs"
        using Suc.prems(2) Cons by (auto simp: prefix_def)
      define P' where "P' = drop (length (record_bytes crc ev)) P"
      have "take (length (record_bytes crc ev)) P = record_bytes crc ev"
        using arg_cong [OF zs, of "take (length (record_bytes crc ev))"] False by simp
      then have P: "P = record_bytes crc ev @ P'" by (metis P'_def append_take_drop_id)
      then have P': "prefix P' (records_bytes crc more_events)" using zs by simp
      have ev: "output_fits ev" "list_all output_fits more_events" using Suc.prems(1) Cons by simp_all
      obtain j where j: "j \<le> length more_events"
        "poll_records crc limit (offset + length (record_bytes crc ev)) P' =
           Inr (take j more_events, length (records_bytes crc (take j more_events)))"
        "length (records_bytes crc (take j more_events)) \<le> length P'"
        "P' = records_bytes crc more_events \<and> length more_events \<le> limit \<longrightarrow> j = length more_events"
        using Suc.IH [OF ev(2) P'] by blast
      then show ?thesis
        using check_record_whole [of ev crc P', OF ev(1) crc] Cons P by (intro exI [of _ "Suc j"]) simp
    qed
  qed
qed

text \<open>A reader that polls again and again, each time with a limit and the chunks that its reads returned.\<close>

fun tail_polls ::
  "(byte list \<Rightarrow> nat) \<Rightarrow> (nat \<times> byte list list) list \<Rightarrow> journal_tail \<Rightarrow>
   (journal_error + output_event list) list \<times> journal_tail" where
  "tail_polls crc [] t = ([], t)"
| "tail_polls crc ((limit, chunks) # polls) t =
     (case tail_poll crc limit chunks t of (r, t') \<Rightarrow>
        (case tail_polls crc polls t' of (rs, t'') \<Rightarrow> (r # rs, t'')))"

lemma records_split: "records_bytes crc events = records_bytes crc (take i events) @ records_bytes crc (drop i events)"
  by (metis append_take_drop_id records_bytes_simps(3))

text \<open>One poll returns whole records and keeps the bytes behind them.\<close>

lemma tail_poll_prefix:
  assumes crc: "\<And>bs. crc bs < 2 ^ 32" and fits: "list_all output_fits events" and chunks: "[] \<notin> set chunks"
    and pre: "prefix (jt_pending t @ concat chunks @ later) (records_bytes crc events)"
  obtains i t1 where "tail_poll crc limit chunks t = (Inr (take i events), t1)" "i \<le> length events"
    "jt_offset t1 = jt_offset t + length (records_bytes crc (take i events))"
    "jt_pending t @ concat chunks @ later = records_bytes crc (take i events) @ jt_pending t1 @ later"
    "jt_pending t @ concat chunks = records_bytes crc events \<and> length events \<le> limit \<longrightarrow> i = length events"
proof -
  let ?t = "tail_read chunks t"
  have t: "jt_pending ?t = jt_pending t @ concat chunks" "jt_offset ?t = jt_offset t"
    using tail_read_chunks [of chunks t] chunks by auto
  have now: "prefix (jt_pending ?t) (records_bytes crc events)"
    using pre unfolding t(1) append_assoc [symmetric] by (rule append_prefixD)
  from poll_records_prefix [where crc = crc, OF crc fits now, of limit "jt_offset ?t"]
  obtain i where i: "i \<le> length events"
    "poll_records crc limit (jt_offset ?t) (jt_pending ?t) = Inr (take i events, length (records_bytes crc (take i events)))"
    "length (records_bytes crc (take i events)) \<le> length (jt_pending ?t)"
    "jt_pending ?t = records_bytes crc events \<and> length events \<le> limit \<longrightarrow> i = length events" by blast
  let ?n = "length (records_bytes crc (take i events))"
  define t1 where "t1 = snd (tail_poll crc limit chunks t)"
  have poll: "tail_poll crc limit chunks t = (Inr (take i events), t1)" "jt_offset t1 = jt_offset t + ?n"
    "jt_pending t1 = drop ?n (jt_pending ?t)"
    using i(2) t(2) by (simp_all add: tail_poll_def Let_def t1_def)
  obtain zs where "records_bytes crc events = jt_pending ?t @ zs" using now unfolding prefix_def by blast
  then have "take ?n (jt_pending ?t) = take ?n (records_bytes crc (take i events) @ records_bytes crc (drop i events))"
    unfolding records_split [of crc events i, symmetric] using i(3) by simp
  then have "take ?n (jt_pending ?t) = records_bytes crc (take i events)" by simp
  then have "jt_pending ?t = records_bytes crc (take i events) @ jt_pending t1"
    using append_take_drop_id [of ?n "jt_pending ?t"] unfolding poll(3) by simp
  then have "jt_pending t @ concat chunks @ later = records_bytes crc (take i events) @ jt_pending t1 @ later"
    unfolding append_assoc [symmetric] t(1) [symmetric] by simp
  from that [OF poll(1) i(1) poll(2) this] i(4) show ?thesis unfolding t(1) by blast
qed

lemma tail_polls_prefix:
  assumes crc: "\<And>bs. crc bs < 2 ^ 32"
  shows "list_all output_fits events \<Longrightarrow> \<forall>(limit, chunks) \<in> set polls. [] \<notin> set chunks \<Longrightarrow>
    prefix (jt_pending t @ concat (concat (map snd polls))) (records_bytes crc events) \<Longrightarrow>
    \<exists>batches j t'. tail_polls crc polls t = (map Inr batches, t') \<and> j \<le> length events \<and> concat batches = take j events \<and>
      jt_offset t' = jt_offset t + length (records_bytes crc (take j events)) \<and>
      (polls \<noteq> [] \<and> length events \<le> fst (last polls) \<and>
         jt_pending t @ concat (concat (map snd polls)) = records_bytes crc events \<longrightarrow> j = length events)"
proof (induction polls arbitrary: t events)
  case Nil
  then show ?case by (intro exI [of _ "[]"] exI [of _ 0]) simp
next
  case (Cons poll polls)
  obtain limit chunks where p: "poll = (limit, chunks)" by (cases poll)
  let ?later = "concat (concat (map snd polls))"
  have all: "jt_pending t @ concat (concat (map snd (poll # polls))) = jt_pending t @ concat chunks @ ?later" by (simp add: p)
  have pre: "prefix (jt_pending t @ concat chunks @ ?later) (records_bytes crc events)" using Cons.prems(3) unfolding all .
  have nonempty: "[] \<notin> set chunks" using Cons.prems(2) p by simp
  obtain i t1 where poll: "tail_poll crc limit chunks t = (Inr (take i events), t1)" "i \<le> length events"
    "jt_offset t1 = jt_offset t + length (records_bytes crc (take i events))"
    and shift: "jt_pending t @ concat chunks @ ?later = records_bytes crc (take i events) @ jt_pending t1 @ ?later"
    and full: "jt_pending t @ concat chunks = records_bytes crc events \<and> length events \<le> limit \<longrightarrow> i = length events"
    by (rule tail_poll_prefix [where crc = crc, OF crc Cons.prems(1) nonempty pre])
  have pre1: "prefix (jt_pending t1 @ ?later) (records_bytes crc (drop i events))"
    using pre unfolding shift records_split [of crc events i] by simp
  have fits1: "list_all output_fits (drop i events)"
    using Cons.prems(1) by (auto simp: list_all_iff dest: in_set_dropD)
  have chunks1: "\<forall>(limit, chunks) \<in> set polls. [] \<notin> set chunks" using Cons.prems(2) by simp
  obtain batches j t' where IH: "tail_polls crc polls t1 = (map Inr batches, t')" "j \<le> length (drop i events)"
    "concat batches = take j (drop i events)" "jt_offset t' = jt_offset t1 + length (records_bytes crc (take j (drop i events)))"
    "polls \<noteq> [] \<and> length (drop i events) \<le> fst (last polls) \<and>
       jt_pending t1 @ ?later = records_bytes crc (drop i events) \<longrightarrow> j = length (drop i events)"
    using Cons.IH [OF fits1 chunks1 pre1] by blast
  have take: "take (i + j) events = take i events @ take j (drop i events)" by (simp add: take_add)
  show ?case
  proof (intro exI conjI impI)
    show "tail_polls crc (poll # polls) t = (map Inr (take i events # batches), t')" using poll(1) IH(1) by (simp add: p)
    show "i + j \<le> length events" using IH(2) poll(2) by simp
    show "concat (take i events # batches) = take (i + j) events" using IH(3) take by simp
    show "jt_offset t' = jt_offset t + length (records_bytes crc (take (i + j) events))"
      using IH(4) poll(3) take by simp
    assume last: "poll # polls \<noteq> [] \<and> length events \<le> fst (last (poll # polls)) \<and>
         jt_pending t @ concat (concat (map snd (poll # polls))) = records_bytes crc events"
    show "i + j = length events"
    proof (cases polls)
      case Nil
      then have "i = length events" using last full all p by simp
      then show ?thesis using IH(2) by simp
    next
      case (Cons q qs)
      then have "jt_pending t1 @ ?later = records_bytes crc (drop i events)"
        using last unfolding all shift records_split [of crc events i] by simp
      moreover have "length (drop i events) \<le> fst (last polls)"
        using last Cons le_trans [OF diff_le_self, of "length events" "fst (last polls)" i] by simp
      ultimately have "j = length (drop i events)" using IH(5) Cons by blast
      then show ?thesis using poll(2) by simp
    qed
  qed
qed

section \<open>A sink in memory\<close>

text \<open>A buffered sink with room for so many bytes; a write that does not fit is cut and fails.\<close>

record memory_sink =
  ms_room :: nat
  ms_out :: "byte list"
  ms_buffer :: "byte list"

definition memory_ops :: "memory_sink sink_ops" where
  "memory_ops =
     \<lparr>sk_write_all = \<lambda>bs k. (length bs \<le> ms_room k,
        k\<lparr>ms_room := ms_room k - length bs, ms_buffer := ms_buffer k @ take (ms_room k) bs\<rparr>),
      sk_flush = \<lambda>k. (True, k\<lparr>ms_out := ms_out k @ ms_buffer k, ms_buffer := []\<rparr>),
      sk_sync_data = \<lambda>k. (True, k)\<rparr>"

definition memory_written :: "memory_sink \<Rightarrow> byte list" where
  "memory_written k = ms_out k @ ms_buffer k"

interpretation mem: byte_sink memory_ops memory_written ms_out
proof
  fix bs k ok k'
  assume "sk_write_all memory_ops bs k = (ok, k')"
  then show "\<exists>n. memory_written k' = memory_written k @ take n bs \<and> (ok \<longrightarrow> length bs \<le> n) \<and> prefix (ms_out k) (ms_out k')"
    by (intro exI [of _ "ms_room k"]) (auto simp: memory_ops_def memory_written_def)
qed (auto simp: memory_ops_def memory_written_def)

end
