(* ===== verification/Journal_Properties.thy ===== *)
theory Journal_Properties
  imports Journal_Inv Wire_Properties
begin

text \<open>
  The properties of the journal: what the output thread recorded is read back, a crash or a failed write at any
  byte loses nothing before it and invents nothing, a commit bound is kept, and the tail delivers every record
  once and in order however the file grows and however the polls are limited.
\<close>

section \<open>Events for the witnesses\<close>

definition demo_outputs :: "output_event list" where
  "demo_outputs =
     [OutState \<lparr>se_output_seq = 1, se_engine_seq = 1, se_engine_time_ns = 10, se_event = KillSwitchEngaged\<rparr>,
      OutState \<lparr>se_output_seq = 2, se_engine_seq = 2, se_engine_time_ns = 20, se_event = KillSwitchReleased\<rparr>]"

lemma demo_outputs_fit: "list_all output_fits demo_outputs" "length demo_outputs = 2"
  by (simp_all add: demo_outputs_def state_fits_def)

lemma byte_sum_u32: "\<forall>bs. byte_sum bs < 2 ^ 32"
  using byte_sum_bound by blast

section \<open>Properties\<close>

text \<open>C6. The journal holds what the output thread recorded.  After a run of the thread over any sink and in any
  mode, reading back what the sink was given recovers the run identity and, when the thread reports no error,
  exactly the events that arrived; after an error it recovers the recorded events, without the last one when
  the error cut its record.\<close>

theorem journal_holds_outputs:
  assumes "byte_sink K written visible" "\<forall>bs. crc bs < 2 ^ 32" "list_all output_fits (map snd arrivals)" "run_id < 2 ^ 128"
    and "with_sink K on_disk k run_id = Inr w" "written k = []" "output_thread crc K sync arrivals w = (e, st)"
  shows "\<exists>r. read_journal crc (written (jw_sink (os_writer st))) = Inr r \<and> jr_run_id r = run_id \<and>
    prefix (os_recorded st) (map snd arrivals) \<and>
    (jr_events r = os_recorded st \<and> jr_truncated_at r = None \<or> e \<noteq> None \<and> jr_events r = butlast (os_recorded st)) \<and>
    (e = None \<longrightarrow> os_recorded st = map snd arrivals)"
proof -
  note crc = assms(2) [rule_format]
  obtain e1 st1 where run: "output_run crc K sync arrivals \<lparr>os_writer = w, os_since_flush = 0, os_recorded = []\<rparr> = (e1, st1)"
    by (cases "output_run crc K sync arrivals \<lparr>os_writer = w, os_since_flush = 0, os_recorded = []\<rparr>")
  have "written (jw_sink w) = journal_header run_id" by (rule byte_sink.new_writer(1) [OF assms(1,5,6)])
  then have eff: "(e1 = None \<longrightarrow> os_recorded st1 = map snd arrivals) \<and> prefix (os_recorded st1) (map snd arrivals) \<and>
    (written (jw_sink (os_writer st1)) = journal_header run_id @ records_bytes crc (os_recorded st1) \<or>
     e1 \<noteq> None \<and> (\<exists>whole ev n. n < length (record_bytes crc ev) \<and> os_recorded st1 = whole @ [ev] \<and>
       written (jw_sink (os_writer st1)) = journal_header run_id @ records_bytes crc whole @ take n (record_bytes crc ev)))"
    using byte_sink.run_written [OF assms(1) run, of "journal_header run_id"] by simp
  have st: "os_recorded st = os_recorded st1" "written (jw_sink (os_writer st)) = written (jw_sink (os_writer st1))"
      "e1 \<noteq> None \<longrightarrow> e = e1"
    by (rule byte_sink.thread_end [OF assms(1,7) run])+
  obtain zs where "map snd arrivals = os_recorded st1 @ zs" using eff unfolding prefix_def by blast
  then have fits: "list_all output_fits (os_recorded st1)" using assms(3) by (metis list_all_append)
  have rec: "prefix (os_recorded st) (map snd arrivals)" "e = None \<longrightarrow> os_recorded st = map snd arrivals"
    using eff st by auto
  consider (whole) "written (jw_sink (os_writer st1)) = journal_header run_id @ records_bytes crc (os_recorded st1)"
    | (cut) whole ev n where "e1 \<noteq> None" "n < length (record_bytes crc ev)" "os_recorded st1 = whole @ [ev]"
       "written (jw_sink (os_writer st1)) = journal_header run_id @ records_bytes crc whole @ take n (record_bytes crc ev)"
    using eff by blast
  then show ?thesis
  proof cases
    case whole
    have "read_journal crc (written (jw_sink (os_writer st))) =
        Inr \<lparr>jr_run_id = run_id, jr_events = os_recorded st, jr_truncated_at = None\<rparr>"
      using read_journal_records [where crc = crc, OF crc fits assms(4), of "[]" None] st(1,2) whole by simp
    then show ?thesis using rec by simp
  next
    case cut
    let ?rest = "take n (record_bytes crc ev)"
    have "list_all output_fits whole" using fits cut(3) by simp
    then have "read_journal crc (written (jw_sink (os_writer st))) = Inr \<lparr>jr_run_id = run_id, jr_events = whole,
        jr_truncated_at = (if ?rest = [] then None else Some (24 + length (records_bytes crc whole)))\<rparr>"
      unfolding st(2) cut(4)
      by (rule read_journal_records [where crc = crc, OF crc _ assms(4)]) (use check_record_cut [OF cut(2)] in simp)
    moreover have "whole = butlast (os_recorded st)" "e \<noteq> None" using st cut(1,3) by simp_all
    ultimately show ?thesis using rec by simp
  qed
qed

theorem journal_holds_outputs_witness:
  "\<exists>w e st r. with_sink memory_ops False \<lparr>ms_room = 1000, ms_out = [], ms_buffer = []\<rparr> 42 = Inr w \<and>
     output_thread byte_sum memory_ops (GroupCommit 2) (map (Pair True) demo_outputs) w = (e, st) \<and>
     read_journal byte_sum (memory_written (jw_sink (os_writer st))) = Inr r \<and> jr_run_id r = 42"
proof -
  let ?k = "\<lparr>ms_room = 1000, ms_out = [], ms_buffer = []\<rparr>"
  obtain w where w: "with_sink memory_ops False ?k 42 = Inr w"
    by (simp add: with_sink_def sink_then_def memory_ops_def journal_header_simps(1))
  obtain e st where t: "output_thread byte_sum memory_ops (GroupCommit 2) (map (Pair True) demo_outputs) w = (e, st)"
    by (cases "output_thread byte_sum memory_ops (GroupCommit 2) (map (Pair True) demo_outputs) w")
  have "list_all output_fits (map snd (map (Pair True) demo_outputs))" using demo_outputs_fit(1) by (simp add: comp_def)
  moreover have "memory_written ?k = []" "(42 :: nat) < 2 ^ 128" by (simp_all add: memory_written_def)
  ultimately show ?thesis
    using journal_holds_outputs [OF mem.byte_sink_axioms byte_sum_u32 _ _ w _ t] w t by blast
qed

text \<open>C40. With a commit bound the journal lags by less than the bound: as long as the thread reports no error, all
  but the last \<open>n - 1\<close> records are visible to a reader under \<open>GroupCommit n\<close>, and all of them under
  \<open>Durable\<close>.\<close>

theorem commit_bound_kept:
  assumes "byte_sink K written visible" "with_sink K on_disk k run_id = Inr w" "written k = []"
    and "sync = Durable \<and> b = 1 \<or> (\<exists>n. sync = GroupCommit n \<and> b = max n 1)"
    and "output_run crc K sync arrivals \<lparr>os_writer = w, os_since_flush = 0, os_recorded = []\<rparr> = (None, st)"
  shows "\<exists>R1 R2. map snd arrivals = R1 @ R2 \<and> length R2 < b \<and>
    prefix (journal_header run_id @ records_bytes crc R1) (visible (jw_sink (os_writer st)))"
proof -
  note new = byte_sink.new_writer [OF assms(1-3)]
  have "lagging written visible crc (journal_header run_id) \<lparr>os_writer = w, os_since_flush = 0, os_recorded = []\<rparr>"
    unfolding lagging_def using new by simp
  from byte_sink.run_lagging [OF assms(1,4,5) this] assms(4)
  have lag: "lagging written visible crc (journal_header run_id) st" "os_since_flush st < b" by auto
  have "os_recorded st = map snd arrivals"
    using byte_sink.run_written [OF assms(1,5), of "journal_header run_id"] new(1) by simp
  moreover obtain R1 R2 where "os_recorded st = R1 @ R2" "length R2 = os_since_flush st"
      "prefix (journal_header run_id @ records_bytes crc R1) (visible (jw_sink (os_writer st)))"
    using lag(1) unfolding lagging_def by blast
  ultimately show ?thesis using lag(2) by (intro exI [of _ R1] exI [of _ R2]) simp
qed

theorem commit_bound_kept_witness:
  "\<exists>w st. with_sink memory_ops False \<lparr>ms_room = 1000, ms_out = [], ms_buffer = []\<rparr> 42 = Inr w \<and>
     output_run byte_sum memory_ops Durable (map (Pair False) demo_outputs)
       \<lparr>os_writer = w, os_since_flush = 0, os_recorded = []\<rparr> = (None, st) \<and>
     prefix (journal_header 42 @ records_bytes byte_sum demo_outputs) (ms_out (jw_sink (os_writer st)))"
proof -
  let ?k = "\<lparr>ms_room = 1000, ms_out = [], ms_buffer = []\<rparr>"
  obtain w where w: "with_sink memory_ops False ?k 42 = Inr w" "ms_room (jw_sink w) = 976"
    by (simp add: with_sink_def sink_then_def memory_ops_def journal_header_simps(1))
  obtain st where st: "output_run byte_sum memory_ops Durable (map (Pair False) demo_outputs)
       \<lparr>os_writer = w, os_since_flush = 0, os_recorded = []\<rparr> = (None, st)"
    using w(2) by (simp add: demo_outputs_def output_step_def journal_event_def journal_append_def journal_sync_def
      sink_then_def memory_ops_def encode_output_def output_bytes_def state_bytes_def state_event_bytes_def Let_def)
  have "memory_written ?k = []" by (simp add: memory_written_def)
  from commit_bound_kept [OF mem.byte_sink_axioms w(1) this _ st, of 1]
  show ?thesis using w(1) st by (auto simp: comp_def)
qed

text \<open>C38. A journal cut off at any byte after its header, as a crash may leave it, is recovered up to the cut: the
  events read back are a first part of those that were written, every record that is complete before the cut is
  among them, and the cut is reported, at the end of the last complete record, exactly when it is inside a record.\<close>

theorem journal_crash_recovery:
  assumes "\<forall>bs. crc bs < 2 ^ 32" "list_all output_fits events" "run_id < 2 ^ 128"
  shows "\<exists>m \<le> length events.
    read_journal crc (journal_header run_id @ take n (records_bytes crc events)) =
      Inr \<lparr>jr_run_id = run_id, jr_events = take m events,
        jr_truncated_at =
          (if length (records_bytes crc (take m events)) < min n (length (records_bytes crc events))
           then Some (24 + length (records_bytes crc (take m events))) else None)\<rparr> \<and>
    length (records_bytes crc (take m events)) \<le> n \<and>
    (\<forall>j \<le> length events. length (records_bytes crc (take j events)) \<le> n \<longrightarrow> j \<le> m)"
proof -
  have crc: "\<And>bs. crc bs < 2 ^ 32" using assms(1) by simp
  let ?L = "\<lambda>j. length (records_bytes crc (take j events))"
  obtain m rest where cut: "take n (records_bytes crc events) = records_bytes crc (take m events) @ rest"
    and m: "m \<le> length events" "m < length events \<longrightarrow> length rest < length (record_bytes crc (events ! m))"
    and short: "rest \<noteq> [] \<longrightarrow> check_record crc rest = Short"
    by (rule cut_records)
  have len: "min n (length (records_bytes crc events)) = ?L m + length rest"
    using arg_cong [OF cut, of length] by (simp add: min.commute)
  have fits: "list_all output_fits (take m events)" using assms(2) by (auto simp: list_all_iff dest: in_set_takeD)
  have read: "read_journal crc (journal_header run_id @ records_bytes crc (take m events) @ rest) =
      Inr \<lparr>jr_run_id = run_id, jr_events = take m events,
        jr_truncated_at = (if rest = [] then None else Some (24 + ?L m))\<rparr>"
    by (rule read_journal_records [where crc = crc, OF crc fits assms(3)]) (use short in auto)
  have maximal: "j \<le> m" if j: "j \<le> length events" "?L j \<le> n" for j
  proof (rule ccontr)
    assume "\<not> j \<le> m"
    then have mj: "m < j" by simp
    then have "length rest < length (record_bytes crc (events ! m))" using m(2) j(1) by simp
    moreover have "?L j \<le> min n (length (records_bytes crc events))" using j(2) records_take_le by simp
    ultimately show False using records_take_less [OF mj j(1), of crc] unfolding len by linarith
  qed
  have "?L m \<le> n" using len by linarith
  moreover have "(if rest = [] then None else Some (24 + ?L m)) =
      (if ?L m < min n (length (records_bytes crc events)) then Some (24 + ?L m) else None)"
    unfolding len by (cases rest) simp_all
  ultimately show ?thesis
    using m(1) read maximal unfolding cut by (intro exI [of _ m] conjI allI impI) simp_all
qed

theorem journal_crash_recovery_witness:
  "\<exists>m r. m \<le> 2 \<and> read_journal byte_sum (journal_header 42 @ take 40 (records_bytes byte_sum demo_outputs)) = Inr r \<and>
     jr_run_id r = 42 \<and> jr_events r = take m demo_outputs"
proof -
  have "(42 :: nat) < 2 ^ 128" by simp
  from journal_crash_recovery [OF byte_sum_u32 demo_outputs_fit(1) this, of 40]
  show ?thesis unfolding demo_outputs_fit(2) by (metis journal_recovery.select_convs(1,2))
qed

text \<open>C39. A reader that follows the journal gets every record once and in order.  However the bytes of a growing
  journal reach it and whatever limit each poll has, no poll fails, the batches together are a first part of the
  journal's events, the offset stands behind exactly these records, and once all bytes have arrived a poll with
  a sufficient limit has delivered all of them.\<close>

theorem tail_delivers_in_order:
  assumes "\<forall>bs. crc bs < 2 ^ 32" "list_all output_fits events" "\<forall>(limit, chunks) \<in> set polls. [] \<notin> set chunks"
    "prefix (concat (concat (map snd polls))) (records_bytes crc events)"
  shows "\<exists>t batches j t'. tail_open (journal_header run_id) = Inr t \<and> tail_polls crc polls t = (map Inr batches, t') \<and>
    j \<le> length events \<and> concat batches = take j events \<and>
    jt_offset t' = 24 + length (records_bytes crc (take j events)) \<and>
    (polls \<noteq> [] \<and> length events \<le> fst (last polls) \<and> concat (concat (map snd polls)) = records_bytes crc events \<longrightarrow>
       concat batches = events)"
proof -
  let ?t = "\<lparr>jt_offset = 24, jt_pending = [], jt_bytes_read = 0\<rparr>"
  have "tail_open (journal_header run_id) = Inr ?t"
    using journal_header_simps(2) [of run_id "[]"] by (simp add: tail_open_def journal_header_len_def)
  moreover have "prefix (jt_pending ?t @ concat (concat (map snd polls))) (records_bytes crc events)" using assms(4) by simp
  from tail_polls_prefix [where crc = crc, OF assms(1) [rule_format] assms(2,3) this]
  obtain batches j t' where "tail_polls crc polls ?t = (map Inr batches, t')" "j \<le> length events" "concat batches = take j events"
      "jt_offset t' = 24 + length (records_bytes crc (take j events))"
      "polls \<noteq> [] \<and> length events \<le> fst (last polls) \<and> concat (concat (map snd polls)) = records_bytes crc events \<longrightarrow>
         j = length events"
    by auto
  ultimately show ?thesis by (intro exI conjI) auto
qed

theorem tail_delivers_in_order_witness:
  "\<exists>t batches t'. tail_open (journal_header 42) = Inr t \<and>
     tail_polls byte_sum [(1, [take 30 (records_bytes byte_sum demo_outputs)]),
       (2, [drop 30 (records_bytes byte_sum demo_outputs)])] t = (map Inr batches, t') \<and> concat batches = demo_outputs"
proof -
  let ?bs = "records_bytes byte_sum demo_outputs"
  let ?polls = "[(1, [take 30 ?bs]), (2, [drop 30 ?bs])]"
  have len: "length ?bs = 68"
    by (simp add: demo_outputs_def record_bytes_def output_bytes_def state_bytes_def state_event_bytes_def)
  have chunks: "\<forall>(limit, chunks) \<in> set ?polls. [] \<notin> set chunks" using len by auto
  have "prefix (concat (concat (map snd ?polls))) ?bs" by simp
  from tail_delivers_in_order [OF byte_sum_u32 demo_outputs_fit(1) chunks this, of 42]
  show ?thesis using demo_outputs_fit(2) by auto
qed

end
