(* ===== verification/Spec2Isabelle.thy ===== *)
theory Spec2Isabelle
  imports Book_Properties Retry_Properties Wire_Properties Settlement_Properties Journal_Properties
begin

text \<open>
  Verification of a low-latency trading system: a deterministic matching and risk engine, the binary formats and
  the journal around it, and the settlement program on a chain.

  \<^bold>\<open>The parts.\<close>  A feed of framed messages (\<open>crates/protocol\<close>) is decoded into inputs of the engine
  (\<open>crates/trading-core\<close>).  The engine keeps one order book and one market view per instrument and one account
  record per participant; it checks every request against the limits, matches it, and emits output events.  The
  output thread of \<open>crates/engine-runtime\<close> appends the events in canonical encoding to a journal, which is read
  after a restart or followed while it grows.  Apart from it, a settlement program
  (\<open>adapters/solana/programs/settlement\<close>) holds collateral and applies batches of transfers.

  \<^bold>\<open>Conventions.\<close>  Unsigned machine integers are \<open>nat\<close>, signed ones \<open>int\<close>; every operation that can leave
  the width has it written out (\<open>checked_add 64\<close>, \<open>wrapping_add 64\<close>, \<open>in_signed 64\<close>).  Bytes are \<open>8 word\<close>, keys
  of the chain \<open>256 word\<close>.  A panic is \<open>None\<close>, a \<open>Result\<close> a sum with the error on the left, a hash map a map.  Code
  that is not part of the repository is an argument: the slab allocator (a record \<open>S\<close>, laws in \<open>slab_store\<close>, which
  a list-backed slab satisfies), the checksum (\<open>crc\<close>), the sink of the journal (a record \<open>K\<close>, laws in
  \<open>byte_sink\<close>, which a bounded buffer in memory satisfies) and the chain's runtime (a record \<open>E\<close>, laws in
  \<open>runtime\<close>: collision-free addresses, the token program's accounts and transfers; a token ledger with a table of
  addresses satisfies them).

  \<^bold>\<open>Theories and sources.\<close>
  \<^item> \<open>Prelude\<close>: checked arithmetic, options, lists, sums over maps.  \<open>Types\<close>: \<open>protocol/src/ids.rs\<close>,
    \<open>enums.rs\<close>, \<open>events.rs\<close>.
  \<^item> \<open>Ordered_Map\<close>, \<open>Book\<close>: \<open>trading-core/src/book.rs\<close>, the book over a slab with intrusive queues;
    \<open>Book_Refine\<close>, \<open>Book_Contract\<close>: every operation refines queues and a lookup table.  \<open>Matching\<close>,
    \<open>Matching_Spec\<close>: \<open>matching.rs\<close> against price-time priority.  \<open>Reference\<close>, \<open>Book_Views\<close>, \<open>Model_Test\<close>: the
    reference book and the model-based test, which passes on every list of commands.
  \<^item> \<open>Market\<close>: \<open>market.rs\<close>.  \<open>Account\<close>: \<open>account.rs\<close>.  \<open>Core_State\<close>, \<open>Risk\<close>, \<open>Core\<close>: \<open>config.rs\<close>,
    \<open>risk.rs\<close> and \<open>core.rs\<close>, every check and every handler.
  \<^item> \<open>Ledger\<close>, \<open>Ledger_Steps\<close>, \<open>Core_Execute\<close>, \<open>Core_Books\<close>, \<open>Core_Inv\<close>, \<open>Core_Handlers\<close>, \<open>Core_Replace\<close>,
    \<open>Core_Apply\<close>, \<open>Core_Outputs\<close>: the invariant of the engine, which ties reservations, positions, tables and books
    together, and its preservation by every input.  \<open>Core_Demo\<close>: a concrete run for the witnesses.
  \<^item> \<open>Wire_Reader\<close>, \<open>Canonical\<close>, \<open>Codec\<close>: \<open>protocol/src/read.rs\<close>, \<open>error.rs\<close>, \<open>canonical.rs\<close>, \<open>codec.rs\<close>.
    A reader and a writer that are inverse to each other form a \<open>codec\<close>; codecs compose field by field, and the
    locale \<open>wire_format\<close> draws the consequences for whole messages.
  \<^item> \<open>Journal\<close>, \<open>Journal_Inv\<close>: \<open>engine-runtime/src/journal.rs\<close> and the output thread of \<open>pipeline.rs\<close>.
  \<^item> \<open>Settlement\<close>, \<open>Settlement_Inv\<close>: \<open>adapters/solana/programs/settlement/src/lib.rs\<close>.

  \<^bold>\<open>What is shown.\<close>
  \<^item> \<open>Book_Properties\<close>, \<open>Market\<close>: the book refines its queues and matches by price and time; the two books agree;
    the market view stays well formed, installs the best levels of a snapshot and shows nothing it cannot trust.
  \<^item> \<open>Core_Properties\<close>, \<open>Request_Properties\<close>: every list of well-typed inputs is processed without a panic;
    reservations equal the resting orders, positions sum to zero, limits hold, tables are exact, outputs are
    numbered; rejected requests change nothing, accepted orders passed every gate, cancels always work.
  \<^item> \<open>Retry_Properties\<close>: an entry of the request cache survives as many other requests of its account as the
    cache has slots less one, so exact retries are idempotent over whole runs; a conflicting duplicate ends that.
  \<^item> \<open>Wire_Properties\<close>: round trips, canonical decoding, detection of truncation and corruption.
  \<^item> \<open>Journal_Properties\<close>: what was recorded is read back, a cut at any byte loses nothing before it, the commit
    bound is kept, the tail delivers every record once and in order.
  \<^item> \<open>Settlement_Properties\<close>: collateral is backed by the vault, batches conserve it, an identity settles at most
    once, owners can withdraw unless a token account is frozen, the manifest commits to the legs.

  \<^bold>\<open>Bounds and termination.\<close>  No fuel is used.  The matching loops are \<open>partial_function (option)\<close> and proved to
  return on every well-formed book; the recovery of a journal terminates because every record takes bytes from the
  rest; all other recursion is structural.  Theorems on decoders assume inputs shorter than \<open>2 ^ 64\<close> bytes, the
  range of a length.

  \<^bold>\<open>Not modelled.\<close>  The state and output digests (values of BLAKE3), the generator of workloads (the theorems
  quantify over all inputs), threads, queues and snapshot cells of the runtime apart from the output thread, the
  control gateway and the control API (sockets, HTTP, JSON, a database), the simulator, fuzz targets and benches
  (drivers with input and output), and the Canton contract (Daml templates run by a ledger).  Errors of the file
  system end a call of the journal's readers before the modelled part begins; rent and lamports are left out of
  the settlement program.
\<close>

end
